(* ===== verification/Prelude.thy ===== *)
theory Prelude
  imports "HOL-Library.Word" "HOL-Library.Monad_Syntax"
begin

text \<open>
  Vocabulary shared by every component theory: the machine integer types, memory reads that
  can fault, the size type arithmetic, and the generic list, option and word lemmas.

  A value of type \<open>'a option\<close> returned by an operation that touches memory is \<^emph>\<open>checked\<close>:
  \<open>None\<close> stands for an access outside the object (undefined behaviour) or for a failed
  \<open>RTC_CHECK\<close>, \<open>Some x\<close> for a normal return of \<open>x\<close>. Rejections that the code reports by
  \<open>return false\<close> are ordinary values of a sum type and not \<open>None\<close>.
\<close>

unbundle bit_operations_syntax

section \<open>Machine types\<close>

type_synonym byte = "8 word"
type_synonym uint16 = "16 word"
type_synonym uint32 = "32 word"
type_synonym uint64 = "64 word"

named_theorems wire_simps \<open>rewrite rules that evaluate readers on written bytes\<close>
named_theorems out_simps \<open>rewrite rules that merge consecutive buffer writes\<close>
named_theorems safe_intros \<open>rules that reduce the absence of a fault to bounds on the reads\<close>

section \<open>Reads from memory\<close>

text \<open>
  A pointer into a byte array is the list of the bytes from there to the end of the array;
  \<open>&p[i]\<close> is \<open>drop i p\<close> and \<open>p[i]\<close> is \<open>byte_at p i\<close>.
\<close>

definition byte_at :: "byte list \<Rightarrow> nat \<Rightarrow> byte option" where
  "byte_at data i = (if i < length data then Some (data ! i) else None)"

lemma byte_at_Some_iff: "byte_at data i = Some b \<longleftrightarrow> i < length data \<and> b = data ! i"
  by (auto simp: byte_at_def)

lemma byte_at_append_ge [simp]:
  "length xs \<le> i \<Longrightarrow> byte_at (xs @ ys) i = byte_at ys (i - length xs)"
  by (auto simp: byte_at_def nth_append)

lemma byte_at_append_lt [simp]: "i < length xs \<Longrightarrow> byte_at (xs @ ys) i = byte_at xs i"
  by (auto simp: byte_at_def nth_append)

lemma byte_at_Cons_0 [simp]: "byte_at (x # xs) 0 = Some x"
  by (simp add: byte_at_def)

lemma byte_at_Cons_Suc [simp]: "byte_at (x # xs) (Suc i) = byte_at xs i"
  by (simp add: byte_at_def)

lemma byte_at_Cons_numeral [simp]:
  "byte_at (x # xs) (numeral k) = byte_at xs (pred_numeral k)"
  by (simp add: byte_at_def numeral_eq_Suc)

lemma byte_at_in_range: "i < length data \<Longrightarrow> byte_at data i = Some (data ! i)"
  by (simp add: byte_at_def)

lemma byte_at_drop [simp]: "byte_at (drop n data) i = byte_at data (n + i)"
  by (auto simp: byte_at_def)

text \<open>\<open>memcpy(dst, data, n)\<close> and \<open>std::string::assign(data, n)\<close> read \<open>n\<close> bytes.\<close>

definition read_bytes :: "nat \<Rightarrow> byte list \<Rightarrow> byte list option" where
  "read_bytes n data = (if n \<le> length data then Some (take n data) else None)"

lemma read_bytes_append [wire_simps]: "n = length xs \<Longrightarrow> read_bytes n (xs @ ys) = Some xs"
  by (simp add: read_bytes_def)

lemma read_bytes_exact [wire_simps]: "n = length xs \<Longrightarrow> read_bytes n xs = Some xs"
  by (simp add: read_bytes_def)

section \<open>Absence of faults\<close>

definition safe :: "'a option \<Rightarrow> bool" where
  "safe m \<longleftrightarrow> m \<noteq> None"

lemma safeD: "safe m \<Longrightarrow> m \<noteq> None"
  by (simp add: safe_def)

lemma safe_Some [safe_intros]: "safe (Some x)"
  by (simp add: safe_def)

lemma safe_bind [safe_intros]:
  "safe m \<Longrightarrow> (\<And>x. m = Some x \<Longrightarrow> safe (f x)) \<Longrightarrow> safe (Option.bind m f)"
  by (auto simp: safe_def)

lemma safe_if [safe_intros]:
  "(c \<Longrightarrow> safe a) \<Longrightarrow> (\<not> c \<Longrightarrow> safe b) \<Longrightarrow> safe (if c then a else b)"
  by simp

lemma safe_Let [safe_intros]: "safe (f v) \<Longrightarrow> safe (Let v f)"
  by simp

lemma safe_prod [safe_intros]:
  "(\<And>a b. x = (a, b) \<Longrightarrow> safe (f a b)) \<Longrightarrow> safe (case x of (a, b) \<Rightarrow> f a b)"
  by (cases x) simp

lemma safe_sum [safe_intros]:
  "(\<And>a. x = Inl a \<Longrightarrow> safe (f a)) \<Longrightarrow> (\<And>b. x = Inr b \<Longrightarrow> safe (g b)) \<Longrightarrow>
   safe (case x of Inl a \<Rightarrow> f a | Inr b \<Rightarrow> g b)"
  by (cases x) simp_all

lemma safe_map_option [safe_intros]: "safe m \<Longrightarrow> safe (map_option f m)"
  by (simp add: safe_def)

lemma safe_byte_at [safe_intros]: "i < length data \<Longrightarrow> safe (byte_at data i)"
  by (simp add: safe_def byte_at_def)

lemma safe_read_bytes [safe_intros]: "n \<le> length data \<Longrightarrow> safe (read_bytes n data)"
  by (simp add: safe_def read_bytes_def)

section \<open>The size type\<close>

text \<open>
  Sizes are natural numbers. Subtraction of \<open>size_t\<close> values wraps at 64 bits, which the
  truncating subtraction of \<^typ>\<open>nat\<close> does not.
\<close>

definition size_sub :: "nat \<Rightarrow> nat \<Rightarrow> nat" where
  "size_sub a b = (if b \<le> a then a - b else (a + 2 ^ 64 - b))"

lemma size_sub_le [simp]: "b \<le> a \<Longrightarrow> size_sub a b = a - b"
  by (simp add: size_sub_def)

text \<open>\<open>RtpUtility::Word32Align\<close>\<close>

definition Word32Align :: "nat \<Rightarrow> nat" where
  "Word32Align sz = (let remainder = sz mod 4 in if remainder \<noteq> 0 then sz + 4 - remainder else sz)"

text \<open>Signed 64 bit arithmetic; overflow is undefined.\<close>

definition int64 :: "int \<Rightarrow> int option" where
  "int64 x = (if - (2 ^ 63) \<le> x \<and> x < 2 ^ 63 then Some x else None)"

section \<open>Lists\<close>

text \<open>Overwriting a stretch of a list, and the effect of two adjacent overwrites.\<close>

definition splice_at :: "nat \<Rightarrow> 'a list \<Rightarrow> 'a list \<Rightarrow> 'a list" where
  "splice_at pos bs xs = take pos xs @ bs @ drop (pos + length bs) xs"

lemma length_splice_at [simp]:
  "pos + length bs \<le> length xs \<Longrightarrow> length (splice_at pos bs xs) = length xs"
  by (simp add: splice_at_def)

lemma splice_at_Nil [simp]: "pos \<le> length xs \<Longrightarrow> splice_at pos [] xs = xs"
  by (simp add: splice_at_def)

lemma splice_at_adjacent:
  assumes "pos + length a + length b \<le> length xs"
  shows "splice_at (pos + length a) b (splice_at pos a xs) = splice_at pos (a @ b) xs"
  using assms by (simp add: splice_at_def ac_simps)

lemma take_splice_at:
  assumes "pos + length bs \<le> length xs"
  shows "take (pos + length bs) (splice_at pos bs xs) = take pos xs @ bs"
  using assms by (simp add: splice_at_def)

lemma take_splice_at_before:
  assumes "pos + length bs \<le> length xs" "n \<le> pos"
  shows "take n (splice_at pos bs xs) = take n xs"
  using assms by (simp add: splice_at_def)

lemma take_splice_at_after:
  assumes "pos + length bs \<le> n" "n \<le> length xs"
  shows "take n (splice_at pos bs xs) = splice_at pos bs (take n xs)"
proof -
  have "length (take pos xs) = pos" "min pos n = pos" using assms by simp_all
  then show ?thesis using assms by (simp add: splice_at_def drop_take)
qed

lemma nth_splice_at:
  assumes "pos + length bs \<le> length xs" "i < length xs"
  shows "splice_at pos bs xs ! i = (if pos \<le> i \<and> i < pos + length bs then bs ! (i - pos) else xs ! i)"
  using assms by (auto simp: splice_at_def nth_append)

lemma drop_splice_at:
  assumes "pos + length bs \<le> length xs"
  shows "drop pos (splice_at pos bs xs) = bs @ drop (pos + length bs) xs"
  using assms by (simp add: splice_at_def)

lemma drop_splice_at_after:
  assumes "pos + length bs \<le> n" "n \<le> length xs"
  shows "drop n (splice_at pos bs xs) = drop n xs"
  using assms by (simp add: splice_at_def)

lemma sum_list_const: "sum_list (map (\<lambda>_. c) xs) = c * length (xs :: 'a list)" for c :: nat
  by (induction xs) auto

lemma length_concat_const:
  "(\<And>x. x \<in> set xs \<Longrightarrow> length (f x) = n) \<Longrightarrow> length (concat (map f xs)) = n * length xs"
  by (induction xs) auto

section \<open>Monadic traversal\<close>

text \<open>
  A \<open>for\<close> loop that threads a state through the elements of a list and stops at the first fault.
\<close>

fun for_each :: "('a \<Rightarrow> 's \<Rightarrow> 's option) \<Rightarrow> 'a list \<Rightarrow> 's \<Rightarrow> 's option" where
  "for_each f [] s = Some s"
| "for_each f (x # xs) s = do { s' \<leftarrow> f x s; for_each f xs s' }"

lemma for_each_append:
  "for_each f (xs @ ys) s = do { s' \<leftarrow> for_each f xs s; for_each f ys s' }"
  by (induction xs arbitrary: s) (auto split: Option.bind_splits)

lemma for_each_cong:
  "(\<And>x s. x \<in> set xs \<Longrightarrow> f x s = g x s) \<Longrightarrow> for_each f xs s = for_each g xs s"
  by (induction xs arbitrary: s) (auto cong: Option.bind_cong)

lemma safe_for_each [safe_intros]:
  "(\<And>x s. x \<in> set xs \<Longrightarrow> safe (f x s)) \<Longrightarrow> safe (for_each f xs s)"
  by (induction xs arbitrary: s) (auto intro!: safe_intros)

section \<open>Words\<close>

lemma take_bit_ge_length: "LENGTH('a::len) \<le> n \<Longrightarrow> take_bit n (w :: 'a word) = w"
  by (rule bit_word_eqI) (simp add: bit_simps)

lemma bit_beyond_length: "LENGTH('a::len) \<le> n \<Longrightarrow> \<not> bit (w :: 'a word) n"
  using bit_imp_le_length [of w n] by linarith

lemma bit_less_exp: "unat w < 2 ^ k \<Longrightarrow> bit w n \<Longrightarrow> n < k" for w :: "'a::len word"
proof -
  assume "unat w < 2 ^ k" and b: "bit w n"
  then have "take_bit k w = w"
    by (simp add: word_unat_eq_iff unsigned_take_bit_eq take_bit_nat_eq_self_iff)
  with b show ?thesis by (metis bit_take_bit_iff)
qed

lemma unat_of_nat_small: "n < 2 ^ LENGTH('a::len) \<Longrightarrow> unat (of_nat n :: 'a word) = n"
  by (simp add: unat_of_nat)

lemma unat_lt_256 [simp]: "unat (b :: byte) < 256"
  using unsigned_less [of b] by simp

lemma unat_le_255 [simp]: "unat (b :: byte) \<le> 255"
  using unat_lt_256 [of b] by linarith

lemma unat_lt_65536 [simp]: "unat (w :: uint16) < 65536"
  using unsigned_less [of w] by simp

end
