(* ===== verification/ByteIo.thy ===== *)
theory ByteIo
  imports Prelude
begin

text \<open>
  The integer serialisers of \<open>modules/rtp_rtcp/source/byte_io.h\<close>: \<open>ByteReader<T, B>\<close> and
  \<open>ByteWriter<T, B>\<close> for unsigned and signed \<open>T\<close>, in both byte orders, with the unrolled
  specialisations for 1, 2, 4 and 8 bytes. The template parameter \<open>T\<close> is the word type of the
  result, \<open>B\<close> an argument. Lemmas: the unrolled specialisations agree with the generic loops,
  reading inverts writing and writing inverts reading, a short buffer faults, and signed reads
  sign-extend.
\<close>

section \<open>Unsigned readers\<close>

definition InternalReadBigEndian :: "nat \<Rightarrow> byte list \<Rightarrow> 'a::len word option" where
  "InternalReadBigEndian B data =
     for_each (\<lambda>i val. do { b \<leftarrow> byte_at data i;
                            Some (val OR push_bit ((B - 1 - i) * 8) (ucast b)) })
       [0..<B] 0"

definition InternalReadLittleEndian :: "nat \<Rightarrow> byte list \<Rightarrow> 'a::len word option" where
  "InternalReadLittleEndian B data =
     for_each (\<lambda>i val. do { b \<leftarrow> byte_at data i; Some (val OR push_bit (i * 8) (ucast b)) })
       [0..<B] 0"

definition ReadBigEndian1 :: "byte list \<Rightarrow> 'a::len word option" where
  "ReadBigEndian1 data = do { b0 \<leftarrow> byte_at data 0; Some (ucast b0) }"

definition ReadBigEndian2 :: "byte list \<Rightarrow> 'a::len word option" where
  "ReadBigEndian2 data = do {
     b0 \<leftarrow> byte_at data 0; b1 \<leftarrow> byte_at data 1;
     Some (push_bit 8 (ucast b0) OR ucast b1) }"

definition ReadLittleEndian2 :: "byte list \<Rightarrow> 'a::len word option" where
  "ReadLittleEndian2 data = do {
     b0 \<leftarrow> byte_at data 0; b1 \<leftarrow> byte_at data 1;
     Some (ucast b0 OR push_bit 8 (ucast b1)) }"

definition ReadBigEndian4 :: "byte list \<Rightarrow> 'a::len word option" where
  "ReadBigEndian4 data = do {
     b0 \<leftarrow> byte_at data 0; b1 \<leftarrow> byte_at data 1; b2 \<leftarrow> byte_at data 2; b3 \<leftarrow> byte_at data 3;
     Some (push_bit 24 (ucast b0) OR push_bit 16 (ucast b1) OR push_bit 8 (ucast b2) OR
           ucast b3) }"

definition ReadLittleEndian4 :: "byte list \<Rightarrow> 'a::len word option" where
  "ReadLittleEndian4 data = do {
     b0 \<leftarrow> byte_at data 0; b1 \<leftarrow> byte_at data 1; b2 \<leftarrow> byte_at data 2; b3 \<leftarrow> byte_at data 3;
     Some (ucast b0 OR push_bit 8 (ucast b1) OR push_bit 16 (ucast b2) OR
           push_bit 24 (ucast b3)) }"

definition ReadBigEndian8 :: "byte list \<Rightarrow> 'a::len word option" where
  "ReadBigEndian8 data = do {
     b0 \<leftarrow> byte_at data 0; b1 \<leftarrow> byte_at data 1; b2 \<leftarrow> byte_at data 2; b3 \<leftarrow> byte_at data 3;
     b4 \<leftarrow> byte_at data 4; b5 \<leftarrow> byte_at data 5; b6 \<leftarrow> byte_at data 6; b7 \<leftarrow> byte_at data 7;
     Some (push_bit 56 (ucast b0) OR push_bit 48 (ucast b1) OR
           push_bit 40 (ucast b2) OR push_bit 32 (ucast b3) OR
           push_bit 24 (ucast b4) OR push_bit 16 (ucast b5) OR
           push_bit 8 (ucast b6) OR ucast b7) }"

definition ReadLittleEndian8 :: "byte list \<Rightarrow> 'a::len word option" where
  "ReadLittleEndian8 data = do {
     b0 \<leftarrow> byte_at data 0; b1 \<leftarrow> byte_at data 1; b2 \<leftarrow> byte_at data 2; b3 \<leftarrow> byte_at data 3;
     b4 \<leftarrow> byte_at data 4; b5 \<leftarrow> byte_at data 5; b6 \<leftarrow> byte_at data 6; b7 \<leftarrow> byte_at data 7;
     Some (ucast b0 OR push_bit 8 (ucast b1) OR
           push_bit 16 (ucast b2) OR push_bit 24 (ucast b3) OR
           push_bit 32 (ucast b4) OR push_bit 40 (ucast b5) OR
           push_bit 48 (ucast b6) OR push_bit 56 (ucast b7)) }"

text \<open>The compiler picks the most specialised template for the given \<open>B\<close>.\<close>

definition ReadBigEndian :: "nat \<Rightarrow> byte list \<Rightarrow> 'a::len word option" where
  "ReadBigEndian B data =
     (if B = 1 then ReadBigEndian1 data
      else if B = 2 then ReadBigEndian2 data
      else if B = 4 then ReadBigEndian4 data
      else if B = 8 then ReadBigEndian8 data
      else InternalReadBigEndian B data)"

definition ReadLittleEndian :: "nat \<Rightarrow> byte list \<Rightarrow> 'a::len word option" where
  "ReadLittleEndian B data =
     (if B = 1 then ReadBigEndian1 data
      else if B = 2 then ReadLittleEndian2 data
      else if B = 4 then ReadLittleEndian4 data
      else if B = 8 then ReadLittleEndian8 data
      else InternalReadLittleEndian B data)"

section \<open>Unsigned writers\<close>

text \<open>A writer is modelled by the bytes it stores at \<open>data[0]\<close>, \<open>data[1]\<close> and so on.\<close>

definition InternalWriteBigEndian :: "nat \<Rightarrow> 'a::len word \<Rightarrow> byte list" where
  "InternalWriteBigEndian B val = map (\<lambda>i. ucast (drop_bit ((B - 1 - i) * 8) val)) [0..<B]"

definition InternalWriteLittleEndian :: "nat \<Rightarrow> 'a::len word \<Rightarrow> byte list" where
  "InternalWriteLittleEndian B val = map (\<lambda>i. ucast (drop_bit (i * 8) val)) [0..<B]"

definition WriteBigEndian1 :: "'a::len word \<Rightarrow> byte list" where
  "WriteBigEndian1 val = [ucast val]"

definition WriteBigEndian2 :: "'a::len word \<Rightarrow> byte list" where
  "WriteBigEndian2 val = [ucast (drop_bit 8 val), ucast val]"

definition WriteLittleEndian2 :: "'a::len word \<Rightarrow> byte list" where
  "WriteLittleEndian2 val = [ucast val, ucast (drop_bit 8 val)]"

definition WriteBigEndian4 :: "'a::len word \<Rightarrow> byte list" where
  "WriteBigEndian4 val =
     [ucast (drop_bit 24 val), ucast (drop_bit 16 val), ucast (drop_bit 8 val), ucast val]"

definition WriteLittleEndian4 :: "'a::len word \<Rightarrow> byte list" where
  "WriteLittleEndian4 val =
     [ucast val, ucast (drop_bit 8 val), ucast (drop_bit 16 val), ucast (drop_bit 24 val)]"

definition WriteBigEndian8 :: "'a::len word \<Rightarrow> byte list" where
  "WriteBigEndian8 val =
     [ucast (drop_bit 56 val), ucast (drop_bit 48 val), ucast (drop_bit 40 val),
      ucast (drop_bit 32 val), ucast (drop_bit 24 val), ucast (drop_bit 16 val),
      ucast (drop_bit 8 val), ucast val]"

definition WriteLittleEndian8 :: "'a::len word \<Rightarrow> byte list" where
  "WriteLittleEndian8 val =
     [ucast val, ucast (drop_bit 8 val), ucast (drop_bit 16 val), ucast (drop_bit 24 val),
      ucast (drop_bit 32 val), ucast (drop_bit 40 val), ucast (drop_bit 48 val),
      ucast (drop_bit 56 val)]"

definition WriteBigEndian :: "nat \<Rightarrow> 'a::len word \<Rightarrow> byte list" where
  "WriteBigEndian B val =
     (if B = 1 then WriteBigEndian1 val
      else if B = 2 then WriteBigEndian2 val
      else if B = 4 then WriteBigEndian4 val
      else if B = 8 then WriteBigEndian8 val
      else InternalWriteBigEndian B val)"

definition WriteLittleEndian :: "nat \<Rightarrow> 'a::len word \<Rightarrow> byte list" where
  "WriteLittleEndian B val =
     (if B = 1 then WriteBigEndian1 val
      else if B = 2 then WriteLittleEndian2 val
      else if B = 4 then WriteLittleEndian4 val
      else if B = 8 then WriteLittleEndian8 val
      else InternalWriteLittleEndian B val)"

section \<open>Signed readers and writers\<close>

text \<open>
  \<open>sizeof(T)\<close> is \<open>LENGTH('a) div 8\<close>. The mask of \<open>SignExtend\<close> is computed in \<open>int\<close>
  (\<open>1 << n\<close>), whose shift is undefined from 32 bits on. A signed result is an integer.
\<close>

definition SignExtend :: "nat \<Rightarrow> 'a::len word \<Rightarrow> 'a word option" where
  "SignExtend B val =
     (let kMsb = ucast (drop_bit ((B - 1) * 8) val) :: byte in
      if kMsb AND 0x80 \<noteq> 0 then
        let sh = (B mod (LENGTH('a) div 8)) * 8 in
        if sh < 32 then Some (NOT (push_bit sh 1 - 1) OR val) else None
      else Some val)"

definition ReinterpretAsSigned :: "'a::len word \<Rightarrow> int" where
  "ReinterpretAsSigned unsigned_val =
     (let kUnsignedHighestBitMask = push_bit (LENGTH('a) - 1) 1;
          kSignedHighestBitMask = - (2 ^ (LENGTH('a) - 1))
      in if unsigned_val AND kUnsignedHighestBitMask \<noteq> 0
         then uint (unsigned_val AND NOT kUnsignedHighestBitMask) OR kSignedHighestBitMask
         else uint unsigned_val)"

definition ReadBigEndianSigned :: "'a::len itself \<Rightarrow> nat \<Rightarrow> byte list \<Rightarrow> int option" where
  "ReadBigEndianSigned T B data = do {
     unsigned_val \<leftarrow> (ReadBigEndian B data :: 'a word option);
     v \<leftarrow> (if B < LENGTH('a) div 8 then SignExtend B unsigned_val else Some unsigned_val);
     Some (ReinterpretAsSigned v) }"

definition ReadLittleEndianSigned :: "'a::len itself \<Rightarrow> nat \<Rightarrow> byte list \<Rightarrow> int option" where
  "ReadLittleEndianSigned T B data = do {
     unsigned_val \<leftarrow> (ReadLittleEndian B data :: 'a word option);
     v \<leftarrow> (if B < LENGTH('a) div 8 then SignExtend B unsigned_val else Some unsigned_val);
     Some (ReinterpretAsSigned v) }"

definition ReinterpretAsUnsigned :: "int \<Rightarrow> 'a::len word" where
  "ReinterpretAsUnsigned val = word_of_int val"

definition WriteBigEndianSigned :: "'a::len itself \<Rightarrow> nat \<Rightarrow> int \<Rightarrow> byte list" where
  "WriteBigEndianSigned T B val = WriteBigEndian B (ReinterpretAsUnsigned val :: 'a word)"

definition WriteLittleEndianSigned :: "'a::len itself \<Rightarrow> nat \<Rightarrow> int \<Rightarrow> byte list" where
  "WriteLittleEndianSigned T B val = WriteLittleEndian B (ReinterpretAsUnsigned val :: 'a word)"

section \<open>The specialisations agree with the loops\<close>

lemmas read_spec_defs =
  ReadBigEndian1_def ReadBigEndian2_def ReadBigEndian4_def ReadBigEndian8_def
  ReadLittleEndian2_def ReadLittleEndian4_def ReadLittleEndian8_def

lemmas write_spec_defs =
  WriteBigEndian1_def WriteBigEndian2_def WriteBigEndian4_def WriteBigEndian8_def
  WriteLittleEndian2_def WriteLittleEndian4_def WriteLittleEndian8_def

lemma ReadBigEndian_generic:
  "(ReadBigEndian B data :: 'a::len word option) = InternalReadBigEndian B data"
  by (simp add: ReadBigEndian_def read_spec_defs InternalReadBigEndian_def upt_rec
      numeral_eq_Suc ac_simps cong: Option.bind_cong)

lemma ReadLittleEndian_generic:
  "(ReadLittleEndian B data :: 'a::len word option) = InternalReadLittleEndian B data"
  by (simp add: ReadLittleEndian_def read_spec_defs InternalReadLittleEndian_def upt_rec
      numeral_eq_Suc ac_simps cong: Option.bind_cong)

lemma WriteBigEndian_generic: "WriteBigEndian B val = InternalWriteBigEndian B val"
  by (simp add: WriteBigEndian_def write_spec_defs InternalWriteBigEndian_def upt_rec numeral_eq_Suc)

lemma WriteLittleEndian_generic: "WriteLittleEndian B val = InternalWriteLittleEndian B val"
  by (simp add: WriteLittleEndian_def write_spec_defs InternalWriteLittleEndian_def upt_rec numeral_eq_Suc)

section \<open>Bit-level meaning of the loops\<close>

lemma for_each_or:
  "for_each (\<lambda>i val. do { b \<leftarrow> byte_at data i; Some (val OR f i b) }) is v =
     (if \<forall>i\<in>set is. i < length data
      then Some (foldl (\<lambda>v i. v OR f i (data ! i)) v is) else None)"
  for f :: "nat \<Rightarrow> byte \<Rightarrow> 'a::len word"
  by (induction "is" arbitrary: v) (auto simp: byte_at_def)

lemma bit_foldl_or:
  "bit (foldl (\<lambda>v i. v OR g i) v is) n \<longleftrightarrow> bit v n \<or> (\<exists>i\<in>set is. bit (g i) n)"
  for g :: "'i \<Rightarrow> 'a::len word"
  by (induction "is" arbitrary: v) (auto simp: bit_or_iff)

definition be_word :: "nat \<Rightarrow> byte list \<Rightarrow> 'a::len word" where
  "be_word B data = foldl (\<lambda>v i. v OR push_bit ((B - 1 - i) * 8) (ucast (data ! i))) 0 [0..<B]"

definition le_word :: "nat \<Rightarrow> byte list \<Rightarrow> 'a::len word" where
  "le_word B data = foldl (\<lambda>v i. v OR push_bit (i * 8) (ucast (data ! i))) 0 [0..<B]"

lemma ReadBigEndian_eq:
  "ReadBigEndian B data = (if B \<le> length data then Some (be_word B data) else None)"
  by (force simp: ReadBigEndian_generic InternalReadBigEndian_def for_each_or be_word_def)

lemma ReadLittleEndian_eq:
  "ReadLittleEndian B data = (if B \<le> length data then Some (le_word B data) else None)"
  by (force simp: ReadLittleEndian_generic InternalReadLittleEndian_def for_each_or le_word_def)

lemma byte_index:
  fixes n k :: nat
  assumes "k * 8 \<le> n" "n - k * 8 < 8"
  shows "n div 8 = k" "n mod 8 = n - k * 8"
proof -
  obtain r where r: "n = k * 8 + r" using assms(1) le_Suc_ex by blast
  with assms show "n div 8 = k" "n mod 8 = n - k * 8" by simp_all
qed

lemma bit_be_word:
  "bit (be_word B data :: 'a::len word) n \<longleftrightarrow>
     n < LENGTH('a) \<and> n < 8 * B \<and> bit (data ! (B - 1 - n div 8)) (n mod 8)"
proof -
  have "bit (be_word B data :: 'a word) n \<longleftrightarrow>
      n < LENGTH('a) \<and> (\<exists>i<B. (B - 1 - i) * 8 \<le> n \<and> bit (data ! i) (n - (B - 1 - i) * 8))"
    by (auto simp: be_word_def bit_foldl_or bit_simps)
  also have "\<dots> \<longleftrightarrow> n < LENGTH('a) \<and> n < 8 * B \<and> bit (data ! (B - 1 - n div 8)) (n mod 8)"
  proof (intro conj_cong refl iffI)
    assume "\<exists>i<B. (B - 1 - i) * 8 \<le> n \<and> bit (data ! i) (n - (B - 1 - i) * 8)"
    then obtain i where i: "i < B" "(B - 1 - i) * 8 \<le> n" "bit (data ! i) (n - (B - 1 - i) * 8)"
      by blast
    then have lt: "n - (B - 1 - i) * 8 < 8"
      using bit_imp_le_length [OF i(3)] by simp
    note byte_index [OF i(2) lt]
    with i lt show "n < 8 * B \<and> bit (data ! (B - 1 - n div 8)) (n mod 8)"
      by auto
  next
    assume n: "n < 8 * B \<and> bit (data ! (B - 1 - n div 8)) (n mod 8)"
    then have "n div 8 < B" by auto
    then have "B - 1 - (B - 1 - n div 8) = n div 8" "B - 1 - n div 8 < B"
      by simp_all
    with n show "\<exists>i<B. (B - 1 - i) * 8 \<le> n \<and> bit (data ! i) (n - (B - 1 - i) * 8)"
      by (intro exI [of _ "B - 1 - n div 8"]) (simp add: minus_div_mult_eq_mod)
  qed
  finally show ?thesis .
qed

lemma bit_le_word:
  "bit (le_word B data :: 'a::len word) n \<longleftrightarrow>
     n < LENGTH('a) \<and> n < 8 * B \<and> bit (data ! (n div 8)) (n mod 8)"
proof -
  have "bit (le_word B data :: 'a word) n \<longleftrightarrow>
      n < LENGTH('a) \<and> (\<exists>i<B. i * 8 \<le> n \<and> bit (data ! i) (n - i * 8))"
    by (auto simp: le_word_def bit_foldl_or bit_simps)
  also have "\<dots> \<longleftrightarrow> n < LENGTH('a) \<and> n < 8 * B \<and> bit (data ! (n div 8)) (n mod 8)"
  proof (intro conj_cong refl iffI)
    assume "\<exists>i<B. i * 8 \<le> n \<and> bit (data ! i) (n - i * 8)"
    then obtain i where i: "i < B" "i * 8 \<le> n" "bit (data ! i) (n - i * 8)"
      by blast
    then have lt: "n - i * 8 < 8"
      using bit_imp_le_length [OF i(3)] by simp
    note byte_index [OF i(2) lt]
    with i lt show "n < 8 * B \<and> bit (data ! (n div 8)) (n mod 8)"
      by auto
  next
    assume n: "n < 8 * B \<and> bit (data ! (n div 8)) (n mod 8)"
    then have "n div 8 < B" by auto
    with n show "\<exists>i<B. i * 8 \<le> n \<and> bit (data ! i) (n - i * 8)"
      by (intro exI [of _ "n div 8"]) (simp add: minus_div_mult_eq_mod)
  qed
  finally show ?thesis .
qed

section \<open>Round trips\<close>

lemma length_WriteBigEndian [simp]: "length (WriteBigEndian B val) = B"
  by (simp add: WriteBigEndian_generic InternalWriteBigEndian_def)

lemma length_WriteLittleEndian [simp]: "length (WriteLittleEndian B val) = B"
  by (simp add: WriteLittleEndian_generic InternalWriteLittleEndian_def)

lemma nth_WriteBigEndian:
  "i < B \<Longrightarrow> WriteBigEndian B val ! i = ucast (drop_bit ((B - 1 - i) * 8) val)"
  by (simp add: WriteBigEndian_generic InternalWriteBigEndian_def)

lemma nth_WriteLittleEndian:
  "i < B \<Longrightarrow> WriteLittleEndian B val ! i = ucast (drop_bit (i * 8) val)"
  by (simp add: WriteLittleEndian_generic InternalWriteLittleEndian_def)

lemma div_mod_8_eq: "n div 8 * 8 + n mod 8 = (n :: nat)"
  by simp

lemma be_word_WriteBigEndian: "be_word B (WriteBigEndian B val @ rest) = take_bit (8 * B) val"
proof (rule bit_word_eqI)
  fix n assume n: "n < LENGTH('a)"
  show "bit (be_word B (WriteBigEndian B val @ rest) :: 'a word) n \<longleftrightarrow>
        bit (take_bit (8 * B) val) n"
  proof (cases "n < 8 * B")
    case True
    then have d: "n div 8 < B" by auto
    then have i: "B - 1 - n div 8 < B" and e: "B - 1 - (B - 1 - n div 8) = n div 8" by simp_all
    have "(WriteBigEndian B val @ rest) ! (B - 1 - n div 8) = ucast (drop_bit (n div 8 * 8) val)"
      using i e by (simp add: nth_append nth_WriteBigEndian)
    then show ?thesis
      using n True by (simp add: bit_be_word bit_simps)
  qed (simp add: bit_be_word bit_simps)
qed

lemma le_word_WriteLittleEndian:
  "le_word B (WriteLittleEndian B val @ rest) = take_bit (8 * B) val"
proof (rule bit_word_eqI)
  fix n assume n: "n < LENGTH('a)"
  show "bit (le_word B (WriteLittleEndian B val @ rest) :: 'a word) n \<longleftrightarrow>
        bit (take_bit (8 * B) val) n"
  proof (cases "n < 8 * B")
    case True
    then have d: "n div 8 < B" by auto
    then have "(WriteLittleEndian B val @ rest) ! (n div 8) = ucast (drop_bit (n div 8 * 8) val)"
      by (simp add: nth_append nth_WriteLittleEndian)
    then show ?thesis
      using n True by (simp add: bit_le_word bit_simps)
  qed (simp add: bit_le_word bit_simps)
qed

lemma ReadBigEndian_WriteBigEndian:
  "ReadBigEndian B (WriteBigEndian B val @ rest) = Some (take_bit (8 * B) val)"
  by (simp add: ReadBigEndian_eq be_word_WriteBigEndian)

lemma ReadLittleEndian_WriteLittleEndian:
  "ReadLittleEndian B (WriteLittleEndian B val @ rest) = Some (take_bit (8 * B) val)"
  by (simp add: ReadLittleEndian_eq le_word_WriteLittleEndian)

lemma WriteBigEndian_be_word:
  assumes "8 * B \<le> LENGTH('a)" "B \<le> length data"
  shows "WriteBigEndian B (be_word B data :: 'a::len word) = take B data"
proof (rule nth_equalityI)
  fix i assume "i < length (WriteBigEndian B (be_word B data :: 'a word))"
  then have i: "i < B" by simp
  show "WriteBigEndian B (be_word B data :: 'a word) ! i = take B data ! i"
  proof (rule bit_word_eqI)
    fix n assume n: "n < LENGTH(8)"
    have lt: "(B - 1 - i) * 8 + n < 8 * B" using i n by (simp add: algebra_simps)
    have dv: "((B - 1 - i) * 8 + n) div 8 = B - 1 - i" "((B - 1 - i) * 8 + n) mod 8 = n"
      using n by simp_all
    have e: "B - 1 - (B - 1 - i) = i" using i by simp
    have "bit (WriteBigEndian B (be_word B data :: 'a word) ! i) n \<longleftrightarrow>
          bit (be_word B data :: 'a word) ((B - 1 - i) * 8 + n)"
      using n i by (simp add: nth_WriteBigEndian bit_simps)
    also have "\<dots> \<longleftrightarrow> bit (data ! i) n"
      unfolding bit_be_word dv e using lt assms(1) by simp
    finally show "bit (WriteBigEndian B (be_word B data :: 'a word) ! i) n \<longleftrightarrow>
        bit (take B data ! i) n"
      using i assms(2) by simp
  qed
qed (use assms in simp)

lemma WriteBigEndian_inj:
  "8 * B = LENGTH('a) \<Longrightarrow> WriteBigEndian B (x :: 'a::len word) = WriteBigEndian B y \<longleftrightarrow> x = y"
  by (metis ReadBigEndian_WriteBigEndian option.inject order_refl take_bit_ge_length)

text \<open>The instances the packet code uses.\<close>

lemma ReadBigEndian_8 [wire_simps]: "ReadBigEndian 1 (WriteBigEndian 1 (x :: byte) @ rest) = Some x"
  by (simp add: ReadBigEndian_WriteBigEndian take_bit_ge_length)

lemma WriteBigEndian_byte [simp]:
  "WriteBigEndian 1 (x :: byte) = [x]" "WriteBigEndian (Suc 0) x = [x]"
  by (auto simp: WriteBigEndian_def WriteBigEndian1_def)

lemma ReadBigEndian_byte [simp]:
  "ReadBigEndian 1 (x # rest) = Some x" "ReadBigEndian (Suc 0) (x # rest) = Some x" for x :: byte
  by (auto simp: ReadBigEndian_def ReadBigEndian1_def)

lemma ReadBigEndian_16 [wire_simps]:
  "ReadBigEndian 2 (WriteBigEndian 2 (x :: uint16) @ rest) = Some x"
  by (simp add: ReadBigEndian_WriteBigEndian take_bit_ge_length)

lemma ReadBigEndian_24 [wire_simps]:
  "ReadBigEndian 3 (WriteBigEndian 3 (x :: uint32) @ rest) = Some (take_bit 24 x)"
  by (simp add: ReadBigEndian_WriteBigEndian)

lemma ReadBigEndian_32 [wire_simps]:
  "ReadBigEndian 4 (WriteBigEndian 4 (x :: uint32) @ rest) = Some x"
  by (simp add: ReadBigEndian_WriteBigEndian take_bit_ge_length)

lemma ReadBigEndian_64 [wire_simps]:
  "ReadBigEndian 8 (WriteBigEndian 8 (x :: uint64) @ rest) = Some x"
  by (simp add: ReadBigEndian_WriteBigEndian take_bit_ge_length)

lemma ReadBigEndian_Nil_append [wire_simps]:
  "ReadBigEndian 1 (WriteBigEndian 1 (a :: byte)) = Some a"
  "ReadBigEndian 2 (WriteBigEndian 2 (b :: uint16)) = Some b"
  "ReadBigEndian 3 (WriteBigEndian 3 (c :: uint32)) = Some (take_bit 24 c)"
  "ReadBigEndian 4 (WriteBigEndian 4 (c :: uint32)) = Some c"
  "ReadBigEndian 8 (WriteBigEndian 8 (d :: uint64)) = Some d"
  using ReadBigEndian_8 [of a "[]"] ReadBigEndian_16 [of b "[]"] ReadBigEndian_24 [of c "[]"]
    ReadBigEndian_32 [of c "[]"] ReadBigEndian_64 [of d "[]"] by simp_all

lemma ReadBigEndian_take_bit:
  "ReadBigEndian B data = Some (w :: 'a::len word) \<Longrightarrow> take_bit (8 * B) w = w"
  by (auto intro!: bit_word_eqI simp: ReadBigEndian_eq bit_be_word bit_simps split: if_splits)

lemma ReadBigEndian_Some_iff: "(\<exists>v. ReadBigEndian B data = Some v) \<longleftrightarrow> B \<le> length data"
  by (simp add: ReadBigEndian_eq)

lemma safe_ReadBigEndian [safe_intros]: "B \<le> length data \<Longrightarrow> safe (ReadBigEndian B data)"
  by (simp add: safe_def ReadBigEndian_eq)

lemma ReadBigEndian_fault: "ReadBigEndian B data = None \<longleftrightarrow> length data < B"
  by (simp add: ReadBigEndian_eq not_le)

section \<open>Signed values\<close>

lemma ReinterpretAsSigned_sint: "ReinterpretAsSigned (w :: 'a::len word) = sint w"
proof -
  let ?h = "LENGTH('a) - 1"
  have h: "(w AND push_bit ?h 1 \<noteq> 0) = bit w ?h"
    by (rule bit_iff_and_push_bit_not_eq_0 [symmetric])
  show ?thesis
  proof (cases "bit w ?h")
    case True
    have "uint (w AND NOT (push_bit ?h 1)) OR - (2 ^ ?h) = sint w"
      by (rule bit_eqI) (use True in \<open>auto simp: minus_exp_eq_not_mask bit_simps min_def\<close>)
    with True show ?thesis unfolding ReinterpretAsSigned_def Let_def h by (simp del: push_bit_of_1)
  next
    case False
    have "uint w = sint w"
      by (rule bit_eqI) (use False in \<open>auto simp: bit_simps min_def not_le le_less dest: bit_imp_le_length\<close>)
    with False show ?thesis unfolding ReinterpretAsSigned_def Let_def h by (simp del: push_bit_of_1)
  qed
qed

lemma SignExtend_eq:
  fixes w :: "'a::len word"
  assumes "1 \<le> B" "8 * B < LENGTH('a)" "B < LENGTH('a) div 8" "B \<le> 3"
    and w: "take_bit (8 * B) w = w"
  shows "SignExtend B w = Some (signed_take_bit (8 * B - 1) w)"
proof -
  have small: "\<not> bit w n" if "8 * B \<le> n" for n
    using that w by (metis bit_take_bit_iff not_le)
  have B8: "(B - 1) * 8 + 7 = 8 * B - 1" using assms(1) by simp
  obtain k where k: "8 * B = Suc k" using assms(1) by (cases "8 * B") auto
  have small': "\<not> bit w n" if "k < n" for n using small that k by simp
  let ?kMsb = "ucast (drop_bit ((B - 1) * 8) w) :: byte"
  have "?kMsb AND 0x80 \<noteq> 0 \<longleftrightarrow> bit ?kMsb 7"
    using bit_iff_and_push_bit_not_eq_0 [of ?kMsb 7] by simp
  also have "\<dots> \<longleftrightarrow> bit w (8 * B - 1)"
    by (simp only: bit_unsigned_iff bit_drop_bit_eq o_def B8) simp
  finally have msb: "?kMsb AND 0x80 \<noteq> 0 \<longleftrightarrow> bit w (8 * B - 1)" .
  have sh: "B mod (LENGTH('a) div 8) * 8 = 8 * B" using assms(3) by simp
  have "NOT (push_bit (8 * B) 1 - 1) OR w = signed_take_bit (8 * B - 1) w" if "bit w (8 * B - 1)"
  proof -
    have "push_bit (8 * B) (1 :: 'a word) - 1 = mask (8 * B)" by (simp add: mask_eq_decr_exp)
    then show ?thesis
      by (intro bit_word_eqI) (use that small in \<open>auto simp: k bit_simps min_def less_Suc_eq_le not_le Suc_le_eq dest: le_antisym\<close>)
  qed
  moreover have "w = signed_take_bit (8 * B - 1) w" if "\<not> bit w (8 * B - 1)"
    by (rule bit_word_eqI) (use that in \<open>auto simp: k bit_simps min_def le_less small'\<close>)
  ultimately show ?thesis
    unfolding SignExtend_def Let_def msb sh using assms(4) by auto
qed

lemma ReadBigEndianSigned_WriteBigEndianSigned_wrap:
  fixes v :: int
  assumes B: "1 \<le> B" "8 * B \<le> LENGTH('a::len)" "8 dvd LENGTH('a)"
    and narrow: "8 * B < LENGTH('a) \<longrightarrow> B \<le> 3"
  shows "ReadBigEndianSigned TYPE('a) B (WriteBigEndianSigned TYPE('a) B v @ rest) =
     Some (signed_take_bit (8 * B - 1) v)"
proof -
  let ?w = "word_of_int v :: 'a word"
  have read: "ReadBigEndian B (WriteBigEndian B ?w @ rest) = Some (take_bit (8 * B) ?w)"
    by (rule ReadBigEndian_WriteBigEndian)
  show ?thesis
  proof (cases "B < LENGTH('a) div 8")
    case True
    then have lt: "8 * B < LENGTH('a)" using B(3) by auto
    have ge: "\<not> 8 * B \<le> 8 * B - Suc 0" using B(1) by simp
    then have "SignExtend B (take_bit (8 * B) ?w) = Some (signed_take_bit (8 * B - 1) ?w)"
      using SignExtend_eq [of B "take_bit (8 * B) ?w"] B(1) True narrow ge
      by (simp add: signed_take_bit_take_bit)
    moreover have "sint (signed_take_bit (8 * B - 1) ?w) = signed_take_bit (8 * B - 1) v"
    proof -
      have "sint (signed_take_bit (8 * B - 1) ?w) =
          signed_take_bit (LENGTH('a) - 1) (signed_take_bit (8 * B - 1) v)"
        using lt by (intro bit_eqI) (auto simp: bit_simps min_def)
      also have "\<dots> = signed_take_bit (8 * B - 1) v"
        using lt by (intro bit_eqI) (auto simp: bit_simps min_def)
      finally show ?thesis .
    qed
    ultimately show ?thesis using True
      by (simp add: ReadBigEndianSigned_def WriteBigEndianSigned_def ReinterpretAsUnsigned_def
          read ReinterpretAsSigned_sint)
  next
    case False
    then have eq: "8 * B = LENGTH('a)" using B(2,3) by auto
    then have "sint ?w = signed_take_bit (8 * B - 1) v" by (simp add: sint_sbintrunc')
    with eq False show ?thesis
      by (simp add: ReadBigEndianSigned_def WriteBigEndianSigned_def ReinterpretAsUnsigned_def
          read ReinterpretAsSigned_sint take_bit_ge_length)
  qed
qed

lemma ReadBigEndianSigned_WriteBigEndianSigned:
  fixes v :: int
  assumes "1 \<le> B" "8 * B \<le> LENGTH('a::len)" "8 dvd LENGTH('a)" "8 * B < LENGTH('a) \<longrightarrow> B \<le> 3"
    and v: "- (2 ^ (8 * B - 1)) \<le> v" "v < 2 ^ (8 * B - 1)"
  shows "ReadBigEndianSigned TYPE('a) B (WriteBigEndianSigned TYPE('a) B v @ rest) = Some v"
  using ReadBigEndianSigned_WriteBigEndianSigned_wrap [OF assms(1-4)] v
  by (simp add: signed_take_bit_int_eq_self_iff)

section \<open>Arrays of fixed-size items\<close>

text \<open>
  The packet parsers read arrays of equally sized items with a pointer that advances by the item
  size. The locale is the contract of an item codec; its lemmas are what the parsers rely on.
\<close>

fun read_items :: "(byte list \<Rightarrow> 'a option) \<Rightarrow> nat \<Rightarrow> nat \<Rightarrow> byte list \<Rightarrow> 'a list option" where
  "read_items item_parse stride 0 data = Some []"
| "read_items item_parse stride (Suc n) data = do {
     x \<leftarrow> item_parse data;
     xs \<leftarrow> read_items item_parse stride n (drop stride data);
     Some (x # xs) }"

lemma read_items_all:
  assumes "\<And>data x. item_parse data = Some x \<Longrightarrow> P x" "read_items item_parse stride n data = Some xs"
  shows "list_all P xs \<and> length xs = n"
  using assms(2) by (induction n arbitrary: data xs)
    (auto split: Option.bind_splits dest: assms(1))

locale item_codec =
  fixes enc :: "'a \<Rightarrow> byte list" and dec :: "byte list \<Rightarrow> 'a option"
    and len :: nat and ok :: "'a \<Rightarrow> bool"
  assumes length_enc: "length (enc x) = len"
    and dec_enc: "ok x \<Longrightarrow> dec (enc x @ rest) = Some x"
    and dec_no_fault: "len \<le> length data \<Longrightarrow> \<exists>x. dec data = Some x"
begin

lemma length_enc_all: "length (concat (map enc xs)) = len * length xs"
  by (induction xs) (simp_all add: length_enc)

lemma read_items_enc_all:
  "list_all ok xs \<Longrightarrow> read_items dec len (length xs) (concat (map enc xs) @ rest) = Some xs"
  by (induction xs) (simp_all add: dec_enc length_enc)

lemma read_items_exact:
  "list_all ok xs \<Longrightarrow> read_items dec len (length xs) (concat (map enc xs)) = Some xs"
  using read_items_enc_all [of xs "[]"] by simp

lemma read_items_no_fault:
  "n * len \<le> length data \<Longrightarrow> \<exists>xs. read_items dec len n data = Some xs \<and> length xs = n"
proof (induction n arbitrary: data)
  case (Suc n)
  then obtain x where x: "dec data = Some x"
    using dec_no_fault [of data] by auto
  obtain xs where "read_items dec len n (drop len data) = Some xs" "length xs = n"
    using Suc.IH [of "drop len data"] Suc.prems by (auto simp: le_diff_conv2 add.commute)
  with x show ?case by auto
qed simp

lemma safe_read_items: "n * len \<le> length data \<Longrightarrow> safe (read_items dec len n data)"
  using read_items_no_fault [of n data] by (auto simp: safe_def)

end

interpretation u32: item_codec "WriteBigEndian 4" "ReadBigEndian 4 :: _ \<Rightarrow> uint32 option" 4 "\<lambda>_. True"
  by unfold_locales (simp_all add: wire_simps, simp add: ReadBigEndian_eq)

declare u32.safe_read_items [safe_intros]

section \<open>Properties\<close>

text \<open>
  C37. Round trip of the unsigned accessors: reading \<open>B\<close> bytes back, in either byte order and with
  any bytes behind them, gives the low \<open>8 * B\<close> bits of the written value.
\<close>

theorem ByteIo_roundtrip:
  "ReadBigEndian B (WriteBigEndian B (val :: 'a::len word) @ rest) = Some (take_bit (8 * B) val) \<and>
   ReadLittleEndian B (WriteLittleEndian B val @ rest) = Some (take_bit (8 * B) val)"
  by (simp add: ReadBigEndian_WriteBigEndian ReadLittleEndian_WriteLittleEndian)

text \<open>
  The hand-written one, two, four and eight byte specialisations compute what the generic
  byte loops compute, faults included.
\<close>

theorem ByteIo_specialisations:
  "(ReadBigEndian B data :: 'a::len word option) = InternalReadBigEndian B data \<and>
   (ReadLittleEndian B data :: 'a word option) = InternalReadLittleEndian B data \<and>
   WriteBigEndian B (val :: 'a word) = InternalWriteBigEndian B val \<and>
   WriteLittleEndian B val = InternalWriteLittleEndian B val"
  by (simp add: ReadBigEndian_generic ReadLittleEndian_generic WriteBigEndian_generic
      WriteLittleEndian_generic)

text \<open>
  C38. Signed round trip: a value in the range of a \<open>B\<close> byte signed integer survives being
  written and read, where \<open>B\<close> is the width of the type or at most three.
\<close>

theorem ByteIo_signed_roundtrip:
  assumes "1 \<le> B" "8 * B \<le> LENGTH('a::len)" "8 dvd LENGTH('a)" "8 * B = LENGTH('a) \<or> B \<le> 3"
    and "- (2 ^ (8 * B - 1)) \<le> v" "v < 2 ^ (8 * B - 1)"
  shows "ReadBigEndianSigned TYPE('a) B (WriteBigEndianSigned TYPE('a) B v @ rest) = Some v"
  using assms by (intro ReadBigEndianSigned_WriteBigEndianSigned) auto

theorem ByteIo_signed_roundtrip_witness:
  "ReadBigEndianSigned TYPE(32) 3 (WriteBigEndianSigned TYPE(32) 3 (- 5) @ []) = Some (- 5)"
  by (rule ByteIo_signed_roundtrip) simp_all

text \<open>
  C39. Reading a negative signed value of four to seven bytes into a 64 bit type has no defined
  result: the mask of \<open>SignExtend\<close> is shifted by 32 bits or more in a 32 bit \<open>int\<close>.
\<close>

theorem SignExtend_undefined:
  assumes "B \<in> {4, 5, 6, 7}" "length data = B" "bit (data ! 0) 7"
  shows "ReadBigEndianSigned TYPE(64) B data = None"
proof -
  have "bit (be_word B data :: uint64) (8 * B - 1)"
    using assms by (auto simp: bit_be_word)
  then have "ucast (drop_bit ((B - 1) * 8) (be_word B data :: uint64)) AND 0x80 \<noteq> (0 :: byte)"
    using assms(1) bit_iff_and_push_bit_not_eq_0 [of "ucast (drop_bit ((B - 1) * 8) (be_word B data :: uint64)) :: byte" 7]
    by (auto simp: bit_simps)
  then show ?thesis
    using assms by (auto simp: ReadBigEndianSigned_def ReadBigEndian_eq SignExtend_def)
qed

theorem SignExtend_undefined_witness:
  "ReadBigEndianSigned TYPE(64) 5 [0xff, 0, 0, 0, 1] = None"
  by (rule SignExtend_undefined) (simp_all add: bit_numeral_rec)

end
