(* ===== verification/RtcpBase.thy ===== *)
theory RtcpBase
  imports ByteIo
begin

text \<open>
  The frame every RTCP packet shares: \<open>rtcp_packet.cc\<close> (building into a caller's buffer with
  fragmentation through a callback), \<open>rtcp_packet/common_header.cc\<close> (parsing the four byte
  header) and \<open>rtcp_packet/compound_packet.cc\<close>. Locales state the contract between a packet
  class and this frame: \<open>rtcp_packet\<close> (what \<open>Create\<close> writes), \<open>rtcp_format\<close> (that \<open>Parse\<close>
  inverts the wire format and never reads outside the payload) and \<open>rtcp_codec\<close> (both).
\<close>

section \<open>Common header\<close>

datatype rtcp_error =
    TooLittleData | InvalidVersion | BufferTooSmall | PaddingWithoutPayload | ZeroPadding
  | TooManyPaddingBytes | PayloadTooSmall | InvalidPayloadSize | InvalidReasonLength
  | NotEnoughSpaceForChunk | UnexpectedEndOfPacket | ExtraCname | FractionalPadding
  | TooManyRpsiPadding | NoRembIdentifier | SsrcCountMismatch | BitrateOverflow
  | ReportBlockTooBig | EmptyFeedback | ChunkOverflow | DeltaOverflow | InvalidDeltaSize

record common_header =
  ch_packet_type :: byte
  ch_count_or_format :: byte
  ch_padding_size :: byte
  ch_payload_size :: nat
  ch_payload_ptr :: "byte list"

text \<open>
  \<open>ch_payload_ptr\<close> is the rest of the receive buffer behind the header. The packet parsers see
  only the \<open>payload_size_bytes()\<close> bytes they are entitled to, so that a read past them faults
  even where the receive buffer goes on.
\<close>

definition payload :: "common_header \<Rightarrow> byte list" where
  "payload h = take (ch_payload_size h) (ch_payload_ptr h)"

definition NextPacket :: "common_header \<Rightarrow> byte list" where
  "NextPacket h = drop (ch_payload_size h + unat (ch_padding_size h)) (ch_payload_ptr h)"

definition CommonHeader_Parse :: "byte list \<Rightarrow> (rtcp_error + common_header) option" where
  "CommonHeader_Parse buffer =
     (if length buffer < 4 then Some (Inl TooLittleData)
      else do {
        b0 \<leftarrow> byte_at buffer 0;
        (if drop_bit 6 b0 \<noteq> 2 then Some (Inl InvalidVersion)
         else do {
           b1 \<leftarrow> byte_at buffer 1;
           words \<leftarrow> (ReadBigEndian 2 (drop 2 buffer) :: uint16 option);
           let has_padding = (b0 AND 0x20 \<noteq> 0);
           let h = \<lparr>ch_packet_type = b1, ch_count_or_format = b0 AND 0x1F, ch_padding_size = 0,
                    ch_payload_size = unat words * 4, ch_payload_ptr = drop 4 buffer\<rparr>;
           if length buffer < 4 + ch_payload_size h then Some (Inl BufferTooSmall)
           else if has_padding then
             (if ch_payload_size h = 0 then Some (Inl PaddingWithoutPayload)
              else do {
                pad \<leftarrow> byte_at (ch_payload_ptr h) (ch_payload_size h - 1);
                if pad = 0 then Some (Inl ZeroPadding)
                else if unat pad > ch_payload_size h then Some (Inl TooManyPaddingBytes)
                else Some (Inr (h\<lparr>ch_padding_size := pad,
                                  ch_payload_size := ch_payload_size h - unat pad\<rparr>)) })
           else Some (Inr h) }) })"

section \<open>The output buffer\<close>

text \<open>
  The state a \<open>Create\<close> call works on: the caller's buffer, the write position \<open>*index\<close>,
  whether a callback was given, and the packets handed to \<open>OnPacketReady\<close> so far. The
  callback reads the first \<open>*index\<close> bytes and does not keep the buffer.
\<close>

record out =
  buffer :: "byte list"
  index :: nat
  callback :: bool
  ready :: "byte list list"

definition put :: "nat \<Rightarrow> byte list \<Rightarrow> out \<Rightarrow> out option" where
  "put off bs s =
     (if index s + off + length bs \<le> length (buffer s)
      then Some (s\<lparr>buffer := splice_at (index s + off) bs (buffer s)\<rparr>) else None)"

definition advance :: "nat \<Rightarrow> out \<Rightarrow> out option" where
  "advance n s = Some (s\<lparr>index := index s + n\<rparr>)"

definition OnBufferFull :: "out \<Rightarrow> (bool \<times> out) option" where
  "OnBufferFull s =
     (if index s = 0 then Some (False, s)
      else if \<not> callback s then None
      else Some (True, s\<lparr>ready := ready s @ [take (index s) (buffer s)], index := 0\<rparr>))"

text \<open>
  The loop at the head of every \<open>Create\<close>:
  \<open>while (*index + BlockLength() > max_length) { if (!OnBufferFull(...)) return false; }\<close>
\<close>

function make_room :: "nat \<Rightarrow> nat \<Rightarrow> out \<Rightarrow> (bool \<times> out) option" where
  "make_room block_length max_length s =
     (if index s + block_length > max_length then
        (case OnBufferFull s of
           None \<Rightarrow> None
         | Some (ok, s') \<Rightarrow> if ok then make_room block_length max_length s' else Some (False, s'))
      else Some (True, s))"
  by pat_completeness auto
termination
  by (relation "measure (\<lambda>(_, _, s). index s)") (auto simp: OnBufferFull_def split: if_splits)

declare make_room.simps [simp del]

definition with_room :: "nat \<Rightarrow> nat \<Rightarrow> (out \<Rightarrow> out option) \<Rightarrow> out \<Rightarrow> (bool \<times> out) option" where
  "with_room block_length max_length body s =
     (case make_room block_length max_length s of
        None \<Rightarrow> None
      | Some (ok, s') \<Rightarrow> if ok then map_option (Pair True) (body s') else Some (False, s'))"

abbreviation (input) kHeaderLength :: nat where
  "kHeaderLength \<equiv> 4"

definition HeaderLength :: "nat \<Rightarrow> nat" where
  "HeaderLength length_in_bytes = size_sub length_in_bytes kHeaderLength div 4"

definition CreateHeader :: "byte \<Rightarrow> byte \<Rightarrow> nat \<Rightarrow> out \<Rightarrow> out option" where
  "CreateHeader fmt ptype len s = do {
     s \<leftarrow> put 0 [push_bit 6 2 OR push_bit 5 0 OR fmt] s;
     s \<leftarrow> put 1 [ptype] s;
     s \<leftarrow> put 2 [of_nat (drop_bit 8 len AND 0xff)] s;
     s \<leftarrow> put 3 [of_nat (len AND 0xff)] s;
     advance kHeaderLength s }"

text \<open>\<open>RTC_CHECK_EQ(*index, index_end)\<close> aborts when the prediction was wrong.\<close>

definition check_index :: "nat \<Rightarrow> out \<Rightarrow> out option" where
  "check_index index_end s = (if index s = index_end then Some s else None)"

definition BuildExternalBuffer ::
  "(nat \<Rightarrow> out \<Rightarrow> (bool \<times> out) option) \<Rightarrow> byte list \<Rightarrow> nat \<Rightarrow> bool \<Rightarrow> (bool \<times> out) option" where
  "BuildExternalBuffer Create mem max_length cb = do {
     (ok, s) \<leftarrow> Create max_length \<lparr>buffer = mem, index = 0, callback = cb, ready = []\<rparr>;
     if \<not> ok then Some (False, s) else OnBufferFull s }"

text \<open>
  \<open>ParseSinglePacket\<close> (\<open>test/rtcp_packet_parser.h\<close>) aborts unless the buffer holds exactly one
  packet with a valid header.
\<close>

definition ParseSinglePacket ::
  "(common_header \<Rightarrow> (rtcp_error + 'p) option) \<Rightarrow> byte list \<Rightarrow> (rtcp_error + 'p) option" where
  "ParseSinglePacket Parse buf =
     (case CommonHeader_Parse buf of
        Some (Inr header) \<Rightarrow> if NextPacket header = [] then Parse header else None
      | _ \<Rightarrow> None)"

text \<open>
  \<open>Build\<close> allocates \<open>BlockLength()\<close> bytes (\<open>mem\<close>, of unspecified contents), creates without a
  callback and returns the buffer; it insists that \<open>Create\<close> succeeded and filled the buffer.
\<close>

definition Build :: "(nat \<Rightarrow> out \<Rightarrow> (bool \<times> out) option) \<Rightarrow> byte list \<Rightarrow> byte list option" where
  "Build Create mem = do {
     (created, s) \<leftarrow> Create (length mem) \<lparr>buffer = mem, index = 0, callback = False, ready = []\<rparr>;
     if created \<and> index s = length mem then Some (buffer s) else None }"

section \<open>Compound packets\<close>

text \<open>An appended packet is known by its two virtual functions.\<close>

record rtcp_object =
  obj_BlockLength :: nat
  obj_Create :: "nat \<Rightarrow> out \<Rightarrow> (bool \<times> out) option"

fun CompoundPacket_Create ::
  "rtcp_object list \<Rightarrow> nat \<Rightarrow> out \<Rightarrow> (bool \<times> out) option" where
  "CompoundPacket_Create [] max_length s = Some (True, s)"
| "CompoundPacket_Create (appended # rest) max_length s =
     (case obj_Create appended max_length s of
        None \<Rightarrow> None
      | Some (ok, s') \<Rightarrow>
          if ok then CompoundPacket_Create rest max_length s' else Some (False, s'))"

definition CompoundPacket_Append :: "rtcp_object list \<Rightarrow> rtcp_object \<Rightarrow> rtcp_object list" where
  "CompoundPacket_Append appended_packets packet = appended_packets @ [packet]"

definition CompoundPacket_BlockLength :: "rtcp_object list \<Rightarrow> nat" where
  "CompoundPacket_BlockLength appended_packets =
     foldl (\<lambda>block_length p. block_length + obj_BlockLength p) 0 appended_packets"

section \<open>Writing is appending\<close>

text \<open>
  \<open>emit bs\<close> is the meaning of a run of writes at consecutive offsets followed by the matching
  advance of \<open>*index\<close>. The rules \<open>out_simps\<close> turn the statements of a \<open>Create\<close> into it.
\<close>

definition emit :: "byte list \<Rightarrow> out \<Rightarrow> out option" where
  "emit bs s = Option.bind (put 0 bs s) (advance (length bs))"

lemma put_put:
  assumes "k = length a"
  shows "Option.bind (put 0 a s) (put k b) = put 0 (a @ b) s"
  using assms by (auto simp: put_def splice_at_adjacent)

lemma put_put_bind [out_simps]:
  assumes "k = length a"
  shows "Option.bind (put 0 a s) (\<lambda>s. Option.bind (put k b s) f) = Option.bind (put 0 (a @ b) s) f"
proof -
  have "Option.bind (put 0 a s) (\<lambda>s. Option.bind (put k b s) f) =
      Option.bind (Option.bind (put 0 a s) (put k b)) f"
    by (simp add: Option.bind_assoc)
  then show ?thesis using assms by (simp add: put_put)
qed

lemma put_advance [out_simps]:
  "n = length bs \<Longrightarrow> Option.bind (put 0 bs s) (advance n) = emit bs s"
  by (simp add: emit_def)

lemma put_advance_bind [out_simps]:
  "n = length bs \<Longrightarrow>
   Option.bind (put 0 bs s) (\<lambda>s. Option.bind (advance n s) f) = Option.bind (emit bs s) f"
  by (simp add: emit_def Option.bind_assoc)

lemma emit_eq:
  "emit bs s =
     (if index s + length bs \<le> length (buffer s)
      then Some (s\<lparr>buffer := splice_at (index s) bs (buffer s), index := index s + length bs\<rparr>)
      else None)"
  by (simp add: emit_def put_def advance_def)

lemma emit_emit: "Option.bind (emit a s) (emit b) = emit (a @ b) s"
proof (cases "index s + length a + length b \<le> length (buffer s)")
  case True
  then show ?thesis
    by (simp add: emit_eq splice_at_adjacent add.assoc)
next
  case False
  then show ?thesis by (simp add: emit_eq)
qed

lemma emit_emit_bind [out_simps]:
  "Option.bind (emit a s) (\<lambda>s. Option.bind (emit b s) f) = Option.bind (emit (a @ b) s) f"
  by (simp flip: emit_emit add: Option.bind_assoc)

lemma emit_emit_eta [out_simps]:
  "Option.bind (emit a s) (\<lambda>s. emit b s) = emit (a @ b) s"
  by (rule emit_emit)

lemma emit_Nil [out_simps]: "index s \<le> length (buffer s) \<Longrightarrow> emit [] s = Some s"
  by (simp add: emit_eq)

lemma for_each_emit:
  assumes "\<And>x s. x \<in> set xs \<Longrightarrow> f x s = emit (g x) s" and "index s \<le> length (buffer s)"
  shows "for_each f xs s = emit (concat (map g xs)) s"
  using assms
proof (induction xs arbitrary: s)
  case Nil
  then show ?case by (simp add: emit_Nil)
next
  case (Cons x xs)
  have "for_each f (x # xs) s = Option.bind (emit (g x) s) (for_each f xs)"
    by (simp add: Cons.prems)
  also have "\<dots> = Option.bind (emit (g x) s) (emit (concat (map g xs)))"
    using Cons.IH Cons.prems by (cases "emit (g x) s") (auto simp: emit_eq split: if_splits)
  finally show ?case by (simp add: emit_emit)
qed

lemma emit_for_each [out_simps]:
  assumes "\<And>x s. x \<in> set xs \<Longrightarrow> f x s = emit (g x) s"
  shows "Option.bind (emit a s) (for_each f xs) = emit (a @ concat (map g xs)) s"
proof -
  have "Option.bind (emit a s) (for_each f xs) = Option.bind (emit a s) (emit (concat (map g xs)))"
    using for_each_emit [of xs f g] assms
    by (cases "emit a s") (auto simp: emit_eq split: if_splits)
  then show ?thesis by (simp add: emit_emit)
qed

lemma emit_for_each_bind [out_simps]:
  assumes "\<And>x s. x \<in> set xs \<Longrightarrow> f x s = emit (g x) s"
  shows "Option.bind (emit a s) (\<lambda>s. Option.bind (for_each f xs s) k) =
     Option.bind (emit (a @ concat (map g xs)) s) k"
  using emit_for_each [of xs f g a s] assms by (simp flip: Option.bind_assoc)

lemma emit_check_index [out_simps]:
  "k = index s + length bs \<Longrightarrow> Option.bind (emit bs s) (check_index k) = emit bs s"
  by (simp add: emit_eq check_index_def)

lemma emit_bind_cong:
  assumes "\<And>s'. index s' = index s + length a \<Longrightarrow> length (buffer s') = length (buffer s) \<Longrightarrow>
      index s' \<le> length (buffer s') \<Longrightarrow> f s' = g s'"
  shows "Option.bind (emit a s) f = Option.bind (emit a s) g"
  using assms by (simp add: emit_eq)

text \<open>A local write pointer that moves by \<open>stride\<close> while \<open>*index\<close> stays.\<close>

fun write_items ::
  "('a \<Rightarrow> nat \<Rightarrow> out \<Rightarrow> out option) \<Rightarrow> nat \<Rightarrow> nat \<Rightarrow> 'a list \<Rightarrow> out \<Rightarrow> out option" where
  "write_items item stride at [] s = Some s"
| "write_items item stride at (x # xs) s = do {
     s \<leftarrow> item x at s;
     write_items item stride (at + stride) xs s }"

lemma put_put_at: "k' = k + length a \<Longrightarrow> Option.bind (put k a s) (put k' b) = put k (a @ b) s"
  by (auto simp: put_def splice_at_adjacent add.assoc [symmetric])

lemma put_put_at_bind:
  "k' = k + length a \<Longrightarrow>
   Option.bind (put k a s) (\<lambda>s. Option.bind (put k' b s) f) = Option.bind (put k (a @ b) s) f"
  by (simp add: put_put_at flip: Option.bind_assoc)

lemma put_write_items:
  assumes "\<And>x at s. x \<in> set xs \<Longrightarrow> item x at s = put at (g x) s" "\<And>x. x \<in> set xs \<Longrightarrow> length (g x) = stride"
  shows "k = length a \<Longrightarrow>
    Option.bind (put 0 a s) (write_items item stride k xs) = put 0 (a @ concat (map g xs)) s"
  using assms
proof (induction xs arbitrary: a k)
  case Nil
  then show ?case by (cases "put 0 a s") simp_all
next
  case (Cons x xs)
  have "write_items item stride k (x # xs) =
      (\<lambda>s. Option.bind (put k (g x) s) (write_items item stride (k + stride) xs))"
    using Cons.prems by (simp add: fun_eq_iff)
  then have "Option.bind (put 0 a s) (write_items item stride k (x # xs)) =
      Option.bind (put 0 (a @ g x) s) (write_items item stride (k + stride) xs)"
    using Cons.prems by (simp add: put_put_bind)
  also have "\<dots> = put 0 ((a @ g x) @ concat (map g xs)) s"
    using Cons.prems by (intro Cons.IH) simp_all
  finally show ?case by (simp del: write_items.simps)
qed

lemma put_write_items_bind:
  assumes "\<And>x at s. item x at s = put at (g x) s" "\<And>x. length (g x) = stride" "k = length a"
  shows "Option.bind (put 0 a s) (\<lambda>s. Option.bind (write_items item stride k xs s) f) =
     Option.bind (put 0 (a @ concat (map g xs)) s) f"
  using put_write_items [of xs item g stride k a s] assms by (simp flip: Option.bind_assoc)

section \<open>Header bytes\<close>

definition header_bytes :: "byte \<Rightarrow> byte \<Rightarrow> nat \<Rightarrow> byte list" where
  "header_bytes fmt ptype len = [0x80 OR fmt, ptype] @ WriteBigEndian 2 (of_nat len :: uint16)"

lemma length_header_bytes [simp]: "length (header_bytes fmt ptype len) = 4"
  by (simp add: header_bytes_def)

lemma and_255_nat: "(n :: nat) AND 255 = take_bit 8 n"
  by (simp add: take_bit_eq_mask mask_eq_exp_minus_1)

lemma length_field_bytes:
  "WriteBigEndian 2 (of_nat len :: uint16) =
     [of_nat (drop_bit 8 len AND 0xff), of_nat (len AND 0xff)]"
  unfolding WriteBigEndian_def WriteBigEndian2_def and_255_nat
  by (auto intro!: bit_word_eqI simp: bit_simps)

lemma CreateHeader_emit [out_simps]: "CreateHeader fmt ptype len s = emit (header_bytes fmt ptype len) s"
  unfolding CreateHeader_def header_bytes_def length_field_bytes
  by (simp add: out_simps)

lemma small_format_bits:
  fixes fmt :: byte
  assumes "fmt < 32"
  shows "drop_bit 6 fmt = 0" "fmt AND 0x20 = 0" "fmt AND 0x1F = fmt"
proof -
  have "unat fmt < 32" using assms by (simp add: word_less_nat_alt)
  then have t: "take_bit 5 fmt = fmt"
    by (simp add: word_unat_eq_iff unsigned_take_bit_eq take_bit_nat_eq_self_iff)
  then show m: "fmt AND 0x1F = fmt"
    by (simp add: take_bit_eq_mask mask_eq_exp_minus_1)
  have "drop_bit 6 fmt = drop_bit 6 (take_bit 5 fmt)" by (simp add: t)
  then show "drop_bit 6 fmt = 0" by (simp add: drop_bit_take_bit)
  have "fmt AND 32 = (fmt AND 31) AND 32" by (simp add: m)
  then show "fmt AND 0x20 = 0" by (simp add: and.assoc)
qed

lemma CommonHeader_Parse_header_bytes:
  assumes "fmt < 32" "len < 65536" "length body = 4 * len"
  shows "CommonHeader_Parse (header_bytes fmt ptype len @ body @ rest) =
     Some (Inr \<lparr>ch_packet_type = ptype, ch_count_or_format = fmt, ch_padding_size = 0,
                ch_payload_size = 4 * len, ch_payload_ptr = body @ rest\<rparr>)"
  using assms
  by (simp add: CommonHeader_Parse_def header_bytes_def small_format_bits wire_simps
      bit.conj_disj_distrib2 unat_of_nat_small)

section \<open>What the header parser promises\<close>

definition valid_header :: "common_header \<Rightarrow> bool" where
  "valid_header h \<longleftrightarrow> ch_payload_size h \<le> length (ch_payload_ptr h)"

lemma length_payload [simp]: "valid_header h \<Longrightarrow> length (payload h) = ch_payload_size h"
  by (simp add: valid_header_def payload_def)

lemma CommonHeader_Parse_no_fault: "CommonHeader_Parse buf \<noteq> None"
  by (auto simp: CommonHeader_Parse_def byte_at_def ReadBigEndian_eq Let_def)

lemma CommonHeader_Parse_valid:
  assumes "CommonHeader_Parse buf = Some (Inr h)"
  shows "valid_header h"
    and "payload h = take (ch_payload_size h) (drop 4 buf)"
    and "NextPacket h = drop (4 + ch_payload_size h + unat (ch_padding_size h)) buf"
    and "4 + ch_payload_size h + unat (ch_padding_size h) \<le> length buf"
    and "(ch_payload_size h + unat (ch_padding_size h)) mod 4 = 0"
    and "ch_count_or_format h < 32"
proof -
  have lt: "b AND 31 < 32" for b :: byte
  proof -
    have "b AND 31 \<le> 31" by (rule word_and_le1)
    then show ?thesis by (rule le_less_trans) simp
  qed
  from assms show "valid_header h" "payload h = take (ch_payload_size h) (drop 4 buf)"
    "NextPacket h = drop (4 + ch_payload_size h + unat (ch_padding_size h)) buf"
    "4 + ch_payload_size h + unat (ch_padding_size h) \<le> length buf"
    "(ch_payload_size h + unat (ch_padding_size h)) mod 4 = 0"
    "ch_count_or_format h < 32"
    by (auto simp: CommonHeader_Parse_def byte_at_def ReadBigEndian_eq Let_def valid_header_def
        payload_def NextPacket_def lt add.commute split: if_splits)
qed

lemma CommonHeader_Parse_payload_bound:
  assumes "CommonHeader_Parse buf = Some (Inr h)"
  shows "ch_payload_size h \<le> 262140"
proof -
  let ?w = "be_word 2 (drop 2 buf) :: uint16"
  have "unat ?w < 65536" by (rule unat_lt_65536)
  moreover have "ch_payload_size h \<le> unat ?w * 4"
    using assms by (auto simp: CommonHeader_Parse_def byte_at_def ReadBigEndian_eq Let_def split: if_splits)
  ultimately show ?thesis by linarith
qed

section \<open>The room loop\<close>

definition flushed :: "out \<Rightarrow> out" where
  "flushed s = s\<lparr>ready := ready s @ [take (index s) (buffer s)], index := 0\<rparr>"

lemma make_room_eq:
  "make_room len maxlen s =
     (if index s + len \<le> maxlen then Some (True, s)
      else if index s = 0 then Some (False, s)
      else if \<not> callback s then None
      else Some (len \<le> maxlen, flushed s))"
  by (subst make_room.simps) (auto simp: OnBufferFull_def flushed_def make_room.simps)

section \<open>Abstract output stream\<close>

text \<open>
  Abstractly an output is the list of finished packets and the bytes of the one under
  construction. \<open>spec_append\<close> says what adding a block must do: append it if it fits, start
  a new packet if it fits into an empty one, and report failure otherwise.
\<close>

type_synonym stream = "byte list list \<times> byte list"

definition out_abs :: "out \<Rightarrow> stream" where
  "out_abs s = (ready s, take (index s) (buffer s))"

definition out_ok :: "nat \<Rightarrow> out \<Rightarrow> bool" where
  "out_ok maxlen s \<longleftrightarrow> index s \<le> maxlen \<and> maxlen \<le> length (buffer s) \<and> 4 dvd index s"

fun spec_append :: "byte list \<Rightarrow> nat \<Rightarrow> bool \<Rightarrow> stream \<Rightarrow> (bool \<times> stream) option" where
  "spec_append bs maxlen cb (pkts, cur) =
     (if length cur + length bs \<le> maxlen then Some (True, pkts, cur @ bs)
      else if cur = [] then Some (False, pkts, cur)
      else if \<not> cb then None
      else if length bs \<le> maxlen then Some (True, pkts @ [cur], bs)
      else Some (False, pkts @ [cur], []))"

lemma length_cur: "out_ok maxlen s \<Longrightarrow> length (take (index s) (buffer s)) = index s"
  by (simp add: out_ok_def)

lemma out_ok_flushed: "out_ok maxlen s \<Longrightarrow> out_ok maxlen (flushed s)"
  by (simp add: out_ok_def flushed_def)

lemma emit_in_room:
  assumes "index s + length bs \<le> maxlen" "out_ok maxlen s" "4 dvd length bs"
  shows "\<exists>s'. emit bs s = Some s' \<and> out_ok maxlen s' \<and> callback s' = callback s \<and>
     length (buffer s') = length (buffer s) \<and> out_abs s' = (ready s, take (index s) (buffer s) @ bs)"
  using assms by (auto simp: emit_eq out_ok_def out_abs_def take_splice_at)

lemma with_room_emit:
  assumes "out_ok maxlen s" and al: "4 dvd length bs"
  shows "map_option (map_prod id out_abs) (with_room (length bs) maxlen (emit bs) s) =
           spec_append bs maxlen (callback s) (out_abs s)" (is ?refines)
    and "with_room (length bs) maxlen (emit bs) s = Some (ok, s') \<Longrightarrow>
           out_ok maxlen s' \<and> callback s' = callback s \<and> length (buffer s') = length (buffer s)"
proof -
  consider (fits) "index s + length bs \<le> maxlen"
    | (empty) "\<not> index s + length bs \<le> maxlen" "index s = 0"
    | (null) "\<not> index s + length bs \<le> maxlen" "index s \<noteq> 0" "\<not> callback s"
    | (flush) "\<not> index s + length bs \<le> maxlen" "index s \<noteq> 0" "callback s"
    by blast
  then have "?refines \<and> (with_room (length bs) maxlen (emit bs) s = Some (ok, s') \<longrightarrow>
      out_ok maxlen s' \<and> callback s' = callback s \<and> length (buffer s') = length (buffer s))"
  proof cases
    case fits
    then show ?thesis
      using emit_in_room [OF fits assms] length_cur [OF assms(1)]
      by (auto simp: with_room_def make_room_eq out_abs_def)
  next
    case empty
    then show ?thesis
      using assms by (auto simp: with_room_def make_room_eq out_abs_def)
  next
    case null
    then show ?thesis
      using length_cur [OF assms(1)] assms
      by (auto simp: with_room_def make_room_eq out_abs_def out_ok_def)
  next
    case flush
    have fl: "index (flushed s) = 0" "ready (flushed s) = ready s @ [take (index s) (buffer s)]"
      "callback (flushed s) = callback s" "buffer (flushed s) = buffer s"
      by (simp_all add: flushed_def)
    have ne: "take (index s) (buffer s) \<noteq> []"
      using flush assms by (auto simp: out_ok_def)
    show ?thesis
    proof (cases "length bs \<le> maxlen")
      case True
      then show ?thesis
        using emit_in_room [of "flushed s" bs maxlen] out_ok_flushed [OF assms(1)]
          flush fl ne length_cur [OF assms(1)] al
        by (auto simp: with_room_def make_room_eq out_abs_def)
    next
      case False
      then show ?thesis
        using flush fl ne length_cur [OF assms(1)] out_ok_flushed [OF assms(1)]
        by (auto simp: with_room_def make_room_eq out_abs_def)
    qed
  qed
  then show ?refines and "with_room (length bs) maxlen (emit bs) s = Some (ok, s') \<Longrightarrow>
      out_ok maxlen s' \<and> callback s' = callback s \<and> length (buffer s') = length (buffer s)"
    by blast+
qed

lemma with_room_cong:
  assumes "\<And>s'. index s' + len \<le> maxlen \<Longrightarrow> length (buffer s') = length (buffer s) \<Longrightarrow>
      body s' = body' s'"
  shows "with_room len maxlen body s = with_room len maxlen body' s"
  using assms by (auto simp: with_room_def make_room_eq flushed_def)

lemma with_room_cong_ok:
  assumes "\<And>s'. index s' + len \<le> maxlen \<Longrightarrow> out_ok maxlen s' \<Longrightarrow> body s' = body' s'" "out_ok maxlen s"
  shows "with_room len maxlen body s = with_room len maxlen body' s"
  using assms by (auto simp: with_room_def make_room_eq flushed_def out_ok_def)

section \<open>The contract of a packet class\<close>

text \<open>
  A packet class provides \<open>BlockLength\<close> and \<open>Create\<close>; \<open>wire\<close> is its wire format and \<open>wf\<close>
  the class invariant its setters keep.
\<close>

locale rtcp_wire =
  fixes wf :: "'p \<Rightarrow> bool" and BlockLength :: "'p \<Rightarrow> nat" and wire :: "'p \<Rightarrow> byte list"
  assumes length_wire: "wf p \<Longrightarrow> length (wire p) = BlockLength p"
    and aligned: "wf p \<Longrightarrow> 4 dvd BlockLength p"
    and positive: "wf p \<Longrightarrow> 4 \<le> BlockLength p"

locale rtcp_packet = rtcp_wire wf BlockLength wire
  for wf :: "'p \<Rightarrow> bool" and BlockLength :: "'p \<Rightarrow> nat" and wire :: "'p \<Rightarrow> byte list" +
  fixes Create :: "'p \<Rightarrow> nat \<Rightarrow> out \<Rightarrow> (bool \<times> out) option"
  assumes Create_wire: "wf p \<Longrightarrow> out_ok maxlen s \<Longrightarrow>
      Create p maxlen s = with_room (BlockLength p) maxlen (emit (wire p)) s"
begin

lemma Create_refines:
  assumes "wf p" "out_ok maxlen s"
  shows "map_option (map_prod id out_abs) (Create p maxlen s) =
     spec_append (wire p) maxlen (callback s) (out_abs s)"
  using with_room_emit(1) [OF assms(2), of "wire p"] assms
  by (simp add: Create_wire length_wire aligned)

lemma Create_keeps:
  assumes "wf p" "out_ok maxlen s" "Create p maxlen s = Some (ok, s')"
  shows "out_ok maxlen s' \<and> callback s' = callback s \<and> length (buffer s') = length (buffer s)"
  using with_room_emit(2) [OF assms(2), of "wire p" ok s'] assms
  by (simp add: Create_wire length_wire aligned)

lemma Create_no_fault:
  assumes "wf p" "out_ok maxlen s" "callback s \<or> BlockLength p + index s \<le> maxlen"
  shows "Create p maxlen s \<noteq> None"
proof
  assume "Create p maxlen s = None"
  then have "spec_append (wire p) maxlen (callback s) (out_abs s) = None"
    using Create_refines [OF assms(1,2)] by simp
  then show False
    using assms length_cur [OF assms(2)] length_wire [OF assms(1)]
    by (auto simp: out_abs_def split: if_splits)
qed

lemma Build_wire:
  assumes "wf p" "length mem = BlockLength p"
  shows "Build (Create p) mem = Some (wire p)"
  using assms length_wire [OF assms(1)]
  by (simp add: Build_def Create_wire out_ok_def with_room_def make_room_eq emit_eq splice_at_def)

lemma BuildExternalBuffer_fits:
  assumes "wf p" "BlockLength p \<le> maxlen" "maxlen \<le> length mem"
  shows "\<exists>s. BuildExternalBuffer (Create p) mem maxlen True = Some (True, s) \<and> ready s = [wire p]"
  using assms length_wire [OF assms(1)] positive [OF assms(1)]
  by (simp add: BuildExternalBuffer_def Create_wire out_ok_def with_room_def make_room_eq emit_eq
      OnBufferFull_def splice_at_def)

lemma BuildExternalBuffer_too_big:
  assumes "wf p" "maxlen < BlockLength p" "maxlen \<le> length mem"
  shows "\<exists>s. BuildExternalBuffer (Create p) mem maxlen cb = Some (False, s) \<and> ready s = [] \<and> buffer s = mem"
  using assms by (simp add: BuildExternalBuffer_def Create_wire out_ok_def with_room_def make_room_eq)

end

text \<open>
  A class with a parser: \<open>body\<close> is the part of the wire format behind the header, \<open>fmt\<close> the
  five bit count or format, and \<open>canon p\<close> what is left of \<open>p\<close> after a trip over the wire (\<open>p\<close>
  itself for the lossless formats).
\<close>

locale rtcp_format = rtcp_wire wf BlockLength wire
  for wf :: "'p \<Rightarrow> bool" and BlockLength :: "'p \<Rightarrow> nat" and wire :: "'p \<Rightarrow> byte list" +
  fixes Parse :: "common_header \<Rightarrow> (rtcp_error + 'p) option"
    and ptype :: byte and fmt :: "'p \<Rightarrow> byte" and body :: "'p \<Rightarrow> byte list" and canon :: "'p \<Rightarrow> 'p"
  assumes wire_split:
      "wf p \<Longrightarrow> wire p = header_bytes (fmt p) ptype (HeaderLength (BlockLength p)) @ body p"
    and fmt_range: "wf p \<Longrightarrow> fmt p < 32"
    and bounded: "wf p \<Longrightarrow> BlockLength p \<le> 262144"
    and Parse_body: "wf p \<Longrightarrow> ch_packet_type h = ptype \<Longrightarrow> ch_count_or_format h = fmt p \<Longrightarrow>
      ch_payload_size h = length (body p) \<Longrightarrow> payload h = body p \<Longrightarrow> Parse h = Some (Inr (canon p))"
    and Parse_safe: "valid_header h \<Longrightarrow> Parse h \<noteq> None"
begin

lemma parse_wire:
  assumes "wf p"
  obtains h where "CommonHeader_Parse (wire p @ rest) = Some (Inr h)"
    and "ch_packet_type h = ptype" "ch_count_or_format h = fmt p" "NextPacket h = rest"
    and "Parse h = Some (Inr (canon p))"
proof -
  have bl: "4 + length (body p) = BlockLength p"
    using length_wire [OF assms] by (simp add: wire_split [OF assms])
  then obtain k where k: "length (body p) = 4 * k"
    using aligned [OF assms] by (metis dvd_add_right_iff dvd_refl dvd_def)
  have hl: "HeaderLength (BlockLength p) = k"
    using bl k by (simp add: HeaderLength_def flip: bl)
  let ?h = "\<lparr>ch_packet_type = ptype, ch_count_or_format = fmt p, ch_padding_size = 0,
      ch_payload_size = 4 * k, ch_payload_ptr = body p @ rest\<rparr>"
  have "CommonHeader_Parse (wire p @ rest) = Some (Inr ?h)"
    using CommonHeader_Parse_header_bytes [OF fmt_range [OF assms] _ k] bounded [OF assms] bl k
    by (simp add: wire_split [OF assms] hl)
  moreover have "Parse ?h = Some (Inr (canon p))"
    by (rule Parse_body [OF assms]) (simp_all add: k payload_def)
  moreover have "NextPacket ?h = rest" by (simp add: NextPacket_def k)
  ultimately show thesis using that by fastforce
qed

lemma ParseSinglePacket_wire:
  assumes "wf p"
  shows "ParseSinglePacket Parse (wire p) = Some (Inr (canon p))"
  by (rule parse_wire [OF assms, of "[]"]) (simp add: ParseSinglePacket_def)

lemma Parse_received:
  assumes "CommonHeader_Parse buf = Some (Inr h)"
  shows "Parse h \<noteq> None"
  using assms by (intro Parse_safe CommonHeader_Parse_valid(1))

end

text \<open>A class with both contracts; most classes are interpreted as one.\<close>

locale rtcp_codec =
  rtcp_packet wf BlockLength wire Create +
  rtcp_format wf BlockLength wire Parse ptype fmt body canon
  for wf :: "'p \<Rightarrow> bool" and BlockLength :: "'p \<Rightarrow> nat"
    and Create :: "'p \<Rightarrow> nat \<Rightarrow> out \<Rightarrow> (bool \<times> out) option" and wire :: "'p \<Rightarrow> byte list"
    and Parse :: "common_header \<Rightarrow> (rtcp_error + 'p) option"
    and ptype :: byte and fmt :: "'p \<Rightarrow> byte" and body :: "'p \<Rightarrow> byte list" and canon :: "'p \<Rightarrow> 'p"
begin

lemma Build_Parse:
  assumes "wf p" "length mem = BlockLength p"
  shows "Option.bind (Build (Create p) mem) (ParseSinglePacket Parse) = Some (Inr (canon p))"
  by (simp add: Build_wire [OF assms] ParseSinglePacket_wire [OF assms(1)])

end

section \<open>Compound packets\<close>

text \<open>
  \<open>writes obj bs\<close>: the object's \<open>Create\<close> appends the block \<open>bs\<close>. A compound packet of such
  objects packs their blocks greedily.
\<close>

definition writes :: "rtcp_object \<Rightarrow> byte list \<Rightarrow> bool" where
  "writes obj bs \<longleftrightarrow> obj_BlockLength obj = length bs \<and> 4 dvd length bs \<and>
     (\<forall>maxlen s. out_ok maxlen s \<longrightarrow>
        obj_Create obj maxlen s = with_room (length bs) maxlen (emit bs) s)"

fun spec_compound :: "byte list list \<Rightarrow> nat \<Rightarrow> bool \<Rightarrow> stream \<Rightarrow> (bool \<times> stream) option" where
  "spec_compound [] maxlen cb st = Some (True, st)"
| "spec_compound (bs # rest) maxlen cb st =
     (case spec_append bs maxlen cb st of
        None \<Rightarrow> None
      | Some (ok, st') \<Rightarrow> if ok then spec_compound rest maxlen cb st' else Some (False, st'))"

lemma CompoundPacket_BlockLength_sum:
  "CompoundPacket_BlockLength objs = sum_list (map obj_BlockLength objs)"
proof -
  have "foldl (\<lambda>n p. n + obj_BlockLength p) k objs = k + sum_list (map obj_BlockLength objs)" for k
    by (induction objs arbitrary: k) simp_all
  then show ?thesis by (simp add: CompoundPacket_BlockLength_def)
qed

lemma Compound_refines_keeps:
  assumes "list_all2 writes objs wires" "out_ok maxlen s"
  shows "map_option (map_prod id out_abs) (CompoundPacket_Create objs maxlen s) =
      spec_compound wires maxlen (callback s) (out_abs s) \<and>
    (\<forall>ok s'. CompoundPacket_Create objs maxlen s = Some (ok, s') \<longrightarrow>
      out_ok maxlen s' \<and> callback s' = callback s \<and> length (buffer s') = length (buffer s))"
  using assms
proof (induction objs wires arbitrary: s rule: list_all2_induct)
  case Nil
  then show ?case by simp
next
  case (Cons obj objs bs wires)
  have cr: "obj_Create obj maxlen s = with_room (length bs) maxlen (emit bs) s"
    using Cons.hyps(1) Cons.prems by (simp add: writes_def)
  have al: "4 dvd length bs" using Cons.hyps(1) by (simp add: writes_def)
  note refines = with_room_emit(1) [OF Cons.prems al]
  show ?case
  proof (cases "with_room (length bs) maxlen (emit bs) s")
    case None
    then show ?thesis using refines by (simp add: cr)
  next
    case (Some r)
    obtain ok s' where r: "r = (ok, s')" by (cases r)
    from with_room_emit(2) [OF Cons.prems al, of ok s'] Some r
    have keeps: "out_ok maxlen s' \<and> callback s' = callback s \<and> length (buffer s') = length (buffer s)"
      by simp
    have sp: "spec_append bs maxlen (callback s) (out_abs s) = Some (ok, out_abs s')"
      using refines Some r by simp
    show ?thesis
      using Cons.IH [of s'] keeps by (simp add: cr Some r sp)
  qed
qed

lemma spec_append_fits:
  "length cur + length bs \<le> maxlen \<Longrightarrow> spec_append bs maxlen cb (pkts, cur) = Some (True, pkts, cur @ bs)"
  by simp

lemma spec_compound_fits:
  "length cur + length (concat wires) \<le> maxlen \<Longrightarrow>
   spec_compound wires maxlen cb (pkts, cur) = Some (True, pkts, cur @ concat wires)"
  by (induction wires arbitrary: cur) simp_all

text \<open>
  With a callback and blocks that fit one by one, nothing is lost, reordered or split: the packets
  are the concatenations of consecutive groups of blocks.
\<close>

lemma spec_compound_groups:
  assumes "\<forall>w \<in> set wires. length w \<le> maxlen" "length cur \<le> maxlen"
  shows "\<exists>done last g gs. spec_compound wires maxlen True (pkts, cur) = Some (True, pkts @ done, last) \<and>
      done @ [last] = (cur @ concat g) # map concat gs \<and> concat (g # gs) = wires \<and>
      (\<forall>p \<in> set (done @ [last]). length p \<le> maxlen)"
  using assms
proof (induction wires arbitrary: pkts cur)
  case Nil
  have "spec_compound [] maxlen True (pkts, cur) = Some (True, pkts @ [], cur) \<and>
      [] @ [cur] = (cur @ concat []) # map concat [] \<and> concat ([] # []) = [] \<and>
      (\<forall>p \<in> set ([] @ [cur]). length p \<le> maxlen)"
    using Nil.prems by simp
  then show ?case by blast
next
  case (Cons w wires)
  show ?case
  proof (cases "length cur + length w \<le> maxlen")
    case True
    have "\<forall>w \<in> set wires. length w \<le> maxlen" "length (cur @ w) \<le> maxlen"
      using Cons.prems True by simp_all
    from Cons.IH [OF this, of pkts] obtain dn last g gs where
      sc: "spec_compound wires maxlen True (pkts, cur @ w) = Some (True, pkts @ dn, last)"
      and gr: "dn @ [last] = ((cur @ w) @ concat g) # map concat gs" "concat (g # gs) = wires"
      "\<forall>p \<in> set (dn @ [last]). length p \<le> maxlen"
      by blast
    have "spec_compound (w # wires) maxlen True (pkts, cur) = Some (True, pkts @ dn, last)"
      using sc True by simp
    moreover have "dn @ [last] = (cur @ concat (w # g)) # map concat gs"
      "concat ((w # g) # gs) = w # wires"
      using gr by simp_all
    ultimately show ?thesis using gr(3) by blast
  next
    case False
    then have ne: "cur \<noteq> []" "length w \<le> maxlen" using Cons.prems by auto
    have "\<forall>w \<in> set wires. length w \<le> maxlen" using Cons.prems by simp
    from Cons.IH [OF this ne(2), of "pkts @ [cur]"] obtain dn last g gs where
      sc: "spec_compound wires maxlen True (pkts @ [cur], w) = Some (True, (pkts @ [cur]) @ dn, last)"
      and gr: "dn @ [last] = (w @ concat g) # map concat gs" "concat (g # gs) = wires"
      "\<forall>p \<in> set (dn @ [last]). length p \<le> maxlen"
      by blast
    have "spec_compound (w # wires) maxlen True (pkts, cur) = Some (True, pkts @ (cur # dn), last)"
      using sc False ne by simp
    moreover have "(cur # dn) @ [last] = (cur @ concat []) # map concat ((w # g) # gs)"
      "concat ([] # (w # g) # gs) = w # wires"
      "\<forall>p \<in> set ((cur # dn) @ [last]). length p \<le> maxlen"
      using gr Cons.prems by auto
    ultimately show ?thesis by blast
  qed
qed

section \<open>Properties of the frame\<close>

context rtcp_packet
begin

text \<open>Every packet of the class can be appended to a compound packet.\<close>

lemma writes_wire:
  "wf p \<Longrightarrow> writes \<lparr>obj_BlockLength = BlockLength p, obj_Create = Create p\<rparr> (wire p)"
  by (simp add: writes_def length_wire aligned Create_wire)

end

lemma spec_compound_nonempty:
  assumes "spec_compound wires maxlen cb st = Some (True, pkts, cur)"
    and "\<forall>w \<in> set wires. w \<noteq> []" "wires \<noteq> [] \<or> snd st \<noteq> []"
  shows "cur \<noteq> []"
  using assms
proof (induction wires arbitrary: st)
  case (Cons w wires)
  obtain st' where "spec_append w maxlen cb st = Some (True, st')"
    "spec_compound wires maxlen cb st' = Some (True, pkts, cur)"
    using Cons.prems(1) by (auto split: option.splits if_splits)
  moreover from this(1) have "snd st' \<noteq> []"
    using Cons.prems(2) by (cases st) (auto split: if_splits)
  ultimately show ?case using Cons.IH Cons.prems(2) by auto
qed auto

lemma CompoundPacket_Build_groups:
  assumes "list_all2 writes objs wires" "objs \<noteq> []"
    and "\<forall>w \<in> set wires. w \<noteq> [] \<and> length w \<le> maxlen" "maxlen \<le> length mem"
  shows "\<exists>s groups. BuildExternalBuffer (CompoundPacket_Create objs) mem maxlen True = Some (True, s) \<and>
     ready s = map concat groups \<and> concat groups = wires \<and> (\<forall>p \<in> set (ready s). length p \<le> maxlen)"
proof -
  let ?s = "\<lparr>buffer = mem, index = 0, callback = True, ready = []\<rparr>"
  have ok: "out_ok maxlen ?s" using assms(4) by (simp add: out_ok_def)
  have fit: "\<forall>w \<in> set wires. length w \<le> maxlen" using assms(3) by blast
  obtain dn lst g gs where sc: "spec_compound wires maxlen True ([], []) = Some (True, dn, lst)"
    and gr: "dn @ [lst] = map concat (g # gs)" "concat (g # gs) = wires"
    and small: "\<forall>p \<in> set (dn @ [lst]). length p \<le> maxlen"
    using spec_compound_groups [OF fit, of "[]" "[]"]
    unfolding append_Nil list.map list.size(3) by (metis le0)
  have "wires \<noteq> []" using assms(1,2) by auto
  then have ne: "lst \<noteq> []" using spec_compound_nonempty [OF sc] assms(3) by auto
  have abs: "out_abs ?s = ([], [])" by (simp add: out_abs_def)
  note c = Compound_refines_keeps [OF assms(1) ok, unfolded abs]
  obtain s' where s': "CompoundPacket_Create objs maxlen ?s = Some (True, s')" "out_abs s' = (dn, lst)"
    using c sc by auto
  have keeps: "out_ok maxlen s'" "callback s'" using c s'(1) by auto
  have "OnBufferFull s' = Some (True, flushed s')" "ready (flushed s') = dn @ [lst]"
    using s'(2) keeps ne by (auto simp: OnBufferFull_def flushed_def out_abs_def)
  then show ?thesis
    using s'(1) gr small by (intro exI [of _ "flushed s'"] exI [of _ "g # gs"])
      (simp add: BuildExternalBuffer_def)
qed

text \<open>
  C14. The header parser is total and memory safe: it never reads outside the buffer, and a header
  it accepts describes a payload and padding that lie within the buffer, are a whole number of
  32 bit words long, and are followed by the next packet, which is strictly shorter.
\<close>

theorem CommonHeader_Parse_correct:
  "\<exists>r. CommonHeader_Parse buf = Some r \<and> (case r of Inl _ \<Rightarrow> True | Inr h \<Rightarrow>
     4 + ch_payload_size h + unat (ch_padding_size h) \<le> length buf \<and>
     (ch_payload_size h + unat (ch_padding_size h)) mod 4 = 0 \<and>
     payload h = take (ch_payload_size h) (drop 4 buf) \<and>
     NextPacket h = drop (4 + ch_payload_size h + unat (ch_padding_size h)) buf \<and>
     length (NextPacket h) < length buf \<and> ch_count_or_format h < 32)"
proof -
  obtain r where r: "CommonHeader_Parse buf = Some r" using CommonHeader_Parse_no_fault by blast
  show ?thesis
  proof (cases r)
    case (Inr h)
    note v = CommonHeader_Parse_valid [OF r [unfolded Inr]]
    have "length (NextPacket h) < length buf" using v(3,4) by simp
    then show ?thesis using v by (simp add: r Inr)
  qed (simp add: r)
qed

end
