(* ===== verification/RtcpReports.thy ===== *)
theory RtcpReports
  imports RtcpBase
begin

text \<open>
  Sender and receiver reports of RFC 3550 with their report blocks (\<open>report_block.cc\<close>,
  \<open>sender_report.cc\<close>, \<open>receiver_report.cc\<close>), the NTP time stamp they carry
  (\<open>ntp_time.h\<close>) and the extended jitter report of RFC 5450 (\<open>extended_jitter_report.cc\<close>).
  Each class is interpreted as an \<open>rtcp_codec\<close>.
\<close>

section \<open>NTP time\<close>

type_synonym ntp_time = uint64

abbreviation (input) kFractionsPerSecond :: uint64 where
  "kFractionsPerSecond \<equiv> 0x100000000"

definition NtpTime_Set :: "uint32 \<Rightarrow> uint32 \<Rightarrow> ntp_time" where
  "NtpTime_Set seconds fractions = ucast seconds * kFractionsPerSecond + ucast fractions"

definition NtpTime_seconds :: "ntp_time \<Rightarrow> uint32" where
  "NtpTime_seconds val = ucast (val div kFractionsPerSecond)"

definition NtpTime_fractions :: "ntp_time \<Rightarrow> uint32" where
  "NtpTime_fractions val = ucast (val mod kFractionsPerSecond)"

definition NtpTime_Valid :: "ntp_time \<Rightarrow> bool" where
  "NtpTime_Valid val \<longleftrightarrow> val \<noteq> 0"

lemma NtpTime_seconds_bits: "NtpTime_seconds v = ucast (drop_bit 32 v)"
  by (simp add: NtpTime_seconds_def drop_bit_eq_div)

lemma NtpTime_fractions_bits: "NtpTime_fractions v = ucast v"
proof -
  have "v mod 0x100000000 = take_bit 32 v" by (simp add: take_bit_eq_mod)
  then show ?thesis
    unfolding NtpTime_fractions_def by (auto intro!: bit_word_eqI simp: bit_simps)
qed

lemma NtpTime_Set_bits: "NtpTime_Set s f = push_bit 32 (ucast s) OR ucast f"
proof -
  have "NtpTime_Set s f = push_bit 32 (ucast s) + ucast f"
    by (simp add: NtpTime_Set_def push_bit_eq_mult)
  also have "\<dots> = push_bit 32 (ucast s) OR ucast f"
    by (rule disjunctive_add_eq_or)
      (auto intro!: bit_word_eqI simp: bit_simps bit_beyond_length)
  finally show ?thesis .
qed

lemma NtpTime_Set_split [simp]: "NtpTime_Set (NtpTime_seconds v) (NtpTime_fractions v) = v"
  unfolding NtpTime_Set_bits NtpTime_seconds_bits NtpTime_fractions_bits
  by (rule bit_word_eqI) (auto simp: bit_simps)

lemma NtpTime_Set_inverse [simp]:
  "NtpTime_seconds (NtpTime_Set s f) = s" "NtpTime_fractions (NtpTime_Set s f) = f"
  unfolding NtpTime_Set_bits NtpTime_seconds_bits NtpTime_fractions_bits
  by (rule bit_word_eqI; auto simp: bit_simps bit_beyond_length)+

section \<open>Report block\<close>

text \<open>Where the code has a setter that cannot fail, its model is a record update.\<close>

record report_block =
  rb_source_ssrc :: uint32
  rb_fraction_lost :: byte
  rb_cumulative_lost :: uint32
  rb_extended_high_seq_num :: uint32
  rb_jitter :: uint32
  rb_last_sr :: uint32
  rb_delay_since_last_sr :: uint32

abbreviation (input) ReportBlock_kLength :: nat where
  "ReportBlock_kLength \<equiv> 24"

definition ReportBlock_new :: report_block where
  "ReportBlock_new = \<lparr>rb_source_ssrc = 0, rb_fraction_lost = 0, rb_cumulative_lost = 0,
     rb_extended_high_seq_num = 0, rb_jitter = 0, rb_last_sr = 0, rb_delay_since_last_sr = 0\<rparr>"

definition ReportBlock_Parse :: "byte list \<Rightarrow> nat \<Rightarrow> (rtcp_error + report_block) option" where
  "ReportBlock_Parse buf len =
     (if len < ReportBlock_kLength then Some (Inl PayloadTooSmall)
      else do {
        source_ssrc \<leftarrow> ReadBigEndian 4 (drop 0 buf);
        fraction_lost \<leftarrow> byte_at buf 4;
        cumulative_lost \<leftarrow> ReadBigEndian 3 (drop 5 buf);
        extended_high_seq_num \<leftarrow> ReadBigEndian 4 (drop 8 buf);
        jitter \<leftarrow> ReadBigEndian 4 (drop 12 buf);
        last_sr \<leftarrow> ReadBigEndian 4 (drop 16 buf);
        delay_since_last_sr \<leftarrow> ReadBigEndian 4 (drop 20 buf);
        Some (Inr \<lparr>rb_source_ssrc = source_ssrc, rb_fraction_lost = fraction_lost,
          rb_cumulative_lost = cumulative_lost, rb_extended_high_seq_num = extended_high_seq_num,
          rb_jitter = jitter, rb_last_sr = last_sr, rb_delay_since_last_sr = delay_since_last_sr\<rparr>) })"

definition ReportBlock_Create :: "report_block \<Rightarrow> out \<Rightarrow> out option" where
  "ReportBlock_Create b s = do {
     s \<leftarrow> put 0 (WriteBigEndian 4 (rb_source_ssrc b)) s;
     s \<leftarrow> put 4 (WriteBigEndian 1 (rb_fraction_lost b)) s;
     s \<leftarrow> put 5 (WriteBigEndian 3 (rb_cumulative_lost b)) s;
     s \<leftarrow> put 8 (WriteBigEndian 4 (rb_extended_high_seq_num b)) s;
     s \<leftarrow> put 12 (WriteBigEndian 4 (rb_jitter b)) s;
     s \<leftarrow> put 16 (WriteBigEndian 4 (rb_last_sr b)) s;
     put 20 (WriteBigEndian 4 (rb_delay_since_last_sr b)) s }"

definition ReportBlock_SetMediaSsrc :: "uint32 \<Rightarrow> report_block \<Rightarrow> report_block" where
  "ReportBlock_SetMediaSsrc ssrc b = b\<lparr>rb_source_ssrc := ssrc\<rparr>"

definition ReportBlock_SetFractionLost :: "byte \<Rightarrow> report_block \<Rightarrow> report_block" where
  "ReportBlock_SetFractionLost fraction_lost b = b\<lparr>rb_fraction_lost := fraction_lost\<rparr>"

definition ReportBlock_SetExtHighestSeqNum :: "uint32 \<Rightarrow> report_block \<Rightarrow> report_block" where
  "ReportBlock_SetExtHighestSeqNum ext_highest_seq_num b =
     b\<lparr>rb_extended_high_seq_num := ext_highest_seq_num\<rparr>"

definition ReportBlock_SetJitter :: "uint32 \<Rightarrow> report_block \<Rightarrow> report_block" where
  "ReportBlock_SetJitter jitter b = b\<lparr>rb_jitter := jitter\<rparr>"

definition ReportBlock_SetLastSr :: "uint32 \<Rightarrow> report_block \<Rightarrow> report_block" where
  "ReportBlock_SetLastSr last_sr b = b\<lparr>rb_last_sr := last_sr\<rparr>"

definition ReportBlock_SetDelayLastSr :: "uint32 \<Rightarrow> report_block \<Rightarrow> report_block" where
  "ReportBlock_SetDelayLastSr delay_last_sr b = b\<lparr>rb_delay_since_last_sr := delay_last_sr\<rparr>"

definition ReportBlock_SetCumulativeLost :: "uint32 \<Rightarrow> report_block \<Rightarrow> bool \<times> report_block" where
  "ReportBlock_SetCumulativeLost cumulative_lost b =
     (if cumulative_lost \<ge> push_bit 24 1 then (False, b)
      else (True, b\<lparr>rb_cumulative_lost := cumulative_lost\<rparr>))"

text \<open>
  The loops of the reports assert with \<open>RTC_DCHECK\<close> that the block was parsed; a failure counts
  as a fault here, so that the safety lemmas show the assertion too.
\<close>

definition ReportBlock_read :: "byte list \<Rightarrow> report_block option" where
  "ReportBlock_read next_block =
     (case ReportBlock_Parse next_block ReportBlock_kLength of Some (Inr b) \<Rightarrow> Some b | _ \<Rightarrow> None)"

definition ReportBlock_wire :: "report_block \<Rightarrow> byte list" where
  "ReportBlock_wire b = WriteBigEndian 4 (rb_source_ssrc b) @ WriteBigEndian 1 (rb_fraction_lost b) @
     WriteBigEndian 3 (rb_cumulative_lost b) @ WriteBigEndian 4 (rb_extended_high_seq_num b) @
     WriteBigEndian 4 (rb_jitter b) @ WriteBigEndian 4 (rb_last_sr b) @
     WriteBigEndian 4 (rb_delay_since_last_sr b)"

definition ReportBlock_wf :: "report_block \<Rightarrow> bool" where
  "ReportBlock_wf b \<longleftrightarrow> rb_cumulative_lost b < push_bit 24 1"

lemma ReportBlock_Create_emit [out_simps]:
  "Option.bind (ReportBlock_Create b s) (advance ReportBlock_kLength) =
     emit (ReportBlock_wire b) s"
  unfolding ReportBlock_Create_def ReportBlock_wire_def
  by (simp add: out_simps Option.bind_assoc put_put)

lemma ReportBlock_wf_bits: "ReportBlock_wf b \<longleftrightarrow> take_bit 24 (rb_cumulative_lost b) = rb_cumulative_lost b"
  by (simp add: ReportBlock_wf_def word_less_nat_alt word_unat_eq_iff unsigned_take_bit_eq
      take_bit_nat_eq_self_iff)

interpretation report_block: item_codec ReportBlock_wire ReportBlock_read 24 ReportBlock_wf
proof unfold_locales
  fix b rest data
  show "length (ReportBlock_wire b) = 24" by (simp add: ReportBlock_wire_def)
  show "ReportBlock_read (ReportBlock_wire b @ rest) = Some b" if "ReportBlock_wf b"
    using that unfolding ReportBlock_wf_bits
    by (simp add: ReportBlock_read_def ReportBlock_Parse_def ReportBlock_wire_def wire_simps)
  show "\<exists>x. ReportBlock_read data = Some x" if "24 \<le> length data"
    using that by (auto simp: ReportBlock_read_def ReportBlock_Parse_def ReadBigEndian_eq byte_at_def)
qed

declare report_block.safe_read_items [safe_intros]

text \<open>The report blocks a client can get hold of: the initial one, by setters, or by parsing.\<close>

inductive ReportBlock_built :: "report_block \<Rightarrow> bool" where
  new: "ReportBlock_built ReportBlock_new"
| media_ssrc: "ReportBlock_built b \<Longrightarrow> ReportBlock_built (ReportBlock_SetMediaSsrc x b)"
| fraction_lost: "ReportBlock_built b \<Longrightarrow> ReportBlock_built (ReportBlock_SetFractionLost y b)"
| cumulative_lost: "ReportBlock_built b \<Longrightarrow> ReportBlock_built (snd (ReportBlock_SetCumulativeLost x b))"
| high_seq_num: "ReportBlock_built b \<Longrightarrow> ReportBlock_built (ReportBlock_SetExtHighestSeqNum x b)"
| jitter: "ReportBlock_built b \<Longrightarrow> ReportBlock_built (ReportBlock_SetJitter x b)"
| last_sr: "ReportBlock_built b \<Longrightarrow> ReportBlock_built (ReportBlock_SetLastSr x b)"
| delay: "ReportBlock_built b \<Longrightarrow> ReportBlock_built (ReportBlock_SetDelayLastSr x b)"
| parsed: "ReportBlock_Parse buf len = Some (Inr b) \<Longrightarrow> ReportBlock_built b"

lemmas ReportBlock_setters = ReportBlock_new_def ReportBlock_SetMediaSsrc_def
  ReportBlock_SetFractionLost_def ReportBlock_SetCumulativeLost_def
  ReportBlock_SetExtHighestSeqNum_def ReportBlock_SetJitter_def ReportBlock_SetLastSr_def
  ReportBlock_SetDelayLastSr_def

lemma ReportBlock_Parse_wf: "ReportBlock_Parse buf len = Some (Inr b) \<Longrightarrow> ReportBlock_wf b"
  using ReadBigEndian_take_bit [of 3 "drop 5 buf" "rb_cumulative_lost b"]
  by (auto simp: ReportBlock_Parse_def ReportBlock_wf_bits split: if_splits Option.bind_splits)

lemma ReportBlock_built_wf: "ReportBlock_built b \<Longrightarrow> ReportBlock_wf b"
  by (induction rule: ReportBlock_built.induct)
    (auto simp: ReportBlock_setters ReportBlock_wf_def [simplified] not_le
      dest: ReportBlock_Parse_wf)

section \<open>Sender report\<close>

record sender_report =
  sr_sender_ssrc :: uint32
  sr_ntp :: ntp_time
  sr_rtp_timestamp :: uint32
  sr_sender_packet_count :: uint32
  sr_sender_octet_count :: uint32
  sr_report_blocks :: "report_block list"

abbreviation (input) kSenderBaseLength :: nat where
  "kSenderBaseLength \<equiv> 24"

abbreviation (input) kMaxNumberOfReportBlocks :: nat where
  "kMaxNumberOfReportBlocks \<equiv> 0x1f"

definition SenderReport_new :: sender_report where
  "SenderReport_new = \<lparr>sr_sender_ssrc = 0, sr_ntp = 0, sr_rtp_timestamp = 0,
     sr_sender_packet_count = 0, sr_sender_octet_count = 0, sr_report_blocks = []\<rparr>"

definition SenderReport_SetSenderSsrc :: "uint32 \<Rightarrow> sender_report \<Rightarrow> sender_report" where
  "SenderReport_SetSenderSsrc ssrc p = p\<lparr>sr_sender_ssrc := ssrc\<rparr>"

definition SenderReport_SetNtp :: "ntp_time \<Rightarrow> sender_report \<Rightarrow> sender_report" where
  "SenderReport_SetNtp ntp p = p\<lparr>sr_ntp := ntp\<rparr>"

definition SenderReport_SetRtpTimestamp :: "uint32 \<Rightarrow> sender_report \<Rightarrow> sender_report" where
  "SenderReport_SetRtpTimestamp rtp_timestamp p = p\<lparr>sr_rtp_timestamp := rtp_timestamp\<rparr>"

definition SenderReport_SetPacketCount :: "uint32 \<Rightarrow> sender_report \<Rightarrow> sender_report" where
  "SenderReport_SetPacketCount packet_count p = p\<lparr>sr_sender_packet_count := packet_count\<rparr>"

definition SenderReport_SetOctetCount :: "uint32 \<Rightarrow> sender_report \<Rightarrow> sender_report" where
  "SenderReport_SetOctetCount octet_count p = p\<lparr>sr_sender_octet_count := octet_count\<rparr>"

definition SenderReport_AddReportBlock :: "report_block \<Rightarrow> sender_report \<Rightarrow> bool \<times> sender_report" where
  "SenderReport_AddReportBlock block p =
     (if length (sr_report_blocks p) \<ge> kMaxNumberOfReportBlocks then (False, p)
      else (True, p\<lparr>sr_report_blocks := sr_report_blocks p @ [block]\<rparr>))"

definition SenderReport_ClearReportBlocks :: "sender_report \<Rightarrow> sender_report" where
  "SenderReport_ClearReportBlocks p = p\<lparr>sr_report_blocks := []\<rparr>"

definition SenderReport_BlockLength :: "sender_report \<Rightarrow> nat" where
  "SenderReport_BlockLength p =
     kHeaderLength + kSenderBaseLength + length (sr_report_blocks p) * ReportBlock_kLength"

definition SenderReport_Parse :: "common_header \<Rightarrow> (rtcp_error + sender_report) option" where
  "SenderReport_Parse packet =
     (let report_block_count = unat (ch_count_or_format packet) in
      if ch_payload_size packet < kSenderBaseLength + report_block_count * ReportBlock_kLength
      then Some (Inl PayloadTooSmall)
      else do {
        let payload = payload packet;
        sender_ssrc \<leftarrow> ReadBigEndian 4 (drop 0 payload);
        secs \<leftarrow> ReadBigEndian 4 (drop 4 payload);
        frac \<leftarrow> ReadBigEndian 4 (drop 8 payload);
        rtp_timestamp \<leftarrow> ReadBigEndian 4 (drop 12 payload);
        sender_packet_count \<leftarrow> ReadBigEndian 4 (drop 16 payload);
        sender_octet_count \<leftarrow> ReadBigEndian 4 (drop 20 payload);
        report_blocks \<leftarrow> read_items ReportBlock_read ReportBlock_kLength report_block_count
          (drop kSenderBaseLength payload);
        Some (Inr \<lparr>sr_sender_ssrc = sender_ssrc, sr_ntp = NtpTime_Set secs frac,
          sr_rtp_timestamp = rtp_timestamp, sr_sender_packet_count = sender_packet_count,
          sr_sender_octet_count = sender_octet_count, sr_report_blocks = report_blocks\<rparr>) })"

definition SenderReport_Create ::
  "sender_report \<Rightarrow> nat \<Rightarrow> out \<Rightarrow> (bool \<times> out) option" where
  "SenderReport_Create p max_length s =
     with_room (SenderReport_BlockLength p) max_length (\<lambda>s. do {
       let index_end = index s + SenderReport_BlockLength p;
       s \<leftarrow> CreateHeader (of_nat (length (sr_report_blocks p))) 200
              (HeaderLength (SenderReport_BlockLength p)) s;
       s \<leftarrow> put 0 (WriteBigEndian 4 (sr_sender_ssrc p)) s;
       s \<leftarrow> put 4 (WriteBigEndian 4 (NtpTime_seconds (sr_ntp p))) s;
       s \<leftarrow> put 8 (WriteBigEndian 4 (NtpTime_fractions (sr_ntp p))) s;
       s \<leftarrow> put 12 (WriteBigEndian 4 (sr_rtp_timestamp p)) s;
       s \<leftarrow> put 16 (WriteBigEndian 4 (sr_sender_packet_count p)) s;
       s \<leftarrow> put 20 (WriteBigEndian 4 (sr_sender_octet_count p)) s;
       s \<leftarrow> advance kSenderBaseLength s;
       s \<leftarrow> for_each (\<lambda>block s. do {
              s \<leftarrow> ReportBlock_Create block s;
              advance ReportBlock_kLength s }) (sr_report_blocks p) s;
       check_index index_end s }) s"

definition SenderReport_body :: "sender_report \<Rightarrow> byte list" where
  "SenderReport_body p = WriteBigEndian 4 (sr_sender_ssrc p) @
     WriteBigEndian 4 (NtpTime_seconds (sr_ntp p)) @ WriteBigEndian 4 (NtpTime_fractions (sr_ntp p)) @
     WriteBigEndian 4 (sr_rtp_timestamp p) @ WriteBigEndian 4 (sr_sender_packet_count p) @
     WriteBigEndian 4 (sr_sender_octet_count p) @
     concat (map ReportBlock_wire (sr_report_blocks p))"

abbreviation (input) SenderReport_fmt :: "sender_report \<Rightarrow> byte" where
  "SenderReport_fmt p \<equiv> of_nat (length (sr_report_blocks p))"

definition SenderReport_wire :: "sender_report \<Rightarrow> byte list" where
  "SenderReport_wire p = header_bytes (SenderReport_fmt p) 200
     (HeaderLength (SenderReport_BlockLength p)) @ SenderReport_body p"

definition SenderReport_wf :: "sender_report \<Rightarrow> bool" where
  "SenderReport_wf p \<longleftrightarrow> length (sr_report_blocks p) \<le> kMaxNumberOfReportBlocks \<and>
     list_all ReportBlock_wf (sr_report_blocks p)"

lemma SenderReport_Create_wire:
  "SenderReport_Create p maxlen s =
     with_room (SenderReport_BlockLength p) maxlen (emit (SenderReport_wire p)) s"
  unfolding SenderReport_Create_def SenderReport_wire_def SenderReport_body_def
  by (rule with_room_cong)
    (simp add: out_simps report_block.length_enc_all SenderReport_BlockLength_def)

interpretation sender_report: rtcp_codec SenderReport_wf SenderReport_BlockLength
  SenderReport_Create SenderReport_wire SenderReport_Parse 200 SenderReport_fmt
  SenderReport_body id
proof unfold_locales
  fix p :: sender_report and maxlen s
  show "SenderReport_Create p maxlen s =
      with_room (SenderReport_BlockLength p) maxlen (emit (SenderReport_wire p)) s"
    by (rule SenderReport_Create_wire)
  show "length (SenderReport_wire p) = SenderReport_BlockLength p"
    by (simp add: SenderReport_wire_def SenderReport_body_def SenderReport_BlockLength_def
        report_block.length_enc_all)
  show "4 dvd SenderReport_BlockLength p" "4 \<le> SenderReport_BlockLength p"
    by (simp_all add: SenderReport_BlockLength_def)
  show "SenderReport_fmt p < 32" if "SenderReport_wf p"
    using that by (simp add: SenderReport_wf_def word_less_nat_alt unat_of_nat)
  show "SenderReport_BlockLength p \<le> 262144" if "SenderReport_wf p"
    using that by (simp add: SenderReport_wf_def SenderReport_BlockLength_def)
next
  fix p :: sender_report and h
  assume "SenderReport_wf p" "ch_count_or_format h = SenderReport_fmt p"
    "ch_payload_size h = length (SenderReport_body p)" "payload h = SenderReport_body p"
  then show "SenderReport_Parse h = Some (Inr (id p))"
    by (simp add: SenderReport_Parse_def SenderReport_body_def SenderReport_wf_def Let_def wire_simps
        unat_of_nat report_block.length_enc_all report_block.read_items_exact)
next
  show "SenderReport_Parse h \<noteq> None" if "valid_header h" for h
    unfolding SenderReport_Parse_def using that by (intro safeD safe_intros) auto
qed (simp add: SenderReport_wire_def)

lemma ReportBlock_read_wf: "ReportBlock_read data = Some b \<Longrightarrow> ReportBlock_wf b"
  by (auto simp: ReportBlock_read_def dest: ReportBlock_Parse_wf split: option.splits sum.splits)

lemma SenderReport_Parse_wf:
  assumes "CommonHeader_Parse buf = Some (Inr h)" "SenderReport_Parse h = Some (Inr p)"
  shows "SenderReport_wf p"
proof -
  have "unat (ch_count_or_format h) < 32"
    using CommonHeader_Parse_valid(6) [OF assms(1)] by (simp add: word_less_nat_alt)
  then show ?thesis
    using assms(2) read_items_all [of ReportBlock_read, OF ReportBlock_read_wf]
    by (auto simp: SenderReport_Parse_def SenderReport_wf_def Let_def split: if_splits Option.bind_splits)
qed

inductive SenderReport_built :: "sender_report \<Rightarrow> bool" where
  new: "SenderReport_built SenderReport_new"
| sender_ssrc: "SenderReport_built p \<Longrightarrow> SenderReport_built (SenderReport_SetSenderSsrc x p)"
| ntp: "SenderReport_built p \<Longrightarrow> SenderReport_built (SenderReport_SetNtp t p)"
| rtp_timestamp: "SenderReport_built p \<Longrightarrow> SenderReport_built (SenderReport_SetRtpTimestamp x p)"
| packet_count: "SenderReport_built p \<Longrightarrow> SenderReport_built (SenderReport_SetPacketCount x p)"
| octet_count: "SenderReport_built p \<Longrightarrow> SenderReport_built (SenderReport_SetOctetCount x p)"
| add: "SenderReport_built p \<Longrightarrow> ReportBlock_built b \<Longrightarrow>
    SenderReport_built (snd (SenderReport_AddReportBlock b p))"
| clear: "SenderReport_built p \<Longrightarrow> SenderReport_built (SenderReport_ClearReportBlocks p)"
| parsed: "CommonHeader_Parse buf = Some (Inr h) \<Longrightarrow> SenderReport_Parse h = Some (Inr p) \<Longrightarrow>
    SenderReport_built p"

lemmas SenderReport_setters = SenderReport_new_def SenderReport_SetSenderSsrc_def
  SenderReport_SetNtp_def SenderReport_SetRtpTimestamp_def SenderReport_SetPacketCount_def
  SenderReport_SetOctetCount_def SenderReport_AddReportBlock_def SenderReport_ClearReportBlocks_def

lemma SenderReport_built_wf: "SenderReport_built p \<Longrightarrow> SenderReport_wf p"
proof (induction rule: SenderReport_built.induct)
  case (parsed buf h p)
  then show ?case by (rule SenderReport_Parse_wf)
qed (auto simp: SenderReport_setters SenderReport_wf_def dest: ReportBlock_built_wf)

section \<open>Receiver report\<close>

record receiver_report =
  rr_sender_ssrc :: uint32
  rr_report_blocks :: "report_block list"

abbreviation (input) kRrBaseLength :: nat where
  "kRrBaseLength \<equiv> 4"

definition ReceiverReport_new :: receiver_report where
  "ReceiverReport_new = \<lparr>rr_sender_ssrc = 0, rr_report_blocks = []\<rparr>"

definition ReceiverReport_SetSenderSsrc :: "uint32 \<Rightarrow> receiver_report \<Rightarrow> receiver_report" where
  "ReceiverReport_SetSenderSsrc ssrc p = p\<lparr>rr_sender_ssrc := ssrc\<rparr>"

definition ReceiverReport_AddReportBlock ::
  "report_block \<Rightarrow> receiver_report \<Rightarrow> bool \<times> receiver_report" where
  "ReceiverReport_AddReportBlock block p =
     (if length (rr_report_blocks p) \<ge> kMaxNumberOfReportBlocks then (False, p)
      else (True, p\<lparr>rr_report_blocks := rr_report_blocks p @ [block]\<rparr>))"

definition ReceiverReport_BlockLength :: "receiver_report \<Rightarrow> nat" where
  "ReceiverReport_BlockLength p =
     kHeaderLength + kRrBaseLength + length (rr_report_blocks p) * ReportBlock_kLength"

text \<open>
  This parser ignores the result of \<open>block.Parse\<close>, which for the full length never rejects.
\<close>

definition ReceiverReport_Parse :: "common_header \<Rightarrow> (rtcp_error + receiver_report) option" where
  "ReceiverReport_Parse packet =
     (let report_blocks_count = unat (ch_count_or_format packet) in
      if ch_payload_size packet < kRrBaseLength + report_blocks_count * ReportBlock_kLength
      then Some (Inl PayloadTooSmall)
      else do {
        sender_ssrc \<leftarrow> ReadBigEndian 4 (payload packet);
        report_blocks \<leftarrow> read_items ReportBlock_read ReportBlock_kLength report_blocks_count
          (drop kRrBaseLength (payload packet));
        Some (Inr \<lparr>rr_sender_ssrc = sender_ssrc, rr_report_blocks = report_blocks\<rparr>) })"

definition ReceiverReport_Create ::
  "receiver_report \<Rightarrow> nat \<Rightarrow> out \<Rightarrow> (bool \<times> out) option" where
  "ReceiverReport_Create p max_length s =
     with_room (ReceiverReport_BlockLength p) max_length (\<lambda>s. do {
       s \<leftarrow> CreateHeader (of_nat (length (rr_report_blocks p))) 201
              (HeaderLength (ReceiverReport_BlockLength p)) s;
       s \<leftarrow> put 0 (WriteBigEndian 4 (rr_sender_ssrc p)) s;
       s \<leftarrow> advance kRrBaseLength s;
       for_each (\<lambda>block s. do {
         s \<leftarrow> ReportBlock_Create block s;
         advance ReportBlock_kLength s }) (rr_report_blocks p) s }) s"

definition ReceiverReport_body :: "receiver_report \<Rightarrow> byte list" where
  "ReceiverReport_body p =
     WriteBigEndian 4 (rr_sender_ssrc p) @ concat (map ReportBlock_wire (rr_report_blocks p))"

abbreviation (input) ReceiverReport_fmt :: "receiver_report \<Rightarrow> byte" where
  "ReceiverReport_fmt p \<equiv> of_nat (length (rr_report_blocks p))"

definition ReceiverReport_wire :: "receiver_report \<Rightarrow> byte list" where
  "ReceiverReport_wire p = header_bytes (ReceiverReport_fmt p) 201
     (HeaderLength (ReceiverReport_BlockLength p)) @ ReceiverReport_body p"

definition ReceiverReport_wf :: "receiver_report \<Rightarrow> bool" where
  "ReceiverReport_wf p \<longleftrightarrow> length (rr_report_blocks p) \<le> kMaxNumberOfReportBlocks \<and>
     list_all ReportBlock_wf (rr_report_blocks p)"

lemma ReceiverReport_Create_wire:
  "ReceiverReport_Create p maxlen s =
     with_room (ReceiverReport_BlockLength p) maxlen (emit (ReceiverReport_wire p)) s"
  unfolding ReceiverReport_Create_def ReceiverReport_wire_def ReceiverReport_body_def
  by (simp add: out_simps)

interpretation receiver_report: rtcp_codec ReceiverReport_wf ReceiverReport_BlockLength
  ReceiverReport_Create ReceiverReport_wire ReceiverReport_Parse 201 ReceiverReport_fmt
  ReceiverReport_body id
proof unfold_locales
  fix p :: receiver_report and maxlen s
  show "ReceiverReport_Create p maxlen s =
      with_room (ReceiverReport_BlockLength p) maxlen (emit (ReceiverReport_wire p)) s"
    by (rule ReceiverReport_Create_wire)
  show "length (ReceiverReport_wire p) = ReceiverReport_BlockLength p"
    by (simp add: ReceiverReport_wire_def ReceiverReport_body_def ReceiverReport_BlockLength_def
        report_block.length_enc_all)
  show "4 dvd ReceiverReport_BlockLength p" "4 \<le> ReceiverReport_BlockLength p"
    by (simp_all add: ReceiverReport_BlockLength_def)
  show "ReceiverReport_fmt p < 32" if "ReceiverReport_wf p"
    using that by (simp add: ReceiverReport_wf_def word_less_nat_alt unat_of_nat)
  show "ReceiverReport_BlockLength p \<le> 262144" if "ReceiverReport_wf p"
    using that by (simp add: ReceiverReport_wf_def ReceiverReport_BlockLength_def)
next
  fix p :: receiver_report and h
  assume "ReceiverReport_wf p" "ch_count_or_format h = ReceiverReport_fmt p"
    "ch_payload_size h = length (ReceiverReport_body p)" "payload h = ReceiverReport_body p"
  then show "ReceiverReport_Parse h = Some (Inr (id p))"
    by (simp add: ReceiverReport_Parse_def ReceiverReport_body_def ReceiverReport_wf_def wire_simps
        unat_of_nat report_block.length_enc_all report_block.read_items_exact)
next
  show "ReceiverReport_Parse h \<noteq> None" if "valid_header h" for h
    unfolding ReceiverReport_Parse_def using that by (intro safeD safe_intros) auto
qed (simp add: ReceiverReport_wire_def)

lemma ReceiverReport_Parse_wf:
  assumes "CommonHeader_Parse buf = Some (Inr h)" "ReceiverReport_Parse h = Some (Inr p)"
  shows "ReceiverReport_wf p"
proof -
  have "unat (ch_count_or_format h) < 32"
    using CommonHeader_Parse_valid(6) [OF assms(1)] by (simp add: word_less_nat_alt)
  then show ?thesis
    using assms(2) read_items_all [of ReportBlock_read, OF ReportBlock_read_wf]
    by (auto simp: ReceiverReport_Parse_def ReceiverReport_wf_def Let_def
        split: if_splits Option.bind_splits)
qed

inductive ReceiverReport_built :: "receiver_report \<Rightarrow> bool" where
  new: "ReceiverReport_built ReceiverReport_new"
| sender_ssrc: "ReceiverReport_built p \<Longrightarrow> ReceiverReport_built (ReceiverReport_SetSenderSsrc x p)"
| add: "ReceiverReport_built p \<Longrightarrow> ReportBlock_built b \<Longrightarrow>
    ReceiverReport_built (snd (ReceiverReport_AddReportBlock b p))"
| parsed: "CommonHeader_Parse buf = Some (Inr h) \<Longrightarrow> ReceiverReport_Parse h = Some (Inr p) \<Longrightarrow>
    ReceiverReport_built p"

lemma ReceiverReport_built_wf: "ReceiverReport_built p \<Longrightarrow> ReceiverReport_wf p"
proof (induction rule: ReceiverReport_built.induct)
  case (parsed buf h p)
  then show ?case by (rule ReceiverReport_Parse_wf)
qed (auto simp: ReceiverReport_new_def ReceiverReport_SetSenderSsrc_def
    ReceiverReport_AddReportBlock_def ReceiverReport_wf_def dest: ReportBlock_built_wf)

section \<open>Extended jitter report\<close>

record extended_jitter_report =
  ij_inter_arrival_jitters :: "uint32 list"

abbreviation (input) kMaxNumberOfJitterValues :: nat where
  "kMaxNumberOfJitterValues \<equiv> 0x1f"

abbreviation (input) kJitterSizeBytes :: nat where
  "kJitterSizeBytes \<equiv> 4"

definition ExtendedJitterReport_new :: extended_jitter_report where
  "ExtendedJitterReport_new = \<lparr>ij_inter_arrival_jitters = []\<rparr>"

definition ExtendedJitterReport_SetJitterValues ::
  "uint32 list \<Rightarrow> extended_jitter_report \<Rightarrow> bool \<times> extended_jitter_report" where
  "ExtendedJitterReport_SetJitterValues values p =
     (if length values > kMaxNumberOfJitterValues then (False, p)
      else (True, p\<lparr>ij_inter_arrival_jitters := values\<rparr>))"

definition ExtendedJitterReport_BlockLength :: "extended_jitter_report \<Rightarrow> nat" where
  "ExtendedJitterReport_BlockLength p =
     kHeaderLength + kJitterSizeBytes * length (ij_inter_arrival_jitters p)"

definition ExtendedJitterReport_Parse ::
  "common_header \<Rightarrow> (rtcp_error + extended_jitter_report) option" where
  "ExtendedJitterReport_Parse packet =
     (let number_of_jitters = unat (ch_count_or_format packet) in
      if ch_payload_size packet < number_of_jitters * kJitterSizeBytes
      then Some (Inl PayloadTooSmall)
      else do {
        jitters \<leftarrow> read_items (ReadBigEndian 4) kJitterSizeBytes number_of_jitters (payload packet);
        Some (Inr \<lparr>ij_inter_arrival_jitters = jitters\<rparr>) })"

definition ExtendedJitterReport_Create ::
  "extended_jitter_report \<Rightarrow> nat \<Rightarrow> out \<Rightarrow> (bool \<times> out) option" where
  "ExtendedJitterReport_Create p max_length s =
     with_room (ExtendedJitterReport_BlockLength p) max_length (\<lambda>s. do {
       let index_end = index s + ExtendedJitterReport_BlockLength p;
       let len = length (ij_inter_arrival_jitters p);
       s \<leftarrow> CreateHeader (of_nat len) 195 len s;
       s \<leftarrow> for_each (\<lambda>jitter s. do {
              s \<leftarrow> put 0 (WriteBigEndian 4 jitter) s;
              advance kJitterSizeBytes s }) (ij_inter_arrival_jitters p) s;
       check_index index_end s }) s"

definition ExtendedJitterReport_body :: "extended_jitter_report \<Rightarrow> byte list" where
  "ExtendedJitterReport_body p = concat (map (WriteBigEndian 4) (ij_inter_arrival_jitters p))"

abbreviation (input) ExtendedJitterReport_fmt :: "extended_jitter_report \<Rightarrow> byte" where
  "ExtendedJitterReport_fmt p \<equiv> of_nat (length (ij_inter_arrival_jitters p))"

definition ExtendedJitterReport_wire :: "extended_jitter_report \<Rightarrow> byte list" where
  "ExtendedJitterReport_wire p = header_bytes (ExtendedJitterReport_fmt p) 195
     (HeaderLength (ExtendedJitterReport_BlockLength p)) @ ExtendedJitterReport_body p"

definition ExtendedJitterReport_wf :: "extended_jitter_report \<Rightarrow> bool" where
  "ExtendedJitterReport_wf p \<longleftrightarrow> length (ij_inter_arrival_jitters p) \<le> kMaxNumberOfJitterValues"

text \<open>The code passes the item count where the other classes pass \<open>HeaderLength()\<close>; they agree.\<close>

lemma ExtendedJitterReport_Create_wire:
  "ExtendedJitterReport_Create p maxlen s =
     with_room (ExtendedJitterReport_BlockLength p) maxlen (emit (ExtendedJitterReport_wire p)) s"
  unfolding ExtendedJitterReport_Create_def ExtendedJitterReport_wire_def ExtendedJitterReport_body_def
  by (rule with_room_cong)
    (simp add: out_simps u32.length_enc_all ExtendedJitterReport_BlockLength_def HeaderLength_def Let_def)

interpretation extended_jitter_report: rtcp_codec ExtendedJitterReport_wf
  ExtendedJitterReport_BlockLength ExtendedJitterReport_Create ExtendedJitterReport_wire
  ExtendedJitterReport_Parse 195 ExtendedJitterReport_fmt ExtendedJitterReport_body id
proof unfold_locales
  fix p :: extended_jitter_report and maxlen s
  show "ExtendedJitterReport_Create p maxlen s =
      with_room (ExtendedJitterReport_BlockLength p) maxlen (emit (ExtendedJitterReport_wire p)) s"
    by (rule ExtendedJitterReport_Create_wire)
  show "length (ExtendedJitterReport_wire p) = ExtendedJitterReport_BlockLength p"
    by (simp add: ExtendedJitterReport_wire_def ExtendedJitterReport_body_def
        ExtendedJitterReport_BlockLength_def u32.length_enc_all)
  show "4 dvd ExtendedJitterReport_BlockLength p" "4 \<le> ExtendedJitterReport_BlockLength p"
    by (simp_all add: ExtendedJitterReport_BlockLength_def)
  show "ExtendedJitterReport_fmt p < 32" if "ExtendedJitterReport_wf p"
    using that by (simp add: ExtendedJitterReport_wf_def word_less_nat_alt unat_of_nat)
  show "ExtendedJitterReport_BlockLength p \<le> 262144" if "ExtendedJitterReport_wf p"
    using that by (simp add: ExtendedJitterReport_wf_def ExtendedJitterReport_BlockLength_def)
next
  fix p :: extended_jitter_report and h
  assume "ExtendedJitterReport_wf p" "ch_count_or_format h = ExtendedJitterReport_fmt p"
    "ch_payload_size h = length (ExtendedJitterReport_body p)"
    "payload h = ExtendedJitterReport_body p"
  then show "ExtendedJitterReport_Parse h = Some (Inr (id p))"
    by (simp add: ExtendedJitterReport_Parse_def ExtendedJitterReport_body_def
        ExtendedJitterReport_wf_def unat_of_nat u32.length_enc_all u32.read_items_exact list_all_iff)
next
  show "ExtendedJitterReport_Parse h \<noteq> None" if "valid_header h" for h
    unfolding ExtendedJitterReport_Parse_def using that by (intro safeD safe_intros) auto
qed (simp add: ExtendedJitterReport_wire_def)

section \<open>Properties\<close>

text \<open>
  C15. Sender report round trip: a sender report obtained in any way the class offers (setters,
  added and cleared report blocks, parsing a received packet) is rebuilt exactly by parsing the
  packet it builds, whatever the fresh buffer held.
\<close>

theorem SenderReport_roundtrip:
  assumes "SenderReport_built p" "length mem = SenderReport_BlockLength p"
  shows "Option.bind (Build (SenderReport_Create p) mem) (ParseSinglePacket SenderReport_Parse) =
     Some (Inr p)"
  using sender_report.Build_Parse [OF SenderReport_built_wf [OF assms(1)] assms(2)] by simp

theorem SenderReport_roundtrip_witness:
  "let p = snd (SenderReport_AddReportBlock (snd (ReportBlock_SetCumulativeLost 0xfffff0 ReportBlock_new))
       (SenderReport_SetNtp 0x1122334455667788 SenderReport_new))
   in SenderReport_BlockLength p = 52 \<and>
      Option.bind (Build (SenderReport_Create p) (replicate 52 7)) (ParseSinglePacket SenderReport_Parse) =
        Some (Inr p)"
proof -
  let ?p = "snd (SenderReport_AddReportBlock (snd (ReportBlock_SetCumulativeLost 0xfffff0 ReportBlock_new))
      (SenderReport_SetNtp 0x1122334455667788 SenderReport_new))"
  have "SenderReport_BlockLength ?p = 52"
    by (simp add: SenderReport_setters SenderReport_BlockLength_def)
  moreover have "SenderReport_built ?p"
    by (intro SenderReport_built.intros ReportBlock_built.intros)
  ultimately show ?thesis
    using SenderReport_roundtrip [of ?p "replicate 52 7"] by (simp add: Let_def)
qed

text \<open>
  Receiver report round trip, for every receiver report the class can hold.
\<close>

theorem ReceiverReport_roundtrip:
  assumes "ReceiverReport_built p" "length mem = ReceiverReport_BlockLength p"
  shows "Option.bind (Build (ReceiverReport_Create p) mem) (ParseSinglePacket ReceiverReport_Parse) =
     Some (Inr p)"
  using receiver_report.Build_Parse [OF ReceiverReport_built_wf [OF assms(1)] assms(2)] by simp

theorem ReceiverReport_roundtrip_witness:
  "let p = snd (ReceiverReport_AddReportBlock (ReportBlock_SetJitter 9 ReportBlock_new)
       (ReceiverReport_SetSenderSsrc 0x12345678 ReceiverReport_new))
   in ReceiverReport_BlockLength p = 32 \<and>
      Option.bind (Build (ReceiverReport_Create p) (replicate 32 0)) (ParseSinglePacket ReceiverReport_Parse) =
        Some (Inr p)"
proof -
  let ?p = "snd (ReceiverReport_AddReportBlock (ReportBlock_SetJitter 9 ReportBlock_new)
      (ReceiverReport_SetSenderSsrc 0x12345678 ReceiverReport_new))"
  have "ReceiverReport_BlockLength ?p = 32"
    by (simp add: ReceiverReport_new_def ReceiverReport_SetSenderSsrc_def
        ReceiverReport_AddReportBlock_def ReceiverReport_BlockLength_def)
  moreover have "ReceiverReport_built ?p"
    by (intro ReceiverReport_built.intros ReportBlock_built.intros)
  ultimately show ?thesis
    using ReceiverReport_roundtrip [of ?p "replicate 32 0"] by (simp add: Let_def)
qed

text \<open>
  A packet class that adds a block never overruns the caller's buffer: \<open>Create\<close> of a sender
  report appends its wire format when it fits, first hands the filled part to the callback when it
  does not, and reports failure only when even an empty packet is too small.
\<close>

theorem SenderReport_Create_refines:
  assumes "SenderReport_built p" "out_ok maxlen s"
  shows "map_option (map_prod id out_abs) (SenderReport_Create p maxlen s) =
     spec_append (SenderReport_wire p) maxlen (callback s) (out_abs s)"
  by (rule sender_report.Create_refines [OF SenderReport_built_wf [OF assms(1)] assms(2)])

theorem SenderReport_Create_refines_witness:
  "let s = \<lparr>buffer = replicate 40 1, index = 20, callback = True, ready = []\<rparr>
   in map_option (map_prod id out_abs) (SenderReport_Create SenderReport_new 40 s) =
     Some (True, [replicate 20 1], SenderReport_wire SenderReport_new)"
proof -
  let ?s = "\<lparr>buffer = replicate 40 1, index = 20, callback = True, ready = []\<rparr> :: out"
  have "length (SenderReport_wire SenderReport_new) = 28"
    using sender_report.length_wire [OF SenderReport_built_wf [OF SenderReport_built.new]]
    by (simp add: SenderReport_BlockLength_def SenderReport_new_def)
  then show ?thesis
    using SenderReport_Create_refines [OF SenderReport_built.new, of 40 ?s]
    by (simp add: out_ok_def out_abs_def)
qed

end
