(* ===== verification/RtcpByeAppSdes.thy ===== *)
theory RtcpByeAppSdes
  imports RtcpBase
begin

text \<open>
  The RFC 3550 packets with variable length text or data: BYE (\<open>bye.cc\<close>), APP (\<open>app.cc\<close>) and
  SDES (\<open>sdes.cc\<close>). Strings and data buffers are byte lists. Each class is interpreted as an
  \<open>rtcp_codec\<close>.
\<close>

section \<open>Bye\<close>

record bye =
  bye_sender_ssrc :: uint32
  bye_csrcs :: "uint32 list"
  bye_reason :: "byte list"

abbreviation (input) kMaxNumberOfCsrcs :: nat where
  "kMaxNumberOfCsrcs \<equiv> 0x1f - 1"

definition Bye_new :: bye where
  "Bye_new = \<lparr>bye_sender_ssrc = 0, bye_csrcs = [], bye_reason = []\<rparr>"

definition Bye_SetSenderSsrc :: "uint32 \<Rightarrow> bye \<Rightarrow> bye" where
  "Bye_SetSenderSsrc ssrc p = p\<lparr>bye_sender_ssrc := ssrc\<rparr>"

definition Bye_SetCsrcs :: "uint32 list \<Rightarrow> bye \<Rightarrow> bool \<times> bye" where
  "Bye_SetCsrcs csrcs p =
     (if length csrcs > kMaxNumberOfCsrcs then (False, p) else (True, p\<lparr>bye_csrcs := csrcs\<rparr>))"

definition Bye_SetReason :: "byte list \<Rightarrow> bye \<Rightarrow> bye" where
  "Bye_SetReason reason p = p\<lparr>bye_reason := reason\<rparr>"

definition Bye_BlockLength :: "bye \<Rightarrow> nat" where
  "Bye_BlockLength p =
     (let src_count = 1 + length (bye_csrcs p);
          reason_size_in_32bits = (if bye_reason p = [] then 0 else length (bye_reason p) div 4 + 1)
      in kHeaderLength + 4 * (src_count + reason_size_in_32bits))"

definition Bye_Parse :: "common_header \<Rightarrow> (rtcp_error + bye) option" where
  "Bye_Parse packet =
     (let src_count = unat (ch_count_or_format packet);
          payload = payload packet;
          has_reason = ch_payload_size packet > 4 * src_count in
      if ch_payload_size packet < 4 * src_count then Some (Inl PayloadTooSmall)
      else do {
        reason_length \<leftarrow> (if has_reason then byte_at payload (4 * src_count) else Some 0);
        if has_reason \<and> ch_payload_size packet - 4 * src_count < 1 + unat reason_length
        then Some (Inl InvalidReasonLength)
        else do {
          (sender_ssrc, csrcs) \<leftarrow>
            (if src_count = 0 then Some (0, [])
             else do {
               sender_ssrc \<leftarrow> ReadBigEndian 4 payload;
               csrcs \<leftarrow> read_items (ReadBigEndian 4) 4 (src_count - 1) (drop 4 payload);
               Some (sender_ssrc, csrcs) });
          reason \<leftarrow> (if has_reason
             then read_bytes (unat reason_length) (drop (4 * src_count + 1) payload) else Some []);
          Some (Inr \<lparr>bye_sender_ssrc = sender_ssrc, bye_csrcs = csrcs, bye_reason = reason\<rparr>) } })"

definition Bye_Create :: "bye \<Rightarrow> nat \<Rightarrow> out \<Rightarrow> (bool \<times> out) option" where
  "Bye_Create p max_length s =
     with_room (Bye_BlockLength p) max_length (\<lambda>s. do {
       let index_end = index s + Bye_BlockLength p;
       s \<leftarrow> CreateHeader (of_nat (1 + length (bye_csrcs p))) 203 (HeaderLength (Bye_BlockLength p)) s;
       s \<leftarrow> put 0 (WriteBigEndian 4 (bye_sender_ssrc p)) s;
       s \<leftarrow> advance 4 s;
       s \<leftarrow> for_each (\<lambda>csrc s. do {
              s \<leftarrow> put 0 (WriteBigEndian 4 csrc) s;
              advance 4 s }) (bye_csrcs p) s;
       s \<leftarrow> (if bye_reason p \<noteq> [] then do {
              let reason_length = (of_nat (length (bye_reason p)) :: byte);
              s \<leftarrow> put 0 [reason_length] s;
              s \<leftarrow> advance 1 s;
              s \<leftarrow> put 0 (take (unat reason_length) (bye_reason p)) s;
              s \<leftarrow> advance (unat reason_length) s;
              let bytes_to_pad = size_sub index_end (index s);
              if bytes_to_pad > 3 then None
              else if bytes_to_pad > 0 then do {
                s \<leftarrow> put 0 (replicate bytes_to_pad 0) s;
                advance bytes_to_pad s }
              else Some s }
            else Some s);
       check_index index_end s }) s"

definition Bye_reason_wire :: "bye \<Rightarrow> byte list" where
  "Bye_reason_wire p =
     (if bye_reason p = [] then []
      else [of_nat (length (bye_reason p))] @ bye_reason p @
           replicate (3 - length (bye_reason p) mod 4) 0)"

definition Bye_body :: "bye \<Rightarrow> byte list" where
  "Bye_body p = WriteBigEndian 4 (bye_sender_ssrc p) @
     concat (map (WriteBigEndian 4) (bye_csrcs p)) @ Bye_reason_wire p"

abbreviation (input) Bye_fmt :: "bye \<Rightarrow> byte" where
  "Bye_fmt p \<equiv> of_nat (1 + length (bye_csrcs p))"

definition Bye_wire :: "bye \<Rightarrow> byte list" where
  "Bye_wire p = header_bytes (Bye_fmt p) 203 (HeaderLength (Bye_BlockLength p)) @ Bye_body p"

definition Bye_wf :: "bye \<Rightarrow> bool" where
  "Bye_wf p \<longleftrightarrow> length (bye_csrcs p) \<le> kMaxNumberOfCsrcs \<and> length (bye_reason p) \<le> 0xff"

lemma Bye_reason_padding: "Suc (n + 3 - n mod 4) = 4 * Suc (n div 4)" for n :: nat
  by presburger

lemma length_Bye_reason_wire:
  "length (Bye_reason_wire p) = (if bye_reason p = [] then 0 else 4 * Suc (length (bye_reason p) div 4))"
  by (simp add: Bye_reason_wire_def Bye_reason_padding del: mult_Suc_right)

lemma Bye_pad_to_end:
  assumes "index_end = index s + length a + k" "k \<le> 3"
  shows "Option.bind (emit a s) (\<lambda>y. Option.bind
      (if 3 < size_sub index_end (index y) then None
       else if 0 < size_sub index_end (index y)
       then Option.bind (put 0 (replicate (size_sub index_end (index y)) 0) y)
              (advance (size_sub index_end (index y)))
       else Some y) (check_index index_end)) = emit (a @ replicate k 0) s" (is "?lhs = _")
proof -
  have "?lhs = Option.bind (emit a s) (\<lambda>y. Option.bind (emit (replicate k 0) y) (check_index index_end))"
    using assms by (intro emit_bind_cong) (auto simp: out_simps check_index_def)
  then show ?thesis using assms by (simp add: out_simps)
qed

lemma Bye_Create_wire:
  assumes "Bye_wf p"
  shows "Bye_Create p maxlen s = with_room (Bye_BlockLength p) maxlen (emit (Bye_wire p)) s"
proof (cases "bye_reason p = []")
  case True
  then show ?thesis
    unfolding Bye_Create_def Bye_wire_def Bye_body_def
    by (intro with_room_cong)
      (simp add: out_simps u32.length_enc_all Bye_BlockLength_def Bye_reason_wire_def)
next
  case False
  let ?n = "length (bye_reason p)"
  have "Suc ?n + (3 - ?n mod 4) = 4 * (?n div 4 + 1)" by presburger
  then have "Bye_BlockLength p = 8 + 4 * length (bye_csrcs p) + Suc ?n + (3 - ?n mod 4)"
    using False by (simp add: Bye_BlockLength_def)
  then show ?thesis
    using False assms unfolding Bye_Create_def Bye_wire_def Bye_body_def
    by (intro with_room_cong)
      (simp add: out_simps u32.length_enc_all unat_of_nat Bye_wf_def Let_def Bye_reason_wire_def
        Bye_pad_to_end [where k = "3 - length (bye_reason p) mod 4"])
qed

interpretation bye: rtcp_codec Bye_wf Bye_BlockLength Bye_Create Bye_wire Bye_Parse 203 Bye_fmt
  Bye_body id
proof unfold_locales
  fix p :: bye and maxlen s
  show "Bye_Create p maxlen s = with_room (Bye_BlockLength p) maxlen (emit (Bye_wire p)) s"
    if "Bye_wf p"
    using that by (rule Bye_Create_wire)
  show "length (Bye_wire p) = Bye_BlockLength p"
    by (simp add: Bye_wire_def Bye_body_def Bye_BlockLength_def u32.length_enc_all
        length_Bye_reason_wire)
  show "4 dvd Bye_BlockLength p" "4 \<le> Bye_BlockLength p"
    by (simp_all add: Bye_BlockLength_def Let_def)
  show "Bye_fmt p < 32" if "Bye_wf p"
    using that by (simp add: Bye_wf_def word_less_nat_alt unat_of_nat flip: of_nat_Suc)
  show "Bye_BlockLength p \<le> 262144" if "Bye_wf p"
    using that div_le_mono [of "length (bye_reason p)" 255 4]
    by (simp add: Bye_wf_def Bye_BlockLength_def Let_def)
next
  fix p :: bye and h
  assume wf: "Bye_wf p" and hd: "ch_count_or_format h = Bye_fmt p"
    "ch_payload_size h = length (Bye_body p)" "payload h = Bye_body p"
  have count: "unat (ch_count_or_format h) = Suc (length (bye_csrcs p))"
    using wf hd(1) by (simp add: Bye_wf_def unat_of_nat flip: of_nat_Suc)
  show "Bye_Parse h = Some (Inr (id p))"
  proof (cases "bye_reason p = []")
    case True
    then show ?thesis
      using hd(2,3) by (simp add: Bye_Parse_def count Bye_body_def Bye_reason_wire_def wire_simps
        u32.length_enc_all u32.read_items_exact list_all_iff)
  next
    case False
    have rl: "unat (of_nat (length (bye_reason p)) :: byte) = length (bye_reason p)"
      using wf by (simp add: Bye_wf_def unat_of_nat)
    show ?thesis
      using False hd(2,3) by (simp add: Bye_Parse_def count Bye_body_def Bye_reason_wire_def wire_simps
        Let_def rl u32.length_enc_all u32.read_items_enc_all list_all_iff)
  qed
next
  show "Bye_Parse h \<noteq> None" if "valid_header h" for h
    unfolding Bye_Parse_def using that by (intro safeD safe_intros) auto
qed (simp add: Bye_wire_def)

lemma count_lt_32:
  "CommonHeader_Parse buf = Some (Inr h) \<Longrightarrow> unat (ch_count_or_format h) < 32"
  using CommonHeader_Parse_valid(6) [of buf h] by (simp add: word_less_nat_alt)

lemma Bye_Parse_wf:
  assumes "CommonHeader_Parse buf = Some (Inr h)" "Bye_Parse h = Some (Inr p)"
  shows "Bye_wf p"
  using assms(2) count_lt_32 [OF assms(1)]
    read_items_all [of "ReadBigEndian 4 :: _ \<Rightarrow> uint32 option" "\<lambda>_. True", OF TrueI]
  by (auto simp: Bye_Parse_def Bye_wf_def Let_def read_bytes_def less_Suc_eq_le
      split: if_splits Option.bind_splits)

section \<open>Application-defined packet\<close>

record app =
  app_sub_type :: byte
  app_ssrc :: uint32
  app_name :: uint32
  app_data :: "byte list"

abbreviation (input) kAppBaseLength :: nat where
  "kAppBaseLength \<equiv> 8"

abbreviation (input) kMaxDataSize :: nat where
  "kMaxDataSize \<equiv> 0xffff * 4 - kAppBaseLength"

definition App_new :: app where
  "App_new = \<lparr>app_sub_type = 0, app_ssrc = 0, app_name = 0, app_data = []\<rparr>"

definition App_SetSsrc :: "uint32 \<Rightarrow> app \<Rightarrow> app" where
  "App_SetSsrc ssrc p = p\<lparr>app_ssrc := ssrc\<rparr>"

definition App_SetSubType :: "byte \<Rightarrow> app \<Rightarrow> app" where
  "App_SetSubType subtype p = p\<lparr>app_sub_type := subtype\<rparr>"

definition App_SetName :: "uint32 \<Rightarrow> app \<Rightarrow> app" where
  "App_SetName name p = p\<lparr>app_name := name\<rparr>"

definition App_SetData :: "byte list \<Rightarrow> app \<Rightarrow> app" where
  "App_SetData data p = p\<lparr>app_data := data\<rparr>"

definition App_BlockLength :: "app \<Rightarrow> nat" where
  "App_BlockLength p = kHeaderLength + kAppBaseLength + length (app_data p)"

definition App_Parse :: "common_header \<Rightarrow> (rtcp_error + app) option" where
  "App_Parse packet =
     (if ch_payload_size packet < kAppBaseLength then Some (Inl PayloadTooSmall)
      else if ch_payload_size packet mod 4 \<noteq> 0 then Some (Inl InvalidPayloadSize)
      else do {
        ssrc \<leftarrow> ReadBigEndian 4 (drop 0 (payload packet));
        name \<leftarrow> ReadBigEndian 4 (drop 4 (payload packet));
        data \<leftarrow> read_bytes (ch_payload_size packet - kAppBaseLength)
                  (drop kAppBaseLength (payload packet));
        Some (Inr \<lparr>app_sub_type = ch_count_or_format packet, app_ssrc = ssrc, app_name = name,
                    app_data = data\<rparr>) })"

definition App_Create :: "app \<Rightarrow> nat \<Rightarrow> out \<Rightarrow> (bool \<times> out) option" where
  "App_Create p max_length s =
     with_room (App_BlockLength p) max_length (\<lambda>s. do {
       let index_end = index s + App_BlockLength p;
       s \<leftarrow> CreateHeader (app_sub_type p) 204 (HeaderLength (App_BlockLength p)) s;
       s \<leftarrow> put 0 (WriteBigEndian 4 (app_ssrc p)) s;
       s \<leftarrow> put 4 (WriteBigEndian 4 (app_name p)) s;
       s \<leftarrow> put 8 (app_data p) s;
       s \<leftarrow> advance (8 + length (app_data p)) s;
       check_index index_end s }) s"

definition App_body :: "app \<Rightarrow> byte list" where
  "App_body p = WriteBigEndian 4 (app_ssrc p) @ WriteBigEndian 4 (app_name p) @ app_data p"

definition App_wire :: "app \<Rightarrow> byte list" where
  "App_wire p = header_bytes (app_sub_type p) 204 (HeaderLength (App_BlockLength p)) @ App_body p"

text \<open>The setters assert these bounds with \<open>RTC_DCHECK\<close>.\<close>

definition App_wf :: "app \<Rightarrow> bool" where
  "App_wf p \<longleftrightarrow> app_sub_type p \<le> 0x1f \<and> length (app_data p) mod 4 = 0 \<and>
     length (app_data p) \<le> kMaxDataSize"

lemma App_Create_wire:
  "App_Create p maxlen s = with_room (App_BlockLength p) maxlen (emit (App_wire p)) s"
  unfolding App_Create_def App_wire_def App_body_def
  by (rule with_room_cong) (simp add: out_simps App_BlockLength_def)

interpretation app: rtcp_codec App_wf App_BlockLength App_Create App_wire App_Parse 204
  app_sub_type App_body id
proof unfold_locales
  fix p :: app and maxlen s
  show "App_Create p maxlen s = with_room (App_BlockLength p) maxlen (emit (App_wire p)) s"
    by (rule App_Create_wire)
  show "length (App_wire p) = App_BlockLength p"
    by (simp add: App_wire_def App_body_def App_BlockLength_def)
  show "4 dvd App_BlockLength p" if "App_wf p"
    using that by (simp add: App_wf_def App_BlockLength_def dvd_eq_mod_eq_0 flip: mod_add_right_eq)
  show "app_sub_type p < 32" "App_BlockLength p \<le> 262144" if "App_wf p"
    using that by (simp_all add: App_wf_def App_BlockLength_def word_less_nat_alt word_le_nat_alt)
  show "4 \<le> App_BlockLength p" by (simp add: App_BlockLength_def)
next
  fix p :: app and h
  assume wf: "App_wf p" and hd: "ch_count_or_format h = app_sub_type p"
    "ch_payload_size h = length (App_body p)" "payload h = App_body p"
  have "(8 + length (app_data p)) mod 4 = 0"
    using wf by (simp add: App_wf_def flip: mod_add_right_eq)
  then show "App_Parse h = Some (Inr (id p))"
    using hd by (simp add: App_Parse_def App_body_def wire_simps)
next
  show "App_Parse h \<noteq> None" if "valid_header h" for h
    unfolding App_Parse_def using that by (intro safeD safe_intros) auto
qed (simp add: App_wire_def)

section \<open>Source description\<close>

record sdes_chunk =
  chunk_ssrc :: uint32
  chunk_cname :: "byte list"

record sdes =
  sdes_chunks :: "sdes_chunk list"
  sdes_block_length :: nat

abbreviation (input) kTerminatorTag :: byte where "kTerminatorTag \<equiv> 0"
abbreviation (input) kCnameTag :: byte where "kCnameTag \<equiv> 1"
abbreviation (input) kMaxNumberOfChunks :: nat where "kMaxNumberOfChunks \<equiv> 0x1f"

definition ChunkSize :: "sdes_chunk \<Rightarrow> nat" where
  "ChunkSize chunk =
     (let chunk_payload_size = 4 + 1 + 1 + length (chunk_cname chunk);
          padding_size = 4 - chunk_payload_size mod 4
      in chunk_payload_size + padding_size)"

definition Sdes_new :: sdes where
  "Sdes_new = \<lparr>sdes_chunks = [], sdes_block_length = kHeaderLength\<rparr>"

definition Sdes_AddCName :: "uint32 \<Rightarrow> byte list \<Rightarrow> sdes \<Rightarrow> bool \<times> sdes" where
  "Sdes_AddCName ssrc cname p =
     (if length (sdes_chunks p) \<ge> kMaxNumberOfChunks then (False, p)
      else let chunk = \<lparr>chunk_ssrc = ssrc, chunk_cname = cname\<rparr> in
        (True, p\<lparr>sdes_chunks := sdes_chunks p @ [chunk],
                 sdes_block_length := sdes_block_length p + ChunkSize chunk\<rparr>))"

definition Sdes_BlockLength :: "sdes \<Rightarrow> nat" where
  "Sdes_BlockLength p = sdes_block_length p"

text \<open>
  The items of one chunk: \<open>looking_at\<close> is the rest of the payload, \<open>cname\<close> the CNAME found so
  far. The result is the CNAME, if any, and the position behind the terminator.
\<close>

function Sdes_ParseItems ::
  "byte list \<Rightarrow> byte list option \<Rightarrow> (rtcp_error + byte list option \<times> byte list) option" where
  "Sdes_ParseItems looking_at cname = do {
     item_type \<leftarrow> byte_at looking_at 0;
     let looking_at = drop 1 looking_at;
     if item_type = kTerminatorTag then Some (Inr (cname, looking_at))
     else if looking_at = [] then Some (Inl UnexpectedEndOfPacket)
     else do {
       item_length \<leftarrow> map_option unat (byte_at looking_at 0);
       let looking_at = drop 1 looking_at;
       if item_length + 1 > length looking_at then Some (Inl UnexpectedEndOfPacket)
       else if item_type = kCnameTag then
         (if cname \<noteq> None then Some (Inl ExtraCname)
          else Sdes_ParseItems (drop item_length looking_at) (Some (take item_length looking_at)))
       else Sdes_ParseItems (drop item_length looking_at) cname } }"
  by pat_completeness auto
termination
  by (relation "measure (\<lambda>(looking_at, _). length looking_at)") (auto simp: byte_at_def split: if_splits)

declare Sdes_ParseItems.simps [simp del]

text \<open>
  The loop over chunks. \<open>i\<close> grows or \<open>number_of_chunks\<close> shrinks by one in each round, so the
  recursion is on their difference. A chunk without CNAME is dropped, not rejected.
\<close>

fun Sdes_ParseChunks ::
  "nat \<Rightarrow> byte list \<Rightarrow> sdes_chunk list \<Rightarrow> nat \<Rightarrow> (rtcp_error + sdes_chunk list \<times> nat) option" where
  "Sdes_ParseChunks 0 looking_at chunks block_length = Some (Inr (chunks, block_length))"
| "Sdes_ParseChunks (Suc n) looking_at chunks block_length =
     (if length looking_at < 8 then Some (Inl NotEnoughSpaceForChunk)
      else do {
        ssrc \<leftarrow> ReadBigEndian 4 looking_at;
        r \<leftarrow> Sdes_ParseItems (drop 4 looking_at) None;
        (case r of
           Inl e \<Rightarrow> Some (Inl e)
         | Inr (cname, looking_at) \<Rightarrow>
             let looking_at = drop (length looking_at mod 4) looking_at in
             if cname \<noteq> None then
               (let chunk = \<lparr>chunk_ssrc = ssrc, chunk_cname = the cname\<rparr> in
                Sdes_ParseChunks n looking_at (chunks @ [chunk]) (block_length + ChunkSize chunk))
             else Sdes_ParseChunks n looking_at chunks block_length) })"

definition Sdes_Parse :: "common_header \<Rightarrow> (rtcp_error + sdes) option" where
  "Sdes_Parse packet = do {
     r \<leftarrow> Sdes_ParseChunks (unat (ch_count_or_format packet)) (payload packet) [] kHeaderLength;
     (case r of
        Inl e \<Rightarrow> Some (Inl e)
      | Inr (chunks, block_length) \<Rightarrow>
          Some (Inr \<lparr>sdes_chunks = chunks, sdes_block_length = block_length\<rparr>)) }"

definition Sdes_CreateChunk :: "sdes_chunk \<Rightarrow> out \<Rightarrow> out option" where
  "Sdes_CreateChunk chunk s = do {
     s \<leftarrow> put 0 (WriteBigEndian 4 (chunk_ssrc chunk)) s;
     s \<leftarrow> put 4 (WriteBigEndian 1 kCnameTag) s;
     s \<leftarrow> put 5 (WriteBigEndian 1 (of_nat (length (chunk_cname chunk)) :: byte)) s;
     s \<leftarrow> put 6 (chunk_cname chunk) s;
     s \<leftarrow> advance (6 + length (chunk_cname chunk)) s;
     let padding_size = 4 - (6 + length (chunk_cname chunk)) mod 4;
     s \<leftarrow> put 0 (replicate padding_size 0) s;
     advance padding_size s }"

definition Sdes_Create :: "sdes \<Rightarrow> nat \<Rightarrow> out \<Rightarrow> (bool \<times> out) option" where
  "Sdes_Create p max_length s =
     with_room (Sdes_BlockLength p) max_length (\<lambda>s. do {
       let index_end = index s + Sdes_BlockLength p;
       s \<leftarrow> CreateHeader (of_nat (length (sdes_chunks p))) 202 (HeaderLength (Sdes_BlockLength p)) s;
       s \<leftarrow> for_each Sdes_CreateChunk (sdes_chunks p) s;
       check_index index_end s }) s"

definition SdesChunk_wire :: "sdes_chunk \<Rightarrow> byte list" where
  "SdesChunk_wire c = WriteBigEndian 4 (chunk_ssrc c) @
     [kCnameTag, of_nat (length (chunk_cname c))] @ chunk_cname c @
     replicate (4 - (6 + length (chunk_cname c)) mod 4) kTerminatorTag"

definition Sdes_body :: "sdes \<Rightarrow> byte list" where
  "Sdes_body p = concat (map SdesChunk_wire (sdes_chunks p))"

abbreviation (input) Sdes_fmt :: "sdes \<Rightarrow> byte" where
  "Sdes_fmt p \<equiv> of_nat (length (sdes_chunks p))"

definition Sdes_wire :: "sdes \<Rightarrow> byte list" where
  "Sdes_wire p = header_bytes (Sdes_fmt p) 202 (HeaderLength (Sdes_BlockLength p)) @ Sdes_body p"

definition Sdes_wf :: "sdes \<Rightarrow> bool" where
  "Sdes_wf p \<longleftrightarrow> length (sdes_chunks p) \<le> kMaxNumberOfChunks \<and>
     list_all (\<lambda>c. length (chunk_cname c) \<le> 0xff) (sdes_chunks p) \<and>
     sdes_block_length p = kHeaderLength + sum_list (map ChunkSize (sdes_chunks p))"

lemma ChunkSize_bounds: "4 dvd ChunkSize c" "8 \<le> ChunkSize c" "ChunkSize c \<le> length (chunk_cname c) + 10"
  unfolding ChunkSize_def Let_def by presburger+

lemma length_SdesChunk_wire [simp]: "length (SdesChunk_wire c) = ChunkSize c"
  by (simp add: SdesChunk_wire_def ChunkSize_def)

lemma length_Sdes_body: "length (Sdes_body p) = sum_list (map ChunkSize (sdes_chunks p))"
  by (simp add: Sdes_body_def length_concat comp_def)

lemma sum_ChunkSize_dvd: "4 dvd sum_list (map ChunkSize cs)"
  by (induction cs) (simp_all add: ChunkSize_bounds)

lemma sum_ChunkSize_le:
  "list_all (\<lambda>c. length (chunk_cname c) \<le> 255) cs \<Longrightarrow> sum_list (map ChunkSize cs) \<le> 265 * length cs"
proof (induction cs)
  case (Cons c cs)
  then show ?case using ChunkSize_bounds(3) [of c] by simp
qed simp

lemma Sdes_CreateChunk_emit: "Sdes_CreateChunk c s = emit (SdesChunk_wire c) s"
  by (simp add: Sdes_CreateChunk_def SdesChunk_wire_def out_simps Let_def)

lemma Sdes_Create_wire:
  assumes "Sdes_wf p"
  shows "Sdes_Create p maxlen s = with_room (Sdes_BlockLength p) maxlen (emit (Sdes_wire p)) s"
  unfolding Sdes_Create_def Sdes_wire_def
  using assms length_Sdes_body [of p] by (intro with_room_cong)
    (simp add: out_simps Sdes_CreateChunk_emit Sdes_body_def Sdes_wf_def Sdes_BlockLength_def)

lemma Sdes_ParseItems_safe: "looking_at \<noteq> [] \<Longrightarrow> safe (Sdes_ParseItems looking_at cname)"
proof (induction looking_at cname rule: Sdes_ParseItems.induct)
  case (1 looking_at cname)
  show ?case
    by (subst Sdes_ParseItems.simps)
      (auto intro!: safe_intros "1.IH" simp: "1.prems" byte_at_def split: if_splits)
qed

lemma Sdes_ParseChunks_safe: "safe (Sdes_ParseChunks n looking_at chunks block_length)"
  by (induction n arbitrary: looking_at chunks block_length)
    (auto intro!: safe_intros Sdes_ParseItems_safe simp: Let_def split: prod.splits)

lemma Sdes_ParseItems_cname:
  assumes "length cname \<le> 255"
  shows "Sdes_ParseItems ([kCnameTag, of_nat (length cname)] @ cname @ kTerminatorTag # rest) None =
     Some (Inr (Some cname, rest))"
  using assms by (simp add: Sdes_ParseItems.simps unat_of_nat)

lemma Sdes_ParseChunks_chunk:
  assumes "length (chunk_cname c) \<le> 255" "4 dvd length rest"
  shows "Sdes_ParseChunks (Suc n) (SdesChunk_wire c @ rest) cs bl =
     Sdes_ParseChunks n rest (cs @ [c]) (bl + ChunkSize c)"
proof -
  let ?k = "3 - (6 + length (chunk_cname c)) mod 4"
  have k: "4 - (6 + length (chunk_cname c)) mod 4 = Suc ?k" by presburger
  have items: "drop 4 (SdesChunk_wire c @ rest) =
      [kCnameTag, of_nat (length (chunk_cname c))] @ chunk_cname c @
      kTerminatorTag # (replicate ?k kTerminatorTag @ rest)"
    unfolding SdesChunk_wire_def k by simp
  obtain j where "length rest = 4 * j" using assms(2) by blast
  then have "(?k + length rest) mod 4 = ?k mod 4" by (simp only: mod_mult_self2)
  then have al: "(?k + length rest) mod 4 = ?k" by simp
  let ?pad = "replicate ?k kTerminatorTag @ rest"
  have skip: "drop (length ?pad mod 4) ?pad = rest"
    unfolding length_append length_replicate al by simp
  have ssrc: "ReadBigEndian 4 (SdesChunk_wire c @ rest) = Some (chunk_ssrc c)"
    by (simp add: SdesChunk_wire_def wire_simps)
  have parsed: "Sdes_ParseItems (drop 4 (SdesChunk_wire c @ rest)) None =
      Some (Inr (Some (chunk_cname c), ?pad))"
    unfolding items by (rule Sdes_ParseItems_cname [OF assms(1)])
  have eta: "\<lparr>chunk_ssrc = chunk_ssrc c, chunk_cname = chunk_cname c\<rparr> = c" by simp
  have "\<not> length (SdesChunk_wire c @ rest) < 8" using ChunkSize_bounds(2) [of c] by simp
  then show ?thesis
    unfolding Sdes_ParseChunks.simps ssrc parsed by (simp add: skip Let_def eta del: drop_append length_append)
qed

lemma Sdes_ParseChunks_all:
  "list_all (\<lambda>c. length (chunk_cname c) \<le> 255) new \<Longrightarrow>
   Sdes_ParseChunks (length new) (concat (map SdesChunk_wire new)) cs bl =
     Some (Inr (cs @ new, bl + sum_list (map ChunkSize new)))"
proof (induction new arbitrary: cs bl)
  case (Cons c new)
  have "4 dvd length (concat (map SdesChunk_wire new))"
    by (simp add: length_concat comp_def sum_ChunkSize_dvd)
  then show ?case
    using Sdes_ParseChunks_chunk [of c "concat (map SdesChunk_wire new)" "length new" cs bl] Cons
    by (simp del: Sdes_ParseChunks.simps add: add.assoc)
qed simp

interpretation sdes: rtcp_codec Sdes_wf Sdes_BlockLength Sdes_Create Sdes_wire Sdes_Parse 202
  Sdes_fmt Sdes_body id
proof unfold_locales
  fix p :: sdes and maxlen s
  show "Sdes_Create p maxlen s = with_room (Sdes_BlockLength p) maxlen (emit (Sdes_wire p)) s"
    if "Sdes_wf p"
    using that by (rule Sdes_Create_wire)
  assume wf: "Sdes_wf p"
  show "length (Sdes_wire p) = Sdes_BlockLength p"
    using wf by (simp add: Sdes_wire_def length_Sdes_body Sdes_BlockLength_def Sdes_wf_def)
  show "4 dvd Sdes_BlockLength p" "4 \<le> Sdes_BlockLength p"
    using wf sum_ChunkSize_dvd [of "sdes_chunks p"] by (simp_all add: Sdes_BlockLength_def Sdes_wf_def)
  show "Sdes_fmt p < 32"
    using wf by (simp add: Sdes_wf_def word_less_nat_alt unat_of_nat)
  show "Sdes_BlockLength p \<le> 262144"
    using wf sum_ChunkSize_le [of "sdes_chunks p"] by (simp add: Sdes_wf_def Sdes_BlockLength_def)
next
  fix p :: sdes and h
  assume "Sdes_wf p" "ch_count_or_format h = Sdes_fmt p" "payload h = Sdes_body p"
  then show "Sdes_Parse h = Some (Inr (id p))"
    by (simp add: Sdes_Parse_def Sdes_body_def Sdes_wf_def unat_of_nat Sdes_ParseChunks_all)
next
  show "Sdes_Parse h \<noteq> None" for h
    unfolding Sdes_Parse_def by (intro safeD safe_intros Sdes_ParseChunks_safe)
qed (simp add: Sdes_wire_def)

lemma Sdes_ParseItems_cname_short:
  "Sdes_ParseItems looking_at cname = Some (Inr (found, rest)) \<Longrightarrow>
   (\<forall>c. cname = Some c \<longrightarrow> length c \<le> 255) \<Longrightarrow> found = Some c \<Longrightarrow> length c \<le> 255"
proof (induction looking_at cname rule: Sdes_ParseItems.induct)
  case (1 looking_at cname)
  from "1.prems"(1) show ?case
    by (subst (asm) Sdes_ParseItems.simps)
      (auto simp: "1.prems" Let_def min.coboundedI2 split: if_splits Option.bind_splits
        intro: "1.IH" [OF _ refl _ _ _ refl])
qed

lemma Sdes_ParseChunks_wf:
  "Sdes_ParseChunks n looking_at chunks bl = Some (Inr (chunks', bl')) \<Longrightarrow>
   list_all (\<lambda>c. length (chunk_cname c) \<le> 255) chunks \<Longrightarrow>
   bl = 4 + sum_list (map ChunkSize chunks) \<Longrightarrow>
   length chunks' \<le> length chunks + n \<and> list_all (\<lambda>c. length (chunk_cname c) \<le> 255) chunks' \<and>
   bl' = 4 + sum_list (map ChunkSize chunks')"
proof (induction n arbitrary: looking_at chunks bl)
  case (Suc n)
  from Suc.prems obtain ssrc cname rest where
    items: "Sdes_ParseItems (drop 4 looking_at) None = Some (Inr (cname, rest))"
    and rec: "(case cname of
        None \<Rightarrow> Sdes_ParseChunks n (drop (length rest mod 4) rest) chunks bl
      | Some c \<Rightarrow> Sdes_ParseChunks n (drop (length rest mod 4) rest)
          (chunks @ [\<lparr>chunk_ssrc = ssrc, chunk_cname = c\<rparr>])
          (bl + ChunkSize \<lparr>chunk_ssrc = ssrc, chunk_cname = c\<rparr>)) = Some (Inr (chunks', bl'))"
    by (auto simp: Let_def split: if_splits Option.bind_splits sum.splits prod.splits)
  show ?case
  proof (cases cname)
    case None
    then show ?thesis using Suc.IH [of "drop (length rest mod 4) rest" chunks bl] rec Suc.prems by simp
  next
    case (Some c)
    have "length c \<le> 255"
      by (rule Sdes_ParseItems_cname_short [OF items _ Some]) simp
    with Some Suc.IH [OF rec [unfolded Some option.case]] Suc.prems show ?thesis by simp
  qed
qed simp

lemma Sdes_Parse_wf:
  assumes "CommonHeader_Parse buf = Some (Inr h)" "Sdes_Parse h = Some (Inr p)"
  shows "Sdes_wf p"
  using assms(2) count_lt_32 [OF assms(1)] Sdes_ParseChunks_wf [of "unat (ch_count_or_format h)" "payload h" "[]" 4]
  by (fastforce simp: Sdes_Parse_def Sdes_wf_def split: Option.bind_splits sum.splits)

section \<open>Properties\<close>

text \<open>
  Round trip of BYE: the sources and the reason of every well-formed packet survive building
  and parsing, and every BYE the parser accepts is well-formed, so it can be built again.
\<close>

theorem Bye_roundtrip:
  assumes "Bye_wf p \<or> (\<exists>buf h. CommonHeader_Parse buf = Some (Inr h) \<and> Bye_Parse h = Some (Inr p))"
    and "length mem = Bye_BlockLength p"
  shows "Option.bind (Build (Bye_Create p) mem) (ParseSinglePacket Bye_Parse) = Some (Inr p)"
  using bye.Build_Parse [of p mem] Bye_Parse_wf assms by auto

theorem Bye_roundtrip_witness:
  "let p = Bye_SetReason [0x62, 0x79, 0x65] (snd (Bye_SetCsrcs [7, 8] Bye_new))
   in Bye_BlockLength p = 20 \<and>
      Option.bind (Build (Bye_Create p) (replicate 20 5)) (ParseSinglePacket Bye_Parse) = Some (Inr p)"
proof -
  let ?p = "Bye_SetReason [0x62, 0x79, 0x65] (snd (Bye_SetCsrcs [7, 8] Bye_new))"
  have "Bye_BlockLength ?p = 20" "Bye_wf ?p"
    by (simp_all add: Bye_SetReason_def Bye_SetCsrcs_def Bye_new_def Bye_BlockLength_def Bye_wf_def)
  then show ?thesis using Bye_roundtrip [of ?p "replicate 20 5"] by (simp add: Let_def)
qed

text \<open>
  Round trip of APP, for a five bit subtype and data of whole 32 bit words.
\<close>

theorem App_roundtrip:
  assumes "app_sub_type p \<le> 0x1f" "length (app_data p) mod 4 = 0" "length (app_data p) \<le> kMaxDataSize"
    and "length mem = App_BlockLength p"
  shows "Option.bind (Build (App_Create p) mem) (ParseSinglePacket App_Parse) = Some (Inr p)"
  using app.Build_Parse [of p mem] assms by (simp add: App_wf_def)

theorem App_roundtrip_witness:
  "let p = App_SetData [1, 2, 3, 4] (App_SetName 0x4e414d45 (App_SetSubType 30 App_new))
   in Option.bind (Build (App_Create p) (replicate 16 0)) (ParseSinglePacket App_Parse) = Some (Inr p)"
  using App_roundtrip [of "App_SetData [1, 2, 3, 4] (App_SetName 0x4e414d45 (App_SetSubType 30 App_new))"
      "replicate 16 0"]
  by (simp add: App_SetData_def App_SetName_def App_SetSubType_def App_new_def App_BlockLength_def)

text \<open>
  C32. Round trip of SDES: the chunks (source and canonical name) of every well-formed packet
  survive, although each chunk is padded to a word boundary, and so do the chunks of every packet
  the parser has accepted.
\<close>

theorem Sdes_roundtrip:
  assumes "Sdes_wf p \<or> (\<exists>buf h. CommonHeader_Parse buf = Some (Inr h) \<and> Sdes_Parse h = Some (Inr p))"
    and "length mem = Sdes_BlockLength p"
  shows "Option.bind (Build (Sdes_Create p) mem) (ParseSinglePacket Sdes_Parse) = Some (Inr p)"
  using sdes.Build_Parse [of p mem] Sdes_Parse_wf assms by auto

theorem Sdes_roundtrip_witness:
  "let p = snd (Sdes_AddCName 5 [0x61] (snd (Sdes_AddCName 9 [] Sdes_new)))
   in Sdes_BlockLength p = 20 \<and>
      Option.bind (Build (Sdes_Create p) (replicate 20 0)) (ParseSinglePacket Sdes_Parse) = Some (Inr p)"
proof -
  let ?p = "snd (Sdes_AddCName 5 [0x61] (snd (Sdes_AddCName 9 [] Sdes_new)))"
  have "Sdes_BlockLength ?p = 20" "Sdes_wf ?p"
    by (simp_all add: Sdes_AddCName_def Sdes_new_def Sdes_BlockLength_def Sdes_wf_def ChunkSize_def)
  then show ?thesis using Sdes_roundtrip [of ?p "replicate 20 0"] by (simp add: Let_def)
qed

end
