(* ===== verification/RtcpFeedback.thy ===== *)
theory RtcpFeedback
  imports RtcpBase
begin

text \<open>
  Feedback messages with a fixed layout or a list of fixed size items: the common part of
  \<open>psfb.cc\<close> and \<open>rtpfb.cc\<close>, and \<open>pli.cc\<close>, \<open>rapid_resync_request.cc\<close>, \<open>fir.cc\<close>, \<open>sli.cc\<close>
  and \<open>rpsi.cc\<close>, whose picture id is a base 128 number of variable length.
  The classes derived from \<open>Psfb\<close> and \<open>Rtpfb\<close> are records that extend \<open>common_feedback\<close>.
\<close>

section \<open>Common feedback part\<close>

record common_feedback =
  fb_sender_ssrc :: uint32
  fb_media_ssrc :: uint32

abbreviation (input) kCommonFeedbackLength :: nat where
  "kCommonFeedbackLength \<equiv> 8"

definition Psfb_SetSenderSsrc :: "uint32 \<Rightarrow> 'a common_feedback_scheme \<Rightarrow> 'a common_feedback_scheme" where
  "Psfb_SetSenderSsrc ssrc p = p\<lparr>fb_sender_ssrc := ssrc\<rparr>"

definition Psfb_SetMediaSsrc :: "uint32 \<Rightarrow> 'a common_feedback_scheme \<Rightarrow> 'a common_feedback_scheme" where
  "Psfb_SetMediaSsrc ssrc p = p\<lparr>fb_media_ssrc := ssrc\<rparr>"

definition Psfb_ParseCommonFeedback :: "byte list \<Rightarrow> (uint32 \<times> uint32) option" where
  "Psfb_ParseCommonFeedback data = do {
     sender_ssrc \<leftarrow> ReadBigEndian 4 (drop 0 data);
     media_ssrc \<leftarrow> ReadBigEndian 4 (drop 4 data);
     Some (sender_ssrc, media_ssrc) }"

definition Psfb_CreateCommonFeedback :: "'a common_feedback_scheme \<Rightarrow> out \<Rightarrow> out option" where
  "Psfb_CreateCommonFeedback p s = do {
     s \<leftarrow> put 0 (WriteBigEndian 4 (fb_sender_ssrc p)) s;
     put 4 (WriteBigEndian 4 (fb_media_ssrc p)) s }"

definition Rtpfb_SetSenderSsrc :: "uint32 \<Rightarrow> 'a common_feedback_scheme \<Rightarrow> 'a common_feedback_scheme" where
  "Rtpfb_SetSenderSsrc ssrc p = p\<lparr>fb_sender_ssrc := ssrc\<rparr>"

definition Rtpfb_SetMediaSsrc :: "uint32 \<Rightarrow> 'a common_feedback_scheme \<Rightarrow> 'a common_feedback_scheme" where
  "Rtpfb_SetMediaSsrc ssrc p = p\<lparr>fb_media_ssrc := ssrc\<rparr>"

definition Rtpfb_ParseCommonFeedback :: "byte list \<Rightarrow> (uint32 \<times> uint32) option" where
  "Rtpfb_ParseCommonFeedback data = do {
     sender_ssrc \<leftarrow> ReadBigEndian 4 (drop 0 data);
     media_ssrc \<leftarrow> ReadBigEndian 4 (drop 4 data);
     Some (sender_ssrc, media_ssrc) }"

definition Rtpfb_CreateCommonFeedback :: "'a common_feedback_scheme \<Rightarrow> out \<Rightarrow> out option" where
  "Rtpfb_CreateCommonFeedback p s = do {
     s \<leftarrow> put 0 (WriteBigEndian 4 (fb_sender_ssrc p)) s;
     put 4 (WriteBigEndian 4 (fb_media_ssrc p)) s }"

definition common_wire :: "'a common_feedback_scheme \<Rightarrow> byte list" where
  "common_wire p = WriteBigEndian 4 (fb_sender_ssrc p) @ WriteBigEndian 4 (fb_media_ssrc p)"

lemma length_common_wire [simp]: "length (common_wire p) = 8"
  by (simp add: common_wire_def)

lemma Rtpfb_CreateCommonFeedback_eq [out_simps]:
  "Rtpfb_CreateCommonFeedback = Psfb_CreateCommonFeedback"
  by (simp add: fun_eq_iff Rtpfb_CreateCommonFeedback_def Psfb_CreateCommonFeedback_def)

lemma Rtpfb_ParseCommonFeedback_eq [wire_simps, simp]:
  "Rtpfb_ParseCommonFeedback = Psfb_ParseCommonFeedback"
  by (simp add: fun_eq_iff Rtpfb_ParseCommonFeedback_def Psfb_ParseCommonFeedback_def)

lemma CreateCommonFeedback_emit_bind [out_simps]:
  "Option.bind (Psfb_CreateCommonFeedback p s) (\<lambda>s. Option.bind (advance 8 s) f) =
     Option.bind (emit (common_wire p) s) f"
  by (simp add: Psfb_CreateCommonFeedback_def common_wire_def out_simps put_put)

lemma CreateCommonFeedback_emit [out_simps]:
  "Option.bind (Psfb_CreateCommonFeedback p s) (advance 8) = emit (common_wire p) s"
  by (simp add: Psfb_CreateCommonFeedback_def common_wire_def out_simps put_put)

lemma ParseCommonFeedback_wire [wire_simps]:
  "Psfb_ParseCommonFeedback (common_wire p @ rest) = Some (fb_sender_ssrc p, fb_media_ssrc p)"
  "Psfb_ParseCommonFeedback (common_wire p) = Some (fb_sender_ssrc p, fb_media_ssrc p)"
  by (simp_all add: Psfb_ParseCommonFeedback_def common_wire_def wire_simps)

lemma safe_ParseCommonFeedback [safe_intros]:
  "8 \<le> length data \<Longrightarrow> safe (Psfb_ParseCommonFeedback data)"
  "8 \<le> length data \<Longrightarrow> safe (Rtpfb_ParseCommonFeedback data)"
  unfolding Psfb_ParseCommonFeedback_def Rtpfb_ParseCommonFeedback_def
  by (intro safe_intros; simp)+

section \<open>Picture loss indication\<close>

type_synonym pli = common_feedback

definition Pli_new :: pli where
  "Pli_new = \<lparr>fb_sender_ssrc = 0, fb_media_ssrc = 0\<rparr>"

definition Pli_BlockLength :: "pli \<Rightarrow> nat" where
  "Pli_BlockLength p = kHeaderLength + kCommonFeedbackLength"

definition Pli_Parse :: "common_header \<Rightarrow> (rtcp_error + pli) option" where
  "Pli_Parse packet =
     (if ch_payload_size packet < kCommonFeedbackLength then Some (Inl PayloadTooSmall)
      else do {
        (sender_ssrc, media_ssrc) \<leftarrow> Psfb_ParseCommonFeedback (payload packet);
        Some (Inr \<lparr>fb_sender_ssrc = sender_ssrc, fb_media_ssrc = media_ssrc\<rparr>) })"

definition Pli_Create :: "pli \<Rightarrow> nat \<Rightarrow> out \<Rightarrow> (bool \<times> out) option" where
  "Pli_Create p max_length s =
     with_room (Pli_BlockLength p) max_length (\<lambda>s. do {
       s \<leftarrow> CreateHeader 1 206 (HeaderLength (Pli_BlockLength p)) s;
       s \<leftarrow> Psfb_CreateCommonFeedback p s;
       advance kCommonFeedbackLength s }) s"

definition Pli_wire :: "pli \<Rightarrow> byte list" where
  "Pli_wire p = header_bytes 1 206 2 @ common_wire p"

interpretation pli: rtcp_codec "\<lambda>_. True" Pli_BlockLength Pli_Create Pli_wire Pli_Parse 206
  "\<lambda>_. 1" common_wire id
proof unfold_locales
  fix p :: pli and maxlen s
  show "Pli_Create p maxlen s = with_room (Pli_BlockLength p) maxlen (emit (Pli_wire p)) s"
    by (simp add: Pli_Create_def Pli_wire_def Pli_BlockLength_def HeaderLength_def out_simps)
  show "Pli_Parse h \<noteq> None" if "valid_header h" for h
    unfolding Pli_Parse_def using that by (intro safeD safe_intros) auto
qed (simp_all add: Pli_wire_def Pli_BlockLength_def HeaderLength_def Pli_Parse_def wire_simps)

section \<open>Rapid resynchronisation request\<close>

type_synonym rapid_resync_request = common_feedback

definition RapidResyncRequest_BlockLength :: "rapid_resync_request \<Rightarrow> nat" where
  "RapidResyncRequest_BlockLength p = kHeaderLength + kCommonFeedbackLength"

definition RapidResyncRequest_Parse ::
  "common_header \<Rightarrow> (rtcp_error + rapid_resync_request) option" where
  "RapidResyncRequest_Parse packet =
     (if ch_payload_size packet \<noteq> kCommonFeedbackLength then Some (Inl InvalidPayloadSize)
      else do {
        (sender_ssrc, media_ssrc) \<leftarrow> Rtpfb_ParseCommonFeedback (payload packet);
        Some (Inr \<lparr>fb_sender_ssrc = sender_ssrc, fb_media_ssrc = media_ssrc\<rparr>) })"

definition RapidResyncRequest_Create ::
  "rapid_resync_request \<Rightarrow> nat \<Rightarrow> out \<Rightarrow> (bool \<times> out) option" where
  "RapidResyncRequest_Create p max_length s =
     with_room (RapidResyncRequest_BlockLength p) max_length (\<lambda>s. do {
       s \<leftarrow> CreateHeader 5 205 (HeaderLength (RapidResyncRequest_BlockLength p)) s;
       s \<leftarrow> Rtpfb_CreateCommonFeedback p s;
       advance kCommonFeedbackLength s }) s"

definition RapidResyncRequest_wire :: "rapid_resync_request \<Rightarrow> byte list" where
  "RapidResyncRequest_wire p = header_bytes 5 205 2 @ common_wire p"

interpretation rapid_resync_request: rtcp_codec "\<lambda>_. True" RapidResyncRequest_BlockLength
  RapidResyncRequest_Create RapidResyncRequest_wire RapidResyncRequest_Parse 205 "\<lambda>_. 5"
  common_wire id
proof unfold_locales
  fix p :: rapid_resync_request and maxlen s
  show "RapidResyncRequest_Create p maxlen s =
      with_room (RapidResyncRequest_BlockLength p) maxlen (emit (RapidResyncRequest_wire p)) s"
    by (simp add: RapidResyncRequest_Create_def RapidResyncRequest_wire_def
        RapidResyncRequest_BlockLength_def HeaderLength_def out_simps)
  show "RapidResyncRequest_Parse h \<noteq> None" if "valid_header h" for h
    unfolding RapidResyncRequest_Parse_def using that by (intro safeD safe_intros) auto
qed (simp_all add: RapidResyncRequest_wire_def RapidResyncRequest_BlockLength_def HeaderLength_def
    RapidResyncRequest_Parse_def wire_simps)

section \<open>Full intra request\<close>

record fir_request =
  req_ssrc :: uint32
  req_seq_nr :: byte

record fir = common_feedback +
  fir_items :: "fir_request list"

abbreviation (input) kFciLength :: nat where "kFciLength \<equiv> 8"

definition Fir_new :: fir where
  "Fir_new = \<lparr>fb_sender_ssrc = 0, fb_media_ssrc = 0, fir_items = []\<rparr>"

definition Fir_AddRequestTo :: "uint32 \<Rightarrow> byte \<Rightarrow> fir \<Rightarrow> fir" where
  "Fir_AddRequestTo ssrc seq_num p =
     p\<lparr>fir_items := fir_items p @ [\<lparr>req_ssrc = ssrc, req_seq_nr = seq_num\<rparr>]\<rparr>"

definition Fir_BlockLength :: "fir \<Rightarrow> nat" where
  "Fir_BlockLength p = kHeaderLength + kCommonFeedbackLength + kFciLength * length (fir_items p)"

definition Fir_ParseItem :: "byte list \<Rightarrow> fir_request option" where
  "Fir_ParseItem next_fci = do {
     ssrc \<leftarrow> ReadBigEndian 4 next_fci;
     seq_nr \<leftarrow> ReadBigEndian 1 (drop 4 next_fci);
     Some \<lparr>req_ssrc = ssrc, req_seq_nr = seq_nr\<rparr> }"

definition Fir_Parse :: "common_header \<Rightarrow> (rtcp_error + fir) option" where
  "Fir_Parse packet =
     (if ch_payload_size packet < kCommonFeedbackLength + kFciLength then Some (Inl PayloadTooSmall)
      else if (ch_payload_size packet - kCommonFeedbackLength) mod kFciLength \<noteq> 0
      then Some (Inl InvalidPayloadSize)
      else do {
        (sender_ssrc, media_ssrc) \<leftarrow> Psfb_ParseCommonFeedback (payload packet);
        let number_of_fci_items = (ch_payload_size packet - kCommonFeedbackLength) div kFciLength;
        items \<leftarrow> read_items Fir_ParseItem kFciLength number_of_fci_items
                   (drop kCommonFeedbackLength (payload packet));
        Some (Inr \<lparr>fb_sender_ssrc = sender_ssrc, fb_media_ssrc = media_ssrc, fir_items = items\<rparr>) })"

definition Fir_CreateItem :: "fir_request \<Rightarrow> out \<Rightarrow> out option" where
  "Fir_CreateItem request s = do {
     s \<leftarrow> put 0 (WriteBigEndian 4 (req_ssrc request)) s;
     s \<leftarrow> put 4 (WriteBigEndian 1 (req_seq_nr request)) s;
     s \<leftarrow> put 5 (WriteBigEndian 3 (0 :: uint32)) s;
     advance kFciLength s }"

definition Fir_Create :: "fir \<Rightarrow> nat \<Rightarrow> out \<Rightarrow> (bool \<times> out) option" where
  "Fir_Create p max_length s =
     with_room (Fir_BlockLength p) max_length (\<lambda>s. do {
       let index_end = index s + Fir_BlockLength p;
       s \<leftarrow> CreateHeader 4 206 (HeaderLength (Fir_BlockLength p)) s;
       s \<leftarrow> Psfb_CreateCommonFeedback p s;
       s \<leftarrow> advance kCommonFeedbackLength s;
       s \<leftarrow> for_each Fir_CreateItem (fir_items p) s;
       check_index index_end s }) s"

definition FirRequest_wire :: "fir_request \<Rightarrow> byte list" where
  "FirRequest_wire r =
     WriteBigEndian 4 (req_ssrc r) @ [req_seq_nr r] @ WriteBigEndian 3 (0 :: uint32)"

definition Fir_body :: "fir \<Rightarrow> byte list" where
  "Fir_body p = common_wire p @ concat (map FirRequest_wire (fir_items p))"

definition Fir_wire :: "fir \<Rightarrow> byte list" where
  "Fir_wire p = header_bytes 4 206 (HeaderLength (Fir_BlockLength p)) @ Fir_body p"

text \<open>The code limits the number of requests only by the assertions of \<open>CreateHeader\<close>.\<close>

definition Fir_wf :: "fir \<Rightarrow> bool" where
  "Fir_wf p \<longleftrightarrow> fir_items p \<noteq> [] \<and> Fir_BlockLength p \<le> 262144"

interpretation fir_request: item_codec FirRequest_wire Fir_ParseItem 8 "\<lambda>_. True"
proof unfold_locales
  show "\<exists>x. Fir_ParseItem data = Some x" if "8 \<le> length data" for data
    using that by (auto simp: Fir_ParseItem_def ReadBigEndian_eq)
qed (simp_all add: FirRequest_wire_def Fir_ParseItem_def wire_simps)

declare fir_request.safe_read_items [safe_intros]

lemma Fir_CreateItem_emit: "Fir_CreateItem r s = emit (FirRequest_wire r) s"
  by (simp add: Fir_CreateItem_def FirRequest_wire_def out_simps)

interpretation fir: rtcp_codec Fir_wf Fir_BlockLength Fir_Create Fir_wire Fir_Parse 206 "\<lambda>_. 4"
  Fir_body id
proof unfold_locales
  fix p :: fir and maxlen s
  show "Fir_Create p maxlen s = with_room (Fir_BlockLength p) maxlen (emit (Fir_wire p)) s"
    unfolding Fir_Create_def Fir_wire_def Fir_body_def
    by (rule with_room_cong) (simp add: out_simps Fir_CreateItem_emit
        fir_request.length_enc_all Fir_BlockLength_def)
  show "length (Fir_wire p) = Fir_BlockLength p"
    by (simp add: Fir_wire_def Fir_body_def Fir_BlockLength_def fir_request.length_enc_all)
  show "4 dvd Fir_BlockLength p" "4 \<le> Fir_BlockLength p"
    by (simp_all add: Fir_BlockLength_def)
next
  fix p :: fir and h
  assume "Fir_wf p" "ch_payload_size h = length (Fir_body p)" "payload h = Fir_body p"
  then show "Fir_Parse h = Some (Inr (id p))"
    by (simp add: Fir_Parse_def Fir_body_def Fir_wf_def wire_simps fir_request.length_enc_all
        fir_request.read_items_exact list_all_iff Suc_le_eq)
next
  show "Fir_Parse h \<noteq> None" if "valid_header h" for h
    unfolding Fir_Parse_def using that by (intro safeD safe_intros) auto
qed (simp_all add: Fir_wire_def Fir_wf_def)

section \<open>Slice loss indication\<close>

text \<open>A macroblock entry is the packed word \<open>item_\<close>.\<close>

type_synonym macroblocks = uint32

definition Macroblocks_new :: "byte \<Rightarrow> uint16 \<Rightarrow> uint16 \<Rightarrow> macroblocks" where
  "Macroblocks_new picture_id first number =
     push_bit 19 (ucast first) OR push_bit 6 (ucast number) OR ucast picture_id"

definition Macroblocks_first :: "macroblocks \<Rightarrow> uint16" where
  "Macroblocks_first item = ucast (drop_bit 19 item)"

definition Macroblocks_number :: "macroblocks \<Rightarrow> uint16" where
  "Macroblocks_number item = ucast (drop_bit 6 item AND 0x1fff)"

definition Macroblocks_picture_id :: "macroblocks \<Rightarrow> byte" where
  "Macroblocks_picture_id item = ucast (item AND 0x3f)"

definition Macroblocks_Parse :: "byte list \<Rightarrow> macroblocks option" where
  "Macroblocks_Parse buf = ReadBigEndian 4 buf"

definition Macroblocks_Create :: "macroblocks \<Rightarrow> out \<Rightarrow> out option" where
  "Macroblocks_Create item s = put 0 (WriteBigEndian 4 item) s"

record sli = common_feedback +
  sli_items :: "macroblocks list"

abbreviation (input) Macroblocks_kLength :: nat where "Macroblocks_kLength \<equiv> 4"

definition Sli_AddPictureId :: "byte \<Rightarrow> sli \<Rightarrow> sli" where
  "Sli_AddPictureId picture_id p =
     p\<lparr>sli_items := sli_items p @ [Macroblocks_new picture_id 0 0x1fff]\<rparr>"

definition Sli_AddPictureId_range :: "byte \<Rightarrow> uint16 \<Rightarrow> uint16 \<Rightarrow> sli \<Rightarrow> sli" where
  "Sli_AddPictureId_range picture_id first_macroblock number_macroblocks p =
     p\<lparr>sli_items := sli_items p @ [Macroblocks_new picture_id first_macroblock number_macroblocks]\<rparr>"

definition Sli_BlockLength :: "sli \<Rightarrow> nat" where
  "Sli_BlockLength p =
     kHeaderLength + kCommonFeedbackLength + length (sli_items p) * Macroblocks_kLength"

definition Sli_Parse :: "common_header \<Rightarrow> (rtcp_error + sli) option" where
  "Sli_Parse packet =
     (if ch_payload_size packet < kCommonFeedbackLength + Macroblocks_kLength
      then Some (Inl PayloadTooSmall)
      else do {
        let number_of_items = (ch_payload_size packet - kCommonFeedbackLength) div Macroblocks_kLength;
        (sender_ssrc, media_ssrc) \<leftarrow> Psfb_ParseCommonFeedback (payload packet);
        items \<leftarrow> read_items Macroblocks_Parse Macroblocks_kLength number_of_items
                   (drop kCommonFeedbackLength (payload packet));
        Some (Inr \<lparr>fb_sender_ssrc = sender_ssrc, fb_media_ssrc = media_ssrc, sli_items = items\<rparr>) })"

definition Sli_Create :: "sli \<Rightarrow> nat \<Rightarrow> out \<Rightarrow> (bool \<times> out) option" where
  "Sli_Create p max_length s =
     with_room (Sli_BlockLength p) max_length (\<lambda>s. do {
       s \<leftarrow> CreateHeader 2 206 (HeaderLength (Sli_BlockLength p)) s;
       s \<leftarrow> Psfb_CreateCommonFeedback p s;
       s \<leftarrow> advance kCommonFeedbackLength s;
       for_each (\<lambda>item s. do {
         s \<leftarrow> Macroblocks_Create item s;
         advance Macroblocks_kLength s }) (sli_items p) s }) s"

definition Sli_body :: "sli \<Rightarrow> byte list" where
  "Sli_body p = common_wire p @ concat (map (WriteBigEndian 4) (sli_items p))"

definition Sli_wire :: "sli \<Rightarrow> byte list" where
  "Sli_wire p = header_bytes 2 206 (HeaderLength (Sli_BlockLength p)) @ Sli_body p"

definition Sli_wf :: "sli \<Rightarrow> bool" where
  "Sli_wf p \<longleftrightarrow> sli_items p \<noteq> [] \<and> Sli_BlockLength p \<le> 262144"

lemma Macroblocks_Parse_eq: "Macroblocks_Parse = ReadBigEndian 4"
  by (simp add: fun_eq_iff Macroblocks_Parse_def)

interpretation sli: rtcp_codec Sli_wf Sli_BlockLength Sli_Create Sli_wire Sli_Parse 206 "\<lambda>_. 2"
  Sli_body id
proof unfold_locales
  fix p :: sli and maxlen s
  show "Sli_Create p maxlen s = with_room (Sli_BlockLength p) maxlen (emit (Sli_wire p)) s"
    by (simp add: Sli_Create_def Sli_wire_def Sli_body_def Macroblocks_Create_def out_simps)
  show "length (Sli_wire p) = Sli_BlockLength p"
    by (simp add: Sli_wire_def Sli_body_def Sli_BlockLength_def u32.length_enc_all)
  show "4 dvd Sli_BlockLength p" "4 \<le> Sli_BlockLength p"
    by (simp_all add: Sli_BlockLength_def)
next
  fix p :: sli and h
  assume "Sli_wf p" "ch_payload_size h = length (Sli_body p)" "payload h = Sli_body p"
  then show "Sli_Parse h = Some (Inr (id p))"
    by (simp add: Sli_Parse_def Sli_body_def Sli_wf_def wire_simps Macroblocks_Parse_eq
        u32.length_enc_all u32.read_items_exact list_all_iff Suc_le_eq)
next
  show "Sli_Parse h \<noteq> None" if "valid_header h" for h
    unfolding Sli_Parse_def Macroblocks_Parse_eq using that by (intro safeD safe_intros) auto
qed (simp_all add: Sli_wire_def Sli_wf_def)

lemma Macroblocks_fields:
  assumes "first \<le> 0x1fff" "number \<le> 0x1fff" "picture_id \<le> 0x3f"
  shows "Macroblocks_first (Macroblocks_new picture_id first number) = first"
    and "Macroblocks_number (Macroblocks_new picture_id first number) = number"
    and "Macroblocks_picture_id (Macroblocks_new picture_id first number) = picture_id"
proof -
  have "unat first < 2 ^ 13" "unat number < 2 ^ 13" "unat picture_id < 2 ^ 6"
    using assms by (simp_all add: word_le_nat_alt)
  note bits = this [THEN bit_less_exp]
  have m: "0x1fff = (mask 13 :: uint32)" "0x3f = (mask 6 :: uint32)"
    by (simp_all add: mask_eq_exp_minus_1)
  show "Macroblocks_first (Macroblocks_new picture_id first number) = first"
    "Macroblocks_number (Macroblocks_new picture_id first number) = number"
    "Macroblocks_picture_id (Macroblocks_new picture_id first number) = picture_id"
    unfolding Macroblocks_first_def Macroblocks_number_def Macroblocks_picture_id_def
      Macroblocks_new_def m
    by (rule bit_word_eqI; auto simp: bit_simps dest: bits)+
qed

section \<open>Reference picture selection indication\<close>

record rpsi = common_feedback +
  rpsi_payload_type :: byte
  rpsi_picture_id :: uint64
  rpsi_block_length :: nat

abbreviation (input) kPaddingSizeOffset :: nat where "kPaddingSizeOffset \<equiv> 8"
abbreviation (input) kPayloadTypeOffset :: nat where "kPayloadTypeOffset \<equiv> 9"
abbreviation (input) kBitStringOffset :: nat where "kBitStringOffset \<equiv> 10"
abbreviation (input) kPidBits :: nat where "kPidBits \<equiv> 7"

function RequiredBytes_loop :: "byte \<Rightarrow> uint64 \<Rightarrow> byte" where
  "RequiredBytes_loop required_bytes shifted_pid =
     (let required_bytes = required_bytes + 1;
          shifted_pid = drop_bit kPidBits shifted_pid
      in if shifted_pid > 0 then RequiredBytes_loop required_bytes shifted_pid else required_bytes)"
  by pat_completeness auto
termination
  by (relation "measure (\<lambda>(_, pid). unat pid)")
    (auto simp: word_less_nat_alt drop_bit_eq_div unat_div_distrib)

declare RequiredBytes_loop.simps [simp del]

definition RequiredBytes :: "uint64 \<Rightarrow> byte" where
  "RequiredBytes picture_id = RequiredBytes_loop 0 picture_id"

definition Rpsi_CalculateBlockLength :: "byte \<Rightarrow> nat" where
  "Rpsi_CalculateBlockLength bitstring_size_bytes =
     kHeaderLength + kCommonFeedbackLength + Word32Align (2 + unat bitstring_size_bytes)"

definition Rpsi_new :: rpsi where
  "Rpsi_new = \<lparr>fb_sender_ssrc = 0, fb_media_ssrc = 0, rpsi_payload_type = 0, rpsi_picture_id = 0,
     rpsi_block_length = Rpsi_CalculateBlockLength 1\<rparr>"

definition Rpsi_SetPayloadType :: "byte \<Rightarrow> rpsi \<Rightarrow> rpsi" where
  "Rpsi_SetPayloadType pt p = p\<lparr>rpsi_payload_type := pt\<rparr>"

definition Rpsi_SetPictureId :: "uint64 \<Rightarrow> rpsi \<Rightarrow> rpsi" where
  "Rpsi_SetPictureId picture_id p =
     p\<lparr>rpsi_picture_id := picture_id,
       rpsi_block_length := Rpsi_CalculateBlockLength (RequiredBytes picture_id)\<rparr>"

definition Rpsi_BlockLength :: "rpsi \<Rightarrow> nat" where
  "Rpsi_BlockLength p = rpsi_block_length p"

definition Rpsi_Parse :: "common_header \<Rightarrow> (rtcp_error + rpsi) option" where
  "Rpsi_Parse packet =
     (if ch_payload_size packet < kCommonFeedbackLength + 4 then Some (Inl PayloadTooSmall)
      else do {
        (sender_ssrc, media_ssrc) \<leftarrow> Psfb_ParseCommonFeedback (payload packet);
        padding_bits \<leftarrow> byte_at (payload packet) kPaddingSizeOffset;
        if padding_bits mod 8 \<noteq> 0 then Some (Inl FractionalPadding)
        else do {
          let padding_bytes = unat (padding_bits div 8);
          if padding_bytes + kBitStringOffset \<ge> ch_payload_size packet
          then Some (Inl TooManyRpsiPadding)
          else do {
            let padding_offset = ch_payload_size packet - padding_bytes;
            payload_type \<leftarrow> byte_at (payload packet) kPayloadTypeOffset;
            picture_id \<leftarrow> for_each (\<lambda>pos picture_id. do {
                b \<leftarrow> byte_at (payload packet) pos;
                Some (push_bit kPidBits picture_id OR ucast (b AND 0x7f)) })
              [kBitStringOffset..<padding_offset] 0;
            Some (Inr \<lparr>fb_sender_ssrc = sender_ssrc, fb_media_ssrc = media_ssrc,
              rpsi_payload_type = payload_type AND 0x7f, rpsi_picture_id = picture_id,
              rpsi_block_length = Rpsi_CalculateBlockLength (RequiredBytes picture_id)\<rparr>) } } })"

definition Rpsi_Create :: "rpsi \<Rightarrow> nat \<Rightarrow> out \<Rightarrow> (bool \<times> out) option" where
  "Rpsi_Create p max_length s =
     with_room (Rpsi_BlockLength p) max_length (\<lambda>s. do {
       let index_end = index s + Rpsi_BlockLength p;
       s \<leftarrow> CreateHeader 3 206 (HeaderLength (Rpsi_BlockLength p)) s;
       s \<leftarrow> Psfb_CreateCommonFeedback p s;
       s \<leftarrow> advance kCommonFeedbackLength s;
       let bitstring_size_bytes = unat (RequiredBytes (rpsi_picture_id p));
       let padding_bytes = Word32Align (2 + bitstring_size_bytes) - (2 + bitstring_size_bytes);
       s \<leftarrow> put 0 [of_nat (padding_bytes * 8)] s;
       s \<leftarrow> advance 1 s;
       s \<leftarrow> put 0 [rpsi_payload_type p] s;
       s \<leftarrow> advance 1 s;
       s \<leftarrow> for_each (\<lambda>i s. do {
              s \<leftarrow> put 0 [0x80 OR ucast (drop_bit (i * kPidBits) (rpsi_picture_id p))] s;
              advance 1 s }) (rev [1..<bitstring_size_bytes]) s;
       s \<leftarrow> put 0 [ucast (rpsi_picture_id p AND 0x7f)] s;
       s \<leftarrow> advance 1 s;
       s \<leftarrow> for_each (\<lambda>_ s. do {
              s \<leftarrow> put 0 [0] s;
              advance 1 s }) [0..<padding_bytes] s;
       check_index index_end s }) s"

text \<open>The native bit string: base 128 digits, most significant first, all but the last marked.\<close>

definition pid_digits :: "nat \<Rightarrow> uint64 \<Rightarrow> byte list" where
  "pid_digits k pid = map (\<lambda>i. 0x80 OR ucast (drop_bit (i * 7) pid)) (rev [1..<k]) @ [ucast (pid AND 0x7f)]"

abbreviation (input) rpsi_padding :: "nat \<Rightarrow> nat" where
  "rpsi_padding k \<equiv> Word32Align (2 + k) - (2 + k)"

definition Rpsi_body :: "rpsi \<Rightarrow> byte list" where
  "Rpsi_body p = (let k = unat (RequiredBytes (rpsi_picture_id p)) in
     common_wire p @ [of_nat (rpsi_padding k * 8), rpsi_payload_type p] @
     pid_digits k (rpsi_picture_id p) @ replicate (rpsi_padding k) 0)"

definition Rpsi_wire :: "rpsi \<Rightarrow> byte list" where
  "Rpsi_wire p = header_bytes 3 206 (HeaderLength (Rpsi_BlockLength p)) @ Rpsi_body p"

definition Rpsi_wf :: "rpsi \<Rightarrow> bool" where
  "Rpsi_wf p \<longleftrightarrow> rpsi_payload_type p \<le> 0x7f \<and>
     rpsi_block_length p = Rpsi_CalculateBlockLength (RequiredBytes (rpsi_picture_id p))"

fun base128_length :: "nat \<Rightarrow> nat" where
  "base128_length n = (if n < 128 then 1 else Suc (base128_length (n div 128)))"

declare base128_length.simps [simp del]

lemma base128_length_bound: "n < 128 ^ k \<Longrightarrow> 0 < k \<Longrightarrow> base128_length n \<le> k"
proof (induction n arbitrary: k rule: base128_length.induct)
  case (1 n)
  show ?case
  proof (cases "n < 128")
    case False
    then have "k \<noteq> 1" using "1.prems" by (intro notI) simp
    then obtain j where k: "k = Suc j" "0 < j" using "1.prems"(2) by (cases k) auto
    have "n div 128 < 128 ^ j" using "1.prems"(1) k by (simp add: less_mult_imp_div_less mult.commute)
    then show ?thesis using False "1.IH" [of j] k by (subst base128_length.simps) simp
  qed (use "1.prems" in \<open>simp add: base128_length.simps\<close>)
qed

lemma base128_length_enough: "n < 128 ^ base128_length n"
proof (induction n rule: base128_length.induct)
  case (1 n)
  show ?case
  proof (cases "n < 128")
    case False
    then have "n div 128 < 128 ^ base128_length (n div 128)" using 1 by blast
    then have "n < 128 * 128 ^ base128_length (n div 128)" by (simp add: div_less_iff_less_mult mult.commute)
    then show ?thesis using False by (subst base128_length.simps) simp
  qed (simp add: base128_length.simps)
qed

lemma RequiredBytes_loop_eq: "RequiredBytes_loop r pid = r + of_nat (base128_length (unat pid))"
proof (induction r pid rule: RequiredBytes_loop.induct)
  case (1 r pid)
  have div: "unat (drop_bit 7 pid) = unat pid div 128"
    by (simp add: drop_bit_eq_div unat_div_distrib)
  show ?case
    by (subst RequiredBytes_loop.simps, subst base128_length.simps)
      (use 1 in \<open>auto simp: Let_def div word_less_nat_alt\<close>)
qed

lemma RequiredBytes_range: "1 \<le> unat (RequiredBytes pid)" "unat (RequiredBytes pid) \<le> 10"
  and RequiredBytes_enough: "unat pid < 2 ^ (7 * unat (RequiredBytes pid))"
proof -
  have "unat pid < 2 ^ 64" using unsigned_less [of pid] by simp
  also have "(2 :: nat) ^ 64 \<le> 128 ^ 10" by simp
  finally have le: "base128_length (unat pid) \<le> 10" by (intro base128_length_bound) simp_all
  then have u: "unat (RequiredBytes pid) = base128_length (unat pid)"
    by (simp add: RequiredBytes_def RequiredBytes_loop_eq unat_of_nat)
  show "1 \<le> unat (RequiredBytes pid)" "unat (RequiredBytes pid) \<le> 10"
    using le by (simp_all add: u base128_length.simps)
  have "(2 :: nat) ^ (7 * k) = 128 ^ k" for k by (simp add: power_mult)
  then show "unat pid < 2 ^ (7 * unat (RequiredBytes pid))"
    using base128_length_enough [of "unat pid"] by (simp add: u)
qed

lemma pid_digit_step:
  fixes w :: uint64 and b :: byte
  assumes "\<And>n. n < 7 \<Longrightarrow> bit b n \<longleftrightarrow> bit w n"
  shows "push_bit 7 (drop_bit 7 w) OR ucast (b AND 0x7f) = w"
proof (rule bit_word_eqI)
  fix n
  have m: "0x7f = (mask 7 :: byte)" by (simp add: mask_eq_exp_minus_1)
  assume "n < LENGTH(64)"
  then show "bit (push_bit 7 (drop_bit 7 w) OR ucast (b AND 0x7f)) n \<longleftrightarrow> bit w n"
    unfolding m by (cases "n < 7") (auto simp: bit_simps assms)
qed

lemma pid_digits_fold:
  assumes "unat pid < 2 ^ (7 * k)" "1 \<le> k"
  shows "foldl (\<lambda>acc b. push_bit 7 acc OR ucast (b AND 0x7f)) 0 (pid_digits k pid) = pid"
proof -
  let ?step = "\<lambda>acc b. push_bit 7 acc OR ucast ((b :: byte) AND 0x7f) :: uint64"
  have h: "0x80 = (push_bit 7 1 :: byte)" "0x7f = (mask 7 :: uint64)"
    by (simp_all add: mask_eq_exp_minus_1)
  have "foldl ?step 0 (map (\<lambda>i. 0x80 OR ucast (drop_bit (i * 7) pid)) (rev [j..<k])) = drop_bit (7 * j) pid"
    if "j \<le> k" for j
    using that
  proof (induction "k - j" arbitrary: j)
    case 0
    then have "j = k" by simp
    moreover have "drop_bit (7 * k) pid = 0"
      using assms(1) by (auto intro!: bit_word_eqI simp: bit_simps dest!: bit_less_exp)
    ultimately show ?case by simp
  next
    case (Suc d)
    then have "[j..<k] = j # [Suc j..<k]" by (simp add: upt_conv_Cons)
    moreover have "foldl ?step 0 (map (\<lambda>i. 0x80 OR ucast (drop_bit (i * 7) pid)) (rev [Suc j..<k])) =
        drop_bit 7 (drop_bit (7 * j) pid)"
      using Suc(1) [of "Suc j"] Suc(2,3) by (simp add: add.commute)
    moreover have "?step (drop_bit 7 (drop_bit (7 * j) pid)) (0x80 OR ucast (drop_bit (j * 7) pid)) =
        drop_bit (7 * j) pid"
      unfolding h by (rule pid_digit_step) (auto simp: bit_simps ac_simps simp del: push_bit_of_1)
    ultimately show ?case by simp
  qed
  then have "foldl ?step 0 (pid_digits k pid) = ?step (drop_bit 7 pid) (ucast (pid AND 0x7f))"
    using assms(2) by (simp add: pid_digits_def)
  also have "\<dots> = pid"
    unfolding h by (rule pid_digit_step) (auto simp: bit_simps)
  finally show ?thesis .
qed

lemma length_pid_digits [simp]: "1 \<le> k \<Longrightarrow> length (pid_digits k pid) = k"
  by (simp add: pid_digits_def)

lemma for_each_read_fold:
  assumes "start = length pre"
  shows "for_each (\<lambda>pos acc. do { b \<leftarrow> byte_at (pre @ xs @ rest) pos; Some (f acc b) })
     [start..<start + length xs] acc = Some (foldl f acc xs)"
  using assms
proof (induction xs arbitrary: pre start acc)
  case (Cons x xs)
  have "[start..<start + length (x # xs)] = start # [Suc start..<Suc start + length xs]"
    by (simp add: upt_conv_Cons del: upt_Suc)
  then show ?case
    using Cons.IH [of "Suc start" "pre @ [x]" "f acc x"] Cons.prems by simp
qed simp

lemma concat_singletons: "concat (map (\<lambda>x. [f x]) xs) = map f xs"
  by (induction xs) simp_all

lemma rpsi_padding_le: "rpsi_padding k \<le> 3" "4 dvd Word32Align k" "k \<le> Word32Align k"
  "Word32Align k \<le> k + 3"
  unfolding Word32Align_def Let_def by (auto; presburger)+

lemma length_Rpsi_body:
  assumes "Rpsi_wf p"
  shows "4 + length (Rpsi_body p) = Rpsi_BlockLength p"
  using RequiredBytes_range [of "rpsi_picture_id p"] assms
    rpsi_padding_le(3) [of "2 + unat (RequiredBytes (rpsi_picture_id p))"]
  by (simp add: Rpsi_body_def Rpsi_wf_def Rpsi_BlockLength_def Rpsi_CalculateBlockLength_def Let_def)

lemma Rpsi_Create_wire:
  assumes "Rpsi_wf p"
  shows "Rpsi_Create p maxlen s = with_room (Rpsi_BlockLength p) maxlen (emit (Rpsi_wire p)) s"
  unfolding Rpsi_Create_def Rpsi_wire_def
  using length_Rpsi_body [OF assms]
  by (intro with_room_cong)
    (simp add: out_simps Let_def concat_singletons map_replicate_const Rpsi_body_def pid_digits_def)

lemma Rpsi_Parse_body:
  assumes wf: "Rpsi_wf p" and hd: "ch_payload_size h = length (Rpsi_body p)" "payload h = Rpsi_body p"
  shows "Rpsi_Parse h = Some (Inr p)"
proof -
  define k where "k = unat (RequiredBytes (rpsi_picture_id p))"
  define pad where "pad = rpsi_padding k"
  note k = RequiredBytes_range [of "rpsi_picture_id p", folded k_def]
  have pad: "pad \<le> 3" using rpsi_padding_le(1) by (simp add: pad_def)
  have "Word32Align (2 + k) = 2 + k + pad"
    using rpsi_padding_le(3) [of "2 + k"] by (simp add: pad_def)
  then have pk: "2 \<le> k + pad"
    using dvd_imp_le [OF rpsi_padding_le(2) [of "2 + k"]] by simp
  define pb :: byte where "pb = of_nat (pad * 8)"
  let ?pre = "common_wire p @ [pb, rpsi_payload_type p]"
  let ?digits = "pid_digits k (rpsi_picture_id p)"
  have body: "Rpsi_body p = ?pre @ ?digits @ replicate pad 0"
    by (simp add: Rpsi_body_def Let_def k_def pad_def pb_def)
  have len: "length (Rpsi_body p) = 10 + k + pad" using k by (simp add: body)
  have bits: "unat pb = pad * 8" using pad by (simp add: pb_def unat_of_nat del: of_nat_mult)
  have "pb mod 8 = 0" "unat (pb div 8) = pad"
    using bits by (simp_all add: word_unat_eq_iff unat_mod_distrib unat_div_distrib)
  moreover have "rpsi_payload_type p AND 0x7f = rpsi_payload_type p"
  proof -
    have "unat (rpsi_payload_type p) < 2 ^ 7" using wf by (simp add: Rpsi_wf_def word_le_nat_alt)
    then have "take_bit 7 (rpsi_payload_type p) = rpsi_payload_type p"
      by (simp add: word_unat_eq_iff unsigned_take_bit_eq take_bit_nat_eq_self_iff)
    then show ?thesis by (simp add: take_bit_eq_mask mask_eq_exp_minus_1)
  qed
  moreover have "for_each (\<lambda>pos picture_id. do {
        b \<leftarrow> byte_at (Rpsi_body p) pos; Some (push_bit 7 picture_id OR ucast (b AND 0x7f)) })
      [10..<10 + k] 0 = Some (rpsi_picture_id p)"
    using for_each_read_fold [of 10 ?pre ?digits "replicate pad 0"
        "\<lambda>pid b. push_bit 7 pid OR ucast (b AND 0x7f)" "0 :: uint64"] k
      pid_digits_fold [OF RequiredBytes_enough [of "rpsi_picture_id p", folded k_def] k(1)]
    by (simp add: body)
  moreover have "byte_at (Rpsi_body p) 8 = Some pb"
    "byte_at (Rpsi_body p) 9 = Some (rpsi_payload_type p)"
    "Psfb_ParseCommonFeedback (Rpsi_body p) = Some (fb_sender_ssrc p, fb_media_ssrc p)"
    by (simp_all add: body wire_simps)
  ultimately show ?thesis
    using k pk pad wf by (simp add: Rpsi_Parse_def hd len Rpsi_wf_def)
qed

interpretation rpsi: rtcp_codec Rpsi_wf Rpsi_BlockLength Rpsi_Create Rpsi_wire Rpsi_Parse 206
  "\<lambda>_. 3" Rpsi_body id
proof unfold_locales
  fix p :: rpsi and maxlen s
  assume wf: "Rpsi_wf p"
  then show "Rpsi_Create p maxlen s = with_room (Rpsi_BlockLength p) maxlen (emit (Rpsi_wire p)) s"
    by (rule Rpsi_Create_wire)
  show "length (Rpsi_wire p) = Rpsi_BlockLength p"
    using length_Rpsi_body [OF wf] by (simp add: Rpsi_wire_def)
  show "4 dvd Rpsi_BlockLength p" "4 \<le> Rpsi_BlockLength p"
    using wf rpsi_padding_le(2) by (simp_all add: Rpsi_wf_def Rpsi_BlockLength_def Rpsi_CalculateBlockLength_def)
  show "Rpsi_BlockLength p \<le> 262144"
    using wf RequiredBytes_range(2) [of "rpsi_picture_id p"]
      rpsi_padding_le(4) [of "2 + unat (RequiredBytes (rpsi_picture_id p))"]
    by (simp add: Rpsi_wf_def Rpsi_BlockLength_def Rpsi_CalculateBlockLength_def)
next
  show "Rpsi_Parse h \<noteq> None" if "valid_header h" for h
    unfolding Rpsi_Parse_def using that by (intro safeD safe_intros) auto
qed (simp_all add: Rpsi_wire_def Rpsi_Parse_body)

lemma Rpsi_setters_wf:
  "Rpsi_wf Rpsi_new" "Rpsi_wf p \<Longrightarrow> Rpsi_wf (Rpsi_SetPictureId pid p)"
  "Rpsi_wf p \<Longrightarrow> pt \<le> 0x7f \<Longrightarrow> Rpsi_wf (Rpsi_SetPayloadType pt p)"
  by (simp_all add: Rpsi_wf_def Rpsi_new_def Rpsi_SetPictureId_def Rpsi_SetPayloadType_def
      RequiredBytes_def RequiredBytes_loop_eq base128_length.simps)

section \<open>Properties\<close>

text \<open>
  Round trip of the fixed-size requests: a picture loss indication and a rapid
  resynchronisation request, for all source identifiers.
\<close>

theorem Pli_RapidResync_roundtrip:
  assumes "length mem = 12"
  shows "Option.bind (Build (Pli_Create p) mem) (ParseSinglePacket Pli_Parse) = Some (Inr p) \<and>
     Option.bind (Build (RapidResyncRequest_Create p) mem)
       (ParseSinglePacket RapidResyncRequest_Parse) = Some (Inr p)"
  using pli.Build_Parse [OF TrueI, of mem p] rapid_resync_request.Build_Parse [OF TrueI, of mem p] assms
  by (simp add: Pli_BlockLength_def RapidResyncRequest_BlockLength_def)

theorem Pli_RapidResync_roundtrip_witness:
  "let p = Psfb_SetMediaSsrc 0x23456789 (Psfb_SetSenderSsrc 0x12345678 Pli_new) in
   Option.bind (Build (Pli_Create p) (replicate 12 0)) (ParseSinglePacket Pli_Parse) = Some (Inr p)"
  unfolding Let_def
  by (rule conjunct1 [OF Pli_RapidResync_roundtrip]) simp

text \<open>
  Round trip of the full intra request: all requests arrive, in order, with their sequence
  numbers.
\<close>

theorem Fir_roundtrip:
  assumes "fir_items p \<noteq> []" "length (fir_items p) \<le> 32766" "length mem = Fir_BlockLength p"
  shows "Option.bind (Build (Fir_Create p) mem) (ParseSinglePacket Fir_Parse) = Some (Inr p)"
  using fir.Build_Parse [of p mem] assms by (simp add: Fir_wf_def Fir_BlockLength_def)

theorem Fir_roundtrip_witness:
  "let p = Fir_AddRequestTo 5 6 (Fir_AddRequestTo 0xffffffff 255 Fir_new) in
   Option.bind (Build (Fir_Create p) (replicate 28 0)) (ParseSinglePacket Fir_Parse) = Some (Inr p)"
  using Fir_roundtrip [of "Fir_AddRequestTo 5 6 (Fir_AddRequestTo 0xffffffff 255 Fir_new)" "replicate 28 0"]
  by (simp add: Fir_AddRequestTo_def Fir_new_def Fir_BlockLength_def)

text \<open>
  Slice loss indications: the packet built for a lost range of macroblocks parses to one item
  with the first macroblock, the number and the picture it was given, packed in one 32 bit word.
\<close>

theorem Sli_roundtrip:
  assumes "first \<le> 0x1fff" "number \<le> 0x1fff" "picture_id \<le> 0x3f" "sli_items p = []" "length mem = 16"
  shows "\<exists>q item. Option.bind (Build (Sli_Create (Sli_AddPictureId_range picture_id first number p)) mem)
       (ParseSinglePacket Sli_Parse) = Some (Inr q) \<and>
     sli_items q = [item] \<and> Macroblocks_first item = first \<and> Macroblocks_number item = number \<and>
     Macroblocks_picture_id item = picture_id \<and>
     fb_sender_ssrc q = fb_sender_ssrc p \<and> fb_media_ssrc q = fb_media_ssrc p"
  using sli.Build_Parse [of "Sli_AddPictureId_range picture_id first number p" mem] assms
    Macroblocks_fields [OF assms(1-3)]
  by (simp add: Sli_wf_def Sli_BlockLength_def Sli_AddPictureId_range_def)

theorem Sli_roundtrip_witness:
  "\<exists>q item. Option.bind (Build (Sli_Create (Sli_AddPictureId_range 0x28 5 0x1ffe
       \<lparr>fb_sender_ssrc = 1, fb_media_ssrc = 2, sli_items = []\<rparr>)) (replicate 16 0))
       (ParseSinglePacket Sli_Parse) = Some (Inr q) \<and>
     sli_items q = [item] \<and> Macroblocks_first item = 5 \<and> Macroblocks_number item = 0x1ffe \<and>
     Macroblocks_picture_id item = 0x28 \<and> fb_sender_ssrc q = 1 \<and> fb_media_ssrc q = 2"
  using Sli_roundtrip [of 5 "0x1ffe" "0x28" "\<lparr>fb_sender_ssrc = 1, fb_media_ssrc = 2, sli_items = []\<rparr>"
      "replicate 16 0"] by simp

text \<open>
  C33. Reference picture selection: the variable length encoding of the 64 bit picture id in groups
  of seven bits is undone by the parser, for every picture id and seven bit payload type.
\<close>

theorem Rpsi_roundtrip:
  assumes "pt \<le> 0x7f" "p = Rpsi_SetPictureId pid (Rpsi_SetPayloadType pt Rpsi_new)"
    and "length mem = Rpsi_BlockLength p"
  shows "Option.bind (Build (Rpsi_Create p) mem) (ParseSinglePacket Rpsi_Parse) = Some (Inr p)"
proof -
  have "Rpsi_wf p" unfolding assms(2) using Rpsi_setters_wf assms(1) by blast
  then show ?thesis using rpsi.Build_Parse [of p mem] assms(3) by simp
qed

theorem Rpsi_roundtrip_witness:
  "let p = Rpsi_SetPictureId 0x1234567890 (Rpsi_SetPayloadType 100 Rpsi_new) in Rpsi_BlockLength p = 20 \<and>
   Option.bind (Build (Rpsi_Create p) (replicate 20 0)) (ParseSinglePacket Rpsi_Parse) = Some (Inr p)"
proof -
  let ?p = "Rpsi_SetPictureId 0x1234567890 (Rpsi_SetPayloadType 100 Rpsi_new)"
  have "Rpsi_BlockLength ?p = 20"
    by (simp add: Rpsi_BlockLength_def Rpsi_SetPictureId_def Rpsi_CalculateBlockLength_def
        RequiredBytes_def RequiredBytes_loop_eq base128_length.simps Word32Align_def)
  then show ?thesis
    using Rpsi_roundtrip [of 100 ?p "0x1234567890" "replicate 20 0"] by simp
qed

end
