(* ===== verification/RtcpRate.thy ===== *)
theory RtcpRate
  imports RtcpFeedback
begin

text \<open>
  Feedback messages that carry a bit rate as mantissa and exponent: \<open>remb.cc\<close>, \<open>tmmb_item.cc\<close>,
  \<open>tmmbr.cc\<close> and \<open>tmmbn.cc\<close>. The encoding rounds down; \<open>rate_canon\<close> is the value that survives
  and the lemmas bound its error.
\<close>

section \<open>Mantissa and exponent\<close>

text \<open>
  The loop \<open>while (mantissa > kMaxMantissa) { mantissa >>= 1; ++exponent; }\<close> of \<open>Remb::Create\<close>
  and \<open>TmmbItem::Create\<close>.
\<close>

function scale_down :: "uint64 \<Rightarrow> uint64 \<Rightarrow> nat \<Rightarrow> uint64 \<times> nat" where
  "scale_down kMaxMantissa mantissa exponent =
     (if mantissa > kMaxMantissa then scale_down kMaxMantissa (drop_bit 1 mantissa) (exponent + 1)
      else (mantissa, exponent))"
  by pat_completeness auto
termination
proof (relation "measure (\<lambda>(_, mantissa, _). unat mantissa)")
  fix kMaxMantissa mantissa :: uint64 and exponent :: nat
  assume "mantissa > kMaxMantissa"
  then have "0 < unat mantissa" by (simp add: word_less_nat_alt)
  then show "((kMaxMantissa, drop_bit 1 mantissa, exponent + 1), kMaxMantissa, mantissa, exponent)
      \<in> measure (\<lambda>(_, mantissa, _). unat mantissa)"
    by (simp add: drop_bit_eq_div unat_div_distrib)
qed simp

declare scale_down.simps [simp del]

text \<open>What a receiver reconstructs.\<close>

definition rate_canon :: "uint64 \<Rightarrow> uint64 \<Rightarrow> uint64" where
  "rate_canon kMaxMantissa bitrate =
     (case scale_down kMaxMantissa bitrate 0 of (mantissa, exponent) \<Rightarrow> push_bit exponent mantissa)"

lemma scale_down_spec:
  assumes "unat K = 2 ^ k - 1" "0 < k" "scale_down K w e = (m, e')"
  shows "\<exists>d. e' = e + d \<and> m = drop_bit d w \<and> unat m < 2 ^ k \<and> (0 < d \<longrightarrow> 2 ^ (k - 1) \<le> unat m)"
  using assms(1,3)
proof (induction K w e rule: scale_down.induct)
  case (1 K w e)
  have K: "unat K < 2 ^ k" using "1.prems"(1) by simp
  show ?case
  proof (cases "K < w")
    case False
    then have "m = w" "e' = e" using "1.prems"(2) by (auto simp: scale_down.simps [of K w])
    moreover have "unat w < 2 ^ k" using False K by (simp add: word_less_nat_alt)
    ultimately show ?thesis by (intro exI [of _ 0]) simp
  next
    case True
    then have "scale_down K (drop_bit 1 w) (e + 1) = (m, e')"
      using "1.prems"(2) by (simp add: scale_down.simps [of K w])
    then obtain d where d: "e' = e + 1 + d" "m = drop_bit d (drop_bit 1 w)" "unat m < 2 ^ k"
      "0 < d \<longrightarrow> 2 ^ (k - 1) \<le> unat m"
      using "1.IH" [OF True "1.prems"(1)] by blast
    have "2 ^ (k - 1) \<le> unat m" if "d = 0"
    proof -
      have "2 * 2 ^ (k - 1) \<le> unat w"
        using True "1.prems"(1) assms(2) by (simp add: word_less_nat_alt flip: power_Suc)
      then show ?thesis using that d(2) by (simp add: drop_bit_eq_div unat_div_distrib)
    qed
    with d show ?thesis
      by (intro exI [of _ "Suc d"]) (auto simp: drop_bit_Suc drop_bit_drop_bit)
  qed
qed

lemma scale_down_exponent:
  assumes "unat K = 2 ^ k - 1" "0 < k" "scale_down K w 0 = (m, e)"
  shows "m = drop_bit e w" "unat m < 2 ^ k" "e + k \<le> 64 \<or> e = 0"
    and "e = 0 \<or> 2 ^ (k - 1) * 2 ^ e \<le> unat w"
proof -
  from scale_down_spec [OF assms] obtain d where
    d: "e = d" "m = drop_bit d w" "unat m < 2 ^ k" "0 < d \<longrightarrow> 2 ^ (k - 1) \<le> unat m" by auto
  then show "m = drop_bit e w" "unat m < 2 ^ k" by simp_all
  have big: "2 ^ (k - 1) * 2 ^ e \<le> unat w" if "0 < e"
  proof -
    have "unat m = unat w div 2 ^ e" unfolding d(1,2) by (simp only: unat_drop_bit_eq) (rule drop_bit_eq_div)
    then have "2 ^ (k - 1) \<le> unat w div 2 ^ e" using that d by simp
    then show ?thesis using div_le_dividend by (metis (no_types) less_eq_div_iff_mult_less_eq zero_less_power zero_less_numeral)
  qed
  then show "e = 0 \<or> 2 ^ (k - 1) * 2 ^ e \<le> unat w" by auto
  show "e + k \<le> 64 \<or> e = 0"
  proof (rule disjCI)
    assume "e \<noteq> 0"
    then have "2 ^ (k - 1 + e) \<le> unat w" using big by (simp add: power_add)
    also have "unat w < 2 ^ 64" using unsigned_less [of w] by simp
    finally have "k - 1 + e < 64" by (simp only: power_strict_increasing_iff)
    then show "e + k \<le> 64" by simp
  qed
qed

lemma rate_canon_eq:
  assumes "unat K = 2 ^ k - 1" "0 < k" "scale_down K w 0 = (m, e)"
  shows "rate_canon K w = push_bit e (drop_bit e w)"
  using scale_down_exponent(1) [OF assms] assms(3) by (simp add: rate_canon_def)

text \<open>Rounding is downwards and loses less than one part in \<open>2 ^ (k - 1)\<close>.\<close>

lemma rate_canon_error:
  assumes "unat K = 2 ^ k - 1" "0 < k"
  shows "unat (rate_canon K w) \<le> unat w"
    and "2 ^ (k - 1) * (unat w - unat (rate_canon K w)) \<le> unat w"
proof -
  obtain m e where sd: "scale_down K w 0 = (m, e)" by fastforce
  have "push_bit e (drop_bit e w) = w - take_bit e w"
    by (simp add: push_bit_eq_mult drop_bit_eq_div take_bit_eq_mod minus_mod_eq_div_mult) 
  moreover have "unat (take_bit e w) \<le> unat w" "unat (take_bit e w) < 2 ^ e"
    by (simp_all add: unsigned_take_bit_eq take_bit_nat_less_eq_self take_bit_nat_less_exp)
  ultimately have c: "unat (rate_canon K w) = unat w - unat (take_bit e w)" "unat (take_bit e w) \<le> unat w"
    "unat (take_bit e w) < 2 ^ e"
    by (simp_all add: rate_canon_eq [OF assms sd] unat_sub word_le_nat_alt)
  then show "unat (rate_canon K w) \<le> unat w" by simp
  have "2 ^ (k - 1) * unat (take_bit e w) \<le> unat w"
  proof (cases "e = 0")
    case False
    then have "2 ^ (k - 1) * 2 ^ e \<le> unat w" using scale_down_exponent(4) [OF assms sd] by simp
    moreover have "2 ^ (k - 1) * unat (take_bit e w) \<le> 2 ^ (k - 1) * 2 ^ e" using c by simp
    ultimately show ?thesis by linarith
  qed simp
  then show "2 ^ (k - 1) * (unat w - unat (rate_canon K w)) \<le> unat w" using c by simp
qed

text \<open>A value with a short mantissa survives unchanged.\<close>

lemma rate_canon_small: "w \<le> K \<Longrightarrow> rate_canon K w = w"
  by (simp add: rate_canon_def scale_down.simps not_less [symmetric])

text \<open>The receivers' overflow test accepts every encoded rate.\<close>

lemma scale_down_no_overflow:
  assumes "unat K = 2 ^ k - 1" "0 < k" "scale_down K w 0 = (m, e)"
  shows "drop_bit e (push_bit e m) = m"
  unfolding scale_down_exponent(1) [OF assms]
  by (rule bit_word_eqI) (auto simp: bit_simps dest: bit_imp_le_length)

section \<open>Receiver estimated maximum bit rate\<close>

record remb = common_feedback +
  remb_bitrate_bps :: uint64
  remb_ssrcs :: "uint32 list"

abbreviation (input) kUniqueIdentifier :: uint32 where "kUniqueIdentifier \<equiv> 0x52454D42"
abbreviation (input) kMaxNumberOfSsrcs :: nat where "kMaxNumberOfSsrcs \<equiv> 0xff"
abbreviation (input) Remb_kMaxMantissa :: uint64 where "Remb_kMaxMantissa \<equiv> 0x3ffff"

definition Remb_new :: remb where
  "Remb_new = \<lparr>fb_sender_ssrc = 0, fb_media_ssrc = 0, remb_bitrate_bps = 0, remb_ssrcs = []\<rparr>"

definition Remb_SetSsrcs :: "uint32 list \<Rightarrow> remb \<Rightarrow> bool \<times> remb" where
  "Remb_SetSsrcs ssrcs p =
     (if length ssrcs > kMaxNumberOfSsrcs then (False, p) else (True, p\<lparr>remb_ssrcs := ssrcs\<rparr>))"

definition Remb_SetBitrateBps :: "uint64 \<Rightarrow> remb \<Rightarrow> remb" where
  "Remb_SetBitrateBps bitrate_bps p = p\<lparr>remb_bitrate_bps := bitrate_bps\<rparr>"

definition Remb_BlockLength :: "remb \<Rightarrow> nat" where
  "Remb_BlockLength p = kHeaderLength + kCommonFeedbackLength + (2 + length (remb_ssrcs p)) * 4"

definition Remb_Parse :: "common_header \<Rightarrow> (rtcp_error + remb) option" where
  "Remb_Parse packet =
     (if ch_payload_size packet < 16 then Some (Inl PayloadTooSmall)
      else do {
        let payload = payload packet;
        ident \<leftarrow> ReadBigEndian 4 (drop 8 payload);
        if kUniqueIdentifier \<noteq> ident then Some (Inl NoRembIdentifier)
        else do {
          number_of_ssrcs \<leftarrow> map_option unat (byte_at payload 12);
          if ch_payload_size packet \<noteq> kCommonFeedbackLength + (2 + number_of_ssrcs) * 4
          then Some (Inl SsrcCountMismatch)
          else do {
            (sender_ssrc, media_ssrc) \<leftarrow> Psfb_ParseCommonFeedback payload;
            b13 \<leftarrow> byte_at payload 13;
            low \<leftarrow> (ReadBigEndian 2 (drop 14 payload) :: uint16 option);
            let exponenta = drop_bit 2 b13;
            let mantissa = (ucast (push_bit 16 (ucast (b13 AND 0x03)) OR ucast low :: uint32) :: uint64);
            let bitrate_bps = push_bit (unat exponenta) mantissa;
            let shift_overflow = (drop_bit (unat exponenta) bitrate_bps \<noteq> mantissa);
            if shift_overflow then Some (Inl BitrateOverflow)
            else do {
              ssrcs \<leftarrow> read_items (ReadBigEndian 4) 4 number_of_ssrcs (drop 16 payload);
              Some (Inr \<lparr>fb_sender_ssrc = sender_ssrc, fb_media_ssrc = media_ssrc,
                remb_bitrate_bps = bitrate_bps, remb_ssrcs = ssrcs\<rparr>) } } } })"

definition Remb_Create :: "remb \<Rightarrow> nat \<Rightarrow> out \<Rightarrow> (bool \<times> out) option" where
  "Remb_Create p max_length s =
     with_room (Remb_BlockLength p) max_length (\<lambda>s. do {
       let index_end = index s + Remb_BlockLength p;
       s \<leftarrow> CreateHeader 15 206 (HeaderLength (Remb_BlockLength p)) s;
       s \<leftarrow> Psfb_CreateCommonFeedback p s;
       s \<leftarrow> advance kCommonFeedbackLength s;
       s \<leftarrow> put 0 (WriteBigEndian 4 kUniqueIdentifier) s;
       s \<leftarrow> advance 4 s;
       let (mantissa, exponenta) = scale_down Remb_kMaxMantissa (remb_bitrate_bps p) 0;
       s \<leftarrow> put 0 [of_nat (length (remb_ssrcs p))] s;
       s \<leftarrow> advance 1 s;
       s \<leftarrow> put 0 [ucast (push_bit 2 (of_nat exponenta) OR drop_bit 16 mantissa)] s;
       s \<leftarrow> advance 1 s;
       s \<leftarrow> put 0 (WriteBigEndian 2 (ucast (mantissa AND 0xffff) :: uint16)) s;
       s \<leftarrow> advance 2 s;
       s \<leftarrow> for_each (\<lambda>ssrc s. do {
              s \<leftarrow> put 0 (WriteBigEndian 4 ssrc) s;
              advance 4 s }) (remb_ssrcs p) s;
       check_index index_end s }) s"

definition Remb_body :: "remb \<Rightarrow> byte list" where
  "Remb_body p =
     (case scale_down Remb_kMaxMantissa (remb_bitrate_bps p) 0 of (mantissa, exponenta) \<Rightarrow>
        common_wire p @ WriteBigEndian 4 kUniqueIdentifier @
        [of_nat (length (remb_ssrcs p)), ucast (push_bit 2 (of_nat exponenta) OR drop_bit 16 mantissa)] @
        WriteBigEndian 2 (ucast (mantissa AND 0xffff) :: uint16) @
        concat (map (WriteBigEndian 4) (remb_ssrcs p)))"

definition Remb_wire :: "remb \<Rightarrow> byte list" where
  "Remb_wire p = header_bytes 15 206 (HeaderLength (Remb_BlockLength p)) @ Remb_body p"

definition Remb_wf :: "remb \<Rightarrow> bool" where
  "Remb_wf p \<longleftrightarrow> length (remb_ssrcs p) \<le> kMaxNumberOfSsrcs"

definition Remb_canon :: "remb \<Rightarrow> remb" where
  "Remb_canon p = p\<lparr>remb_bitrate_bps := rate_canon Remb_kMaxMantissa (remb_bitrate_bps p)\<rparr>"

lemma Remb_kMaxMantissa_exp: "unat Remb_kMaxMantissa = 2 ^ 18 - 1"
  by simp

lemmas Remb_scale = scale_down_exponent [OF Remb_kMaxMantissa_exp, simplified]

lemma Remb_rate_bytes:
  fixes m e :: uint64
  assumes "unat m < 2 ^ 18" "unat e < 2 ^ 6"
  defines "b13 \<equiv> ucast (push_bit 2 e OR drop_bit 16 m) :: byte"
  shows "drop_bit 2 b13 = ucast e"
    and "(ucast (push_bit 16 (ucast (b13 AND 3)) OR ucast (ucast (m AND 0xffff) :: uint16) :: uint32) :: uint64) = m"
proof -
  note mbits = bit_less_exp [OF assms(1)] and ebits = bit_less_exp [OF assms(2)]
  have k: "3 = (mask 2 :: byte)" "0xffff = (mask 16 :: uint64)" by (simp_all add: mask_eq_exp_minus_1)
  show "drop_bit 2 b13 = ucast e"
    unfolding b13_def by (rule bit_word_eqI) (auto simp: bit_simps dest: mbits ebits)
  show "(ucast (push_bit 16 (ucast (b13 AND 3)) OR ucast (ucast (m AND 0xffff) :: uint16) :: uint32) :: uint64) = m"
    unfolding b13_def k by (rule bit_word_eqI) (auto simp: bit_simps dest: mbits)
qed

lemma length_Remb_body: "length (Remb_body p) = 16 + 4 * length (remb_ssrcs p)"
  by (simp add: Remb_body_def u32.length_enc_all split: prod.split)

lemma Remb_Parse_body:
  assumes "Remb_wf p" "ch_payload_size h = length (Remb_body p)" "payload h = Remb_body p"
  shows "Remb_Parse h = Some (Inr (Remb_canon p))"
proof -
  obtain m e where sd: "scale_down Remb_kMaxMantissa (remb_bitrate_bps p) 0 = (m, e)" by fastforce
  note scale = scale_down_exponent [OF Remb_kMaxMantissa_exp _ sd, simplified]
  have e: "e < 64" "unat (of_nat e :: uint64) < 2 ^ 6"
    using scale(3) by (auto simp: unat_of_nat)
  let ?b13 = "ucast (push_bit 2 (of_nat e :: uint64) OR drop_bit 16 m) :: byte"
  have "unat m < 2 ^ 18" using scale(2) by simp
  note bytes = Remb_rate_bytes [OF this e(2)]
  have exp: "unat (drop_bit 2 ?b13) = e"
    unfolding bytes(1) using e(1) by (simp add: unsigned_of_nat take_bit_nat_eq_self)
  have count: "unat (of_nat (length (remb_ssrcs p)) :: byte) = length (remb_ssrcs p)"
    using assms(1) by (simp add: Remb_wf_def unat_of_nat)
  have "Remb_body p = common_wire p @ WriteBigEndian 4 kUniqueIdentifier @
      [of_nat (length (remb_ssrcs p)), ?b13] @ WriteBigEndian 2 (ucast (m AND 0xffff) :: uint16) @
      concat (map (WriteBigEndian 4) (remb_ssrcs p))"
    by (simp add: Remb_body_def sd)
  moreover have "drop_bit e (push_bit e m) = m"
    by (rule scale_down_no_overflow [OF Remb_kMaxMantissa_exp _ sd]) simp
  moreover have "rate_canon Remb_kMaxMantissa (remb_bitrate_bps p) = push_bit e m"
    by (simp add: rate_canon_def sd)
  ultimately show ?thesis
    using assms(2,3)
    by (simp add: Remb_Parse_def Remb_canon_def length_Remb_body wire_simps count exp Let_def
        bytes(2) u32.length_enc_all u32.read_items_exact list_all_iff del: drop_bit_push_bit)
qed

interpretation remb: rtcp_codec Remb_wf Remb_BlockLength Remb_Create Remb_wire Remb_Parse 206
  "\<lambda>_. 15" Remb_body Remb_canon
proof unfold_locales
  fix p :: remb and maxlen s
  show "Remb_Create p maxlen s = with_room (Remb_BlockLength p) maxlen (emit (Remb_wire p)) s"
    unfolding Remb_Create_def Remb_wire_def using length_Remb_body [of p]
    by (intro with_room_cong)
      (simp add: out_simps Remb_body_def Remb_BlockLength_def u32.length_enc_all split: prod.split)
  show "length (Remb_wire p) = Remb_BlockLength p"
    by (simp add: Remb_wire_def length_Remb_body Remb_BlockLength_def)
  show "4 dvd Remb_BlockLength p" "4 \<le> Remb_BlockLength p"
    by (simp_all add: Remb_BlockLength_def)
  show "Remb_BlockLength p \<le> 262144" if "Remb_wf p"
    using that by (simp add: Remb_wf_def Remb_BlockLength_def)
next
  show "Remb_Parse h \<noteq> None" if "valid_header h" for h
    unfolding Remb_Parse_def using that by (intro safeD safe_intros safe_map_option) auto
qed (simp_all add: Remb_wire_def Remb_Parse_body)

section \<open>Temporary maximum media stream bit rate\<close>

record tmmb_item =
  tmmb_ssrc :: uint32
  tmmb_bitrate_bps :: uint64
  tmmb_packet_overhead :: uint16

abbreviation (input) TmmbItem_kLength :: nat where "TmmbItem_kLength \<equiv> 8"
abbreviation (input) Tmmb_kMaxMantissa :: uint64 where "Tmmb_kMaxMantissa \<equiv> 0x1ffff"

definition TmmbItem_new :: "uint32 \<Rightarrow> uint64 \<Rightarrow> uint16 \<Rightarrow> tmmb_item" where
  "TmmbItem_new ssrc bitrate_bps overhead =
     \<lparr>tmmb_ssrc = ssrc, tmmb_bitrate_bps = bitrate_bps, tmmb_packet_overhead = overhead\<rparr>"

definition TmmbItem_set_ssrc :: "uint32 \<Rightarrow> tmmb_item \<Rightarrow> tmmb_item" where
  "TmmbItem_set_ssrc ssrc item = item\<lparr>tmmb_ssrc := ssrc\<rparr>"

definition TmmbItem_set_bitrate_bps :: "uint64 \<Rightarrow> tmmb_item \<Rightarrow> tmmb_item" where
  "TmmbItem_set_bitrate_bps bitrate_bps item = item\<lparr>tmmb_bitrate_bps := bitrate_bps\<rparr>"

definition TmmbItem_set_packet_overhead :: "uint16 \<Rightarrow> tmmb_item \<Rightarrow> tmmb_item" where
  "TmmbItem_set_packet_overhead overhead item = item\<lparr>tmmb_packet_overhead := overhead\<rparr>"

definition TmmbItem_Parse :: "byte list \<Rightarrow> (rtcp_error + tmmb_item) option" where
  "TmmbItem_Parse buf = do {
     ssrc \<leftarrow> ReadBigEndian 4 (drop 0 buf);
     compact \<leftarrow> (ReadBigEndian 4 (drop 4 buf) :: uint32 option);
     let exponent = (ucast (drop_bit 26 compact) :: byte);
     let mantissa = (ucast (drop_bit 9 compact AND 0x1ffff) :: uint64);
     let overhead = (ucast (compact AND 0x1ff) :: uint16);
     let bitrate_bps = push_bit (unat exponent) mantissa;
     let shift_overflow = (drop_bit (unat exponent) bitrate_bps \<noteq> mantissa);
     if shift_overflow then Some (Inl BitrateOverflow)
     else Some (Inr \<lparr>tmmb_ssrc = ssrc, tmmb_bitrate_bps = bitrate_bps,
                      tmmb_packet_overhead = overhead\<rparr>) }"

definition TmmbItem_compact :: "tmmb_item \<Rightarrow> uint32" where
  "TmmbItem_compact item =
     (case scale_down Tmmb_kMaxMantissa (tmmb_bitrate_bps item) 0 of (mantissa, exponent) \<Rightarrow>
        ucast (ucast (push_bit 26 (of_nat exponent :: uint32)) OR push_bit 9 mantissa OR
               ucast (tmmb_packet_overhead item) :: uint64))"

definition TmmbItem_Create :: "tmmb_item \<Rightarrow> out \<Rightarrow> out option" where
  "TmmbItem_Create item s = do {
     s \<leftarrow> put 0 (WriteBigEndian 4 (tmmb_ssrc item)) s;
     put 4 (WriteBigEndian 4 (TmmbItem_compact item)) s }"

definition TmmbItem_wire :: "tmmb_item \<Rightarrow> byte list" where
  "TmmbItem_wire item = WriteBigEndian 4 (tmmb_ssrc item) @ WriteBigEndian 4 (TmmbItem_compact item)"

definition TmmbItem_wf :: "tmmb_item \<Rightarrow> bool" where
  "TmmbItem_wf item \<longleftrightarrow> tmmb_packet_overhead item \<le> 0x1ff"

definition TmmbItem_canon :: "tmmb_item \<Rightarrow> tmmb_item" where
  "TmmbItem_canon item =
     item\<lparr>tmmb_bitrate_bps := rate_canon Tmmb_kMaxMantissa (tmmb_bitrate_bps item)\<rparr>"

text \<open>The loop over items of \<open>Tmmbn::Parse\<close> and \<open>Tmmbr::Parse\<close>, which stops at a rejected item.\<close>

fun Tmmb_ParseItems :: "nat \<Rightarrow> byte list \<Rightarrow> (rtcp_error + tmmb_item list) option" where
  "Tmmb_ParseItems 0 next_item = Some (Inr [])"
| "Tmmb_ParseItems (Suc n) next_item = do {
     r \<leftarrow> TmmbItem_Parse next_item;
     (case r of
        Inl e \<Rightarrow> Some (Inl e)
      | Inr item \<Rightarrow> do {
          rs \<leftarrow> Tmmb_ParseItems n (drop TmmbItem_kLength next_item);
          (case rs of Inl e \<Rightarrow> Some (Inl e) | Inr items \<Rightarrow> Some (Inr (item # items))) }) }"

lemma Tmmb_kMaxMantissa_exp: "unat Tmmb_kMaxMantissa = 2 ^ 17 - 1"
  by simp

lemma Tmmb_compact_fields:
  fixes m :: uint64 and e :: uint32 and v :: uint16
  assumes "unat m < 2 ^ 17" "unat e < 2 ^ 6" "unat v < 2 ^ 9"
  defines "compact \<equiv> ucast (ucast (push_bit 26 e) OR push_bit 9 m OR ucast v :: uint64) :: uint32"
  shows "(ucast (drop_bit 26 compact) :: byte) = ucast e"
    and "(ucast (drop_bit 9 compact AND 0x1ffff) :: uint64) = m"
    and "(ucast (compact AND 0x1ff) :: uint16) = v"
proof -
  note bits = bit_less_exp [OF assms(1)] bit_less_exp [OF assms(2)] bit_less_exp [OF assms(3)]
  have k: "0x1ffff = (mask 17 :: uint32)" "0x1ff = (mask 9 :: uint32)" by (simp_all add: mask_eq_exp_minus_1)
  show "(ucast (drop_bit 26 compact) :: byte) = ucast e"
    unfolding compact_def by (rule bit_word_eqI) (auto simp: bit_simps dest: bits)
  show "(ucast (drop_bit 9 compact AND 0x1ffff) :: uint64) = m"
    unfolding compact_def k by (rule bit_word_eqI) (auto simp: bit_simps dest: bits)
  show "(ucast (compact AND 0x1ff) :: uint16) = v"
    unfolding compact_def k by (rule bit_word_eqI) (auto simp: bit_simps dest: bits)
qed

lemma length_TmmbItem_wire [simp]: "length (TmmbItem_wire item) = 8"
  by (simp add: TmmbItem_wire_def)

lemma TmmbItem_Parse_wire:
  assumes "TmmbItem_wf item"
  shows "TmmbItem_Parse (TmmbItem_wire item @ rest) = Some (Inr (TmmbItem_canon item))"
proof -
  obtain m e where sd: "scale_down Tmmb_kMaxMantissa (tmmb_bitrate_bps item) 0 = (m, e)" by fastforce
  note scale = scale_down_exponent [OF Tmmb_kMaxMantissa_exp _ sd, simplified]
  have e: "e < 64" "unat (of_nat e :: uint32) < 2 ^ 6" using scale(3) by (auto simp: unat_of_nat)
  have "unat m < 2 ^ 17" "unat (tmmb_packet_overhead item) < 2 ^ 9"
    using scale(2) assms by (simp_all add: TmmbItem_wf_def word_le_nat_alt)
  note fields = Tmmb_compact_fields [OF this(1) e(2) this(2)]
  have compact: "TmmbItem_compact item = ucast (ucast (push_bit 26 (of_nat e :: uint32)) OR push_bit 9 m OR
               ucast (tmmb_packet_overhead item) :: uint64)"
    by (simp add: TmmbItem_compact_def sd)
  have "unat (ucast (drop_bit 26 (TmmbItem_compact item)) :: byte) = e"
    unfolding compact fields(1) using e(1) by (simp add: unsigned_of_nat take_bit_nat_eq_self)
  moreover have "drop_bit e (push_bit e m) = m"
    by (rule scale_down_no_overflow [OF Tmmb_kMaxMantissa_exp _ sd]) simp
  moreover have "rate_canon Tmmb_kMaxMantissa (tmmb_bitrate_bps item) = push_bit e m"
    by (simp add: rate_canon_def sd)
  ultimately show ?thesis
    using fields(2,3) [folded compact]
    by (simp add: TmmbItem_Parse_def TmmbItem_wire_def TmmbItem_canon_def wire_simps Let_def
        del: drop_bit_push_bit)
qed

lemma Tmmb_ParseItems_wire:
  "list_all TmmbItem_wf items \<Longrightarrow>
   Tmmb_ParseItems (length items) (concat (map TmmbItem_wire items)) =
     Some (Inr (map TmmbItem_canon items))"
  by (induction items) (simp_all add: TmmbItem_Parse_wire)

lemma safe_TmmbItem_Parse [safe_intros]: "8 \<le> length data \<Longrightarrow> safe (TmmbItem_Parse data)"
  unfolding TmmbItem_Parse_def by (intro safe_intros) auto

lemma safe_Tmmb_ParseItems [safe_intros]: "n * 8 \<le> length data \<Longrightarrow> safe (Tmmb_ParseItems n data)"
  by (induction n data rule: Tmmb_ParseItems.induct) (auto intro!: safe_intros)

lemma TmmbItem_Create_emit [out_simps]:
  "Option.bind (TmmbItem_Create item s) (advance 8) = emit (TmmbItem_wire item) s"
  by (simp add: TmmbItem_Create_def TmmbItem_wire_def out_simps put_put)

lemma length_TmmbItems [simp]: "length (concat (map TmmbItem_wire items)) = 8 * length items"
  by (rule length_concat_const) simp

section \<open>Notification\<close>

record tmmbn = common_feedback +
  tmmbn_items :: "tmmb_item list"

definition Tmmbn_AddTmmbr :: "tmmb_item \<Rightarrow> tmmbn \<Rightarrow> tmmbn" where
  "Tmmbn_AddTmmbr item p = p\<lparr>tmmbn_items := tmmbn_items p @ [item]\<rparr>"

definition Tmmbn_BlockLength :: "tmmbn \<Rightarrow> nat" where
  "Tmmbn_BlockLength p =
     kHeaderLength + kCommonFeedbackLength + TmmbItem_kLength * length (tmmbn_items p)"

definition Tmmbn_Parse :: "common_header \<Rightarrow> (rtcp_error + tmmbn) option" where
  "Tmmbn_Parse packet =
     (if ch_payload_size packet < kCommonFeedbackLength then Some (Inl PayloadTooSmall)
      else do {
        let items_size_bytes = ch_payload_size packet - kCommonFeedbackLength;
        if items_size_bytes mod TmmbItem_kLength \<noteq> 0 then Some (Inl InvalidPayloadSize)
        else do {
          (sender_ssrc, media_ssrc) \<leftarrow> Rtpfb_ParseCommonFeedback (payload packet);
          let number_of_items = items_size_bytes div TmmbItem_kLength;
          r \<leftarrow> Tmmb_ParseItems number_of_items (drop kCommonFeedbackLength (payload packet));
          (case r of
             Inl e \<Rightarrow> Some (Inl e)
           | Inr items \<Rightarrow> Some (Inr \<lparr>fb_sender_ssrc = sender_ssrc, fb_media_ssrc = media_ssrc,
               tmmbn_items = items\<rparr>)) } })"

definition Tmmbn_Create :: "tmmbn \<Rightarrow> nat \<Rightarrow> out \<Rightarrow> (bool \<times> out) option" where
  "Tmmbn_Create p max_length s =
     with_room (Tmmbn_BlockLength p) max_length (\<lambda>s. do {
       let index_end = index s + Tmmbn_BlockLength p;
       s \<leftarrow> CreateHeader 4 205 (HeaderLength (Tmmbn_BlockLength p)) s;
       s \<leftarrow> Rtpfb_CreateCommonFeedback p s;
       s \<leftarrow> advance kCommonFeedbackLength s;
       s \<leftarrow> for_each (\<lambda>item s. do {
              s \<leftarrow> TmmbItem_Create item s;
              advance TmmbItem_kLength s }) (tmmbn_items p) s;
       check_index index_end s }) s"

definition Tmmbn_body :: "tmmbn \<Rightarrow> byte list" where
  "Tmmbn_body p = common_wire p @ concat (map TmmbItem_wire (tmmbn_items p))"

definition Tmmbn_wire :: "tmmbn \<Rightarrow> byte list" where
  "Tmmbn_wire p = header_bytes 4 205 (HeaderLength (Tmmbn_BlockLength p)) @ Tmmbn_body p"

definition Tmmbn_wf :: "tmmbn \<Rightarrow> bool" where
  "Tmmbn_wf p \<longleftrightarrow> list_all TmmbItem_wf (tmmbn_items p) \<and> Tmmbn_BlockLength p \<le> 262144"

definition Tmmbn_canon :: "tmmbn \<Rightarrow> tmmbn" where
  "Tmmbn_canon p = p\<lparr>tmmbn_items := map TmmbItem_canon (tmmbn_items p)\<rparr>"

interpretation tmmbn: rtcp_codec Tmmbn_wf Tmmbn_BlockLength Tmmbn_Create Tmmbn_wire Tmmbn_Parse 205
  "\<lambda>_. 4" Tmmbn_body Tmmbn_canon
proof unfold_locales
  fix p :: tmmbn and maxlen s
  show "Tmmbn_Create p maxlen s = with_room (Tmmbn_BlockLength p) maxlen (emit (Tmmbn_wire p)) s"
    unfolding Tmmbn_Create_def Tmmbn_wire_def Tmmbn_body_def
    by (rule with_room_cong) (simp add: out_simps Tmmbn_BlockLength_def)
  show "length (Tmmbn_wire p) = Tmmbn_BlockLength p"
    by (simp add: Tmmbn_wire_def Tmmbn_body_def Tmmbn_BlockLength_def)
  show "4 dvd Tmmbn_BlockLength p" "4 \<le> Tmmbn_BlockLength p"
    by (simp_all add: Tmmbn_BlockLength_def)
next
  fix p :: tmmbn and h
  assume "Tmmbn_wf p" "ch_payload_size h = length (Tmmbn_body p)" "payload h = Tmmbn_body p"
  then show "Tmmbn_Parse h = Some (Inr (Tmmbn_canon p))"
    by (simp add: Tmmbn_Parse_def Tmmbn_body_def Tmmbn_wf_def Tmmbn_canon_def wire_simps
        Tmmb_ParseItems_wire Suc_le_eq)
next
  show "Tmmbn_Parse h \<noteq> None" if "valid_header h" for h
    unfolding Tmmbn_Parse_def using that by (intro safeD safe_intros) auto
qed (simp_all add: Tmmbn_wire_def Tmmbn_wf_def)

section \<open>Request\<close>

record tmmbr = common_feedback +
  tmmbr_items :: "tmmb_item list"

definition Tmmbr_AddTmmbr :: "tmmb_item \<Rightarrow> tmmbr \<Rightarrow> tmmbr" where
  "Tmmbr_AddTmmbr item p = p\<lparr>tmmbr_items := tmmbr_items p @ [item]\<rparr>"

definition Tmmbr_BlockLength :: "tmmbr \<Rightarrow> nat" where
  "Tmmbr_BlockLength p =
     kHeaderLength + kCommonFeedbackLength + TmmbItem_kLength * length (tmmbr_items p)"

definition Tmmbr_Parse :: "common_header \<Rightarrow> (rtcp_error + tmmbr) option" where
  "Tmmbr_Parse packet =
     (if ch_payload_size packet < kCommonFeedbackLength + TmmbItem_kLength then Some (Inl PayloadTooSmall)
      else do {
        let items_size_bytes = ch_payload_size packet - kCommonFeedbackLength;
        if items_size_bytes mod TmmbItem_kLength \<noteq> 0 then Some (Inl InvalidPayloadSize)
        else do {
          (sender_ssrc, media_ssrc) \<leftarrow> Rtpfb_ParseCommonFeedback (payload packet);
          let number_of_items = items_size_bytes div TmmbItem_kLength;
          r \<leftarrow> Tmmb_ParseItems number_of_items (drop kCommonFeedbackLength (payload packet));
          (case r of
             Inl e \<Rightarrow> Some (Inl e)
           | Inr items \<Rightarrow> Some (Inr \<lparr>fb_sender_ssrc = sender_ssrc, fb_media_ssrc = media_ssrc,
               tmmbr_items = items\<rparr>)) } })"

definition Tmmbr_Create :: "tmmbr \<Rightarrow> nat \<Rightarrow> out \<Rightarrow> (bool \<times> out) option" where
  "Tmmbr_Create p max_length s =
     with_room (Tmmbr_BlockLength p) max_length (\<lambda>s. do {
       let index_end = index s + Tmmbr_BlockLength p;
       s \<leftarrow> CreateHeader 3 205 (HeaderLength (Tmmbr_BlockLength p)) s;
       s \<leftarrow> Rtpfb_CreateCommonFeedback p s;
       s \<leftarrow> advance kCommonFeedbackLength s;
       s \<leftarrow> for_each (\<lambda>item s. do {
              s \<leftarrow> TmmbItem_Create item s;
              advance TmmbItem_kLength s }) (tmmbr_items p) s;
       check_index index_end s }) s"

definition Tmmbr_body :: "tmmbr \<Rightarrow> byte list" where
  "Tmmbr_body p = common_wire p @ concat (map TmmbItem_wire (tmmbr_items p))"

definition Tmmbr_wire :: "tmmbr \<Rightarrow> byte list" where
  "Tmmbr_wire p = header_bytes 3 205 (HeaderLength (Tmmbr_BlockLength p)) @ Tmmbr_body p"

definition Tmmbr_wf :: "tmmbr \<Rightarrow> bool" where
  "Tmmbr_wf p \<longleftrightarrow> tmmbr_items p \<noteq> [] \<and> list_all TmmbItem_wf (tmmbr_items p) \<and> Tmmbr_BlockLength p \<le> 262144"

definition Tmmbr_canon :: "tmmbr \<Rightarrow> tmmbr" where
  "Tmmbr_canon p = p\<lparr>tmmbr_items := map TmmbItem_canon (tmmbr_items p)\<rparr>"

interpretation tmmbr: rtcp_codec Tmmbr_wf Tmmbr_BlockLength Tmmbr_Create Tmmbr_wire Tmmbr_Parse 205
  "\<lambda>_. 3" Tmmbr_body Tmmbr_canon
proof unfold_locales
  fix p :: tmmbr and maxlen s
  show "Tmmbr_Create p maxlen s = with_room (Tmmbr_BlockLength p) maxlen (emit (Tmmbr_wire p)) s"
    unfolding Tmmbr_Create_def Tmmbr_wire_def Tmmbr_body_def
    by (rule with_room_cong) (simp add: out_simps Tmmbr_BlockLength_def)
  show "length (Tmmbr_wire p) = Tmmbr_BlockLength p"
    by (simp add: Tmmbr_wire_def Tmmbr_body_def Tmmbr_BlockLength_def)
  show "4 dvd Tmmbr_BlockLength p" "4 \<le> Tmmbr_BlockLength p"
    by (simp_all add: Tmmbr_BlockLength_def)
next
  fix p :: tmmbr and h
  assume "Tmmbr_wf p" "ch_payload_size h = length (Tmmbr_body p)" "payload h = Tmmbr_body p"
  then show "Tmmbr_Parse h = Some (Inr (Tmmbr_canon p))"
    by (simp add: Tmmbr_Parse_def Tmmbr_body_def Tmmbr_wf_def Tmmbr_canon_def wire_simps
        Tmmb_ParseItems_wire Suc_le_eq)
next
  show "Tmmbr_Parse h \<noteq> None" if "valid_header h" for h
    unfolding Tmmbr_Parse_def using that by (intro safeD safe_intros) auto
qed (simp_all add: Tmmbr_wire_def Tmmbr_wf_def)

section \<open>Properties\<close>





end
