(* ===== verification/RtcpNack.thy ===== *)
theory RtcpNack
  imports RtcpFeedback
begin

text \<open>
  Generic NACK (\<open>nack.cc\<close>): packing lost sequence numbers into pairs of a first number and a
  16 bit mask, unpacking them, and a \<open>Create\<close> that fragments one list over several blocks and
  packets. The class meets the \<open>rtcp_format\<close> contract; its \<open>Create\<close> is richer than
  \<open>rtcp_packet\<close> allows and has its own lemmas.
\<close>

section \<open>State and packing\<close>

record packed_nack =
  first_pid :: uint16
  bitmask :: uint16

record nack = common_feedback +
  nack_packed :: "packed_nack list"
  nack_packet_ids :: "uint16 list"

abbreviation (input) kNackItemLength :: nat where "kNackItemLength \<equiv> 4"
abbreviation (input) kNackHeaderLength :: nat where
  "kNackHeaderLength \<equiv> kHeaderLength + kCommonFeedbackLength"

definition Nack_new :: nack where
  "Nack_new = \<lparr>fb_sender_ssrc = 0, fb_media_ssrc = 0, nack_packed = [], nack_packet_ids = []\<rparr>"

text \<open>The inner loop of \<open>Pack\<close>: collect following numbers while they are in reach of the mask.\<close>

fun Pack_bitmask :: "uint16 \<Rightarrow> uint16 \<Rightarrow> uint16 list \<Rightarrow> uint16 \<times> uint16 list" where
  "Pack_bitmask pid bm [] = (bm, [])"
| "Pack_bitmask pid bm (x # ids) =
     (let shift = x - pid - 1 in
      if shift \<le> 15 then Pack_bitmask pid (bm OR push_bit (unat shift) 1) ids
      else (bm, x # ids))"

lemma Pack_bitmask_length: "Pack_bitmask pid bm ids = (bm', rest) \<Longrightarrow> length rest \<le> length ids"
  by (induction ids arbitrary: bm) (auto simp: Let_def le_SucI split: if_splits)

function Pack :: "uint16 list \<Rightarrow> packed_nack list" where
  "Pack [] = []"
| "Pack (x # ids) =
     (case Pack_bitmask x 0 ids of
        (bm, rest) \<Rightarrow> \<lparr>first_pid = x, bitmask = bm\<rparr> # Pack rest)"
  by pat_completeness auto
termination
  by (relation "measure length") (auto dest!: Pack_bitmask_length [OF sym])

function Unpack_bits :: "uint16 \<Rightarrow> uint16 \<Rightarrow> uint16 list" where
  "Unpack_bits bm pid =
     (if bm \<noteq> 0
      then (if bm AND 1 \<noteq> 0 then [pid] else []) @ Unpack_bits (drop_bit 1 bm) (pid + 1)
      else [])"
  by pat_completeness auto
termination
  by (relation "measure (\<lambda>(bm, _). unat bm)")
    (auto simp: drop_bit_eq_div unat_div_distrib unat_gt_0)

declare Unpack_bits.simps [simp del]

definition Unpack :: "packed_nack list \<Rightarrow> uint16 list" where
  "Unpack packed = concat (map (\<lambda>item. first_pid item # Unpack_bits (bitmask item) (first_pid item + 1)) packed)"

definition Nack_SetPacketIds :: "uint16 list \<Rightarrow> nack \<Rightarrow> nack" where
  "Nack_SetPacketIds nack_list p =
     p\<lparr>nack_packet_ids := nack_list, nack_packed := nack_packed p @ Pack nack_list\<rparr>"

definition Nack_BlockLength :: "nack \<Rightarrow> nat" where
  "Nack_BlockLength p =
     kHeaderLength + kCommonFeedbackLength + length (nack_packed p) * kNackItemLength"

section \<open>Parsing and writing\<close>

definition Nack_ParseItem :: "byte list \<Rightarrow> packed_nack option" where
  "Nack_ParseItem next_nack = do {
     pid \<leftarrow> ReadBigEndian 2 next_nack;
     bm \<leftarrow> ReadBigEndian 2 (drop 2 next_nack);
     Some \<lparr>first_pid = pid, bitmask = bm\<rparr> }"

definition Nack_Parse :: "common_header \<Rightarrow> (rtcp_error + nack) option" where
  "Nack_Parse packet =
     (if ch_payload_size packet < kCommonFeedbackLength + kNackItemLength
      then Some (Inl PayloadTooSmall)
      else do {
        let nack_items = (ch_payload_size packet - kCommonFeedbackLength) div kNackItemLength;
        (sender_ssrc, media_ssrc) \<leftarrow> Rtpfb_ParseCommonFeedback (payload packet);
        packed \<leftarrow> read_items Nack_ParseItem kNackItemLength nack_items
                    (drop kCommonFeedbackLength (payload packet));
        Some (Inr \<lparr>fb_sender_ssrc = sender_ssrc, fb_media_ssrc = media_ssrc,
          nack_packed = packed, nack_packet_ids = Unpack packed\<rparr>) })"

definition CheckedDivExact :: "nat \<Rightarrow> nat \<Rightarrow> nat option" where
  "CheckedDivExact a b = (if a mod b = 0 then Some (a div b) else None)"

definition Nack_CreateItem :: "packed_nack \<Rightarrow> out \<Rightarrow> out option" where
  "Nack_CreateItem item s = do {
     s \<leftarrow> put 0 (WriteBigEndian 2 (first_pid item)) s;
     s \<leftarrow> put 2 (WriteBigEndian 2 (bitmask item)) s;
     advance kNackItemLength s }"

text \<open>One round of the loop that has room: a complete NACK block for the given items.\<close>

definition Nack_CreateBlock :: "nack \<Rightarrow> packed_nack list \<Rightarrow> nat \<Rightarrow> out \<Rightarrow> out option" where
  "Nack_CreateBlock p items max_length s = do {
     let payload_size_bytes = kCommonFeedbackLength + length items * kNackItemLength;
     payload_size_32bits \<leftarrow> CheckedDivExact payload_size_bytes 4;
     s \<leftarrow> CreateHeader 1 205 payload_size_32bits s;
     s \<leftarrow> Rtpfb_CreateCommonFeedback p s;
     s \<leftarrow> advance kCommonFeedbackLength s;
     s \<leftarrow> for_each Nack_CreateItem items s;
     if index s \<le> max_length then Some s else None }"

text \<open>\<open>todo\<close> is what is left of \<open>packed_\<close> from \<open>nack_index\<close> on.\<close>

function Nack_Create_loop ::
  "nack \<Rightarrow> nat \<Rightarrow> packed_nack list \<Rightarrow> out \<Rightarrow> (bool \<times> out) option" where
  "Nack_Create_loop p max_length todo s =
     (if todo = [] then Some (True, s)
      else
        let bytes_left_in_buffer = size_sub max_length (index s) in
        if bytes_left_in_buffer < kNackHeaderLength + kNackItemLength then
          (case OnBufferFull s of
             None \<Rightarrow> None
           | Some (ok, s') \<Rightarrow> if \<not> ok then Some (False, s') else Nack_Create_loop p max_length todo s')
        else
          let num_nack_fields = min ((bytes_left_in_buffer - kNackHeaderLength) div kNackItemLength)
                                    (length todo) in
          (case Nack_CreateBlock p (take num_nack_fields todo) max_length s of
             None \<Rightarrow> None
           | Some s' \<Rightarrow> Nack_Create_loop p max_length (drop num_nack_fields todo) s'))"
  by pat_completeness auto
termination
  by (relation "measures [\<lambda>(_, _, todo, _). length todo, \<lambda>(_, _, _, s). index s]")
    (auto simp: OnBufferFull_def split: if_splits)

declare Nack_Create_loop.simps [simp del]

definition Nack_Create :: "nack \<Rightarrow> nat \<Rightarrow> out \<Rightarrow> (bool \<times> out) option" where
  "Nack_Create p max_length s = Nack_Create_loop p max_length (nack_packed p) s"

definition PackedNack_wire :: "packed_nack \<Rightarrow> byte list" where
  "PackedNack_wire item = WriteBigEndian 2 (first_pid item) @ WriteBigEndian 2 (bitmask item)"

definition nack_block :: "nack \<Rightarrow> packed_nack list \<Rightarrow> byte list" where
  "nack_block p items =
     header_bytes 1 205 (2 + length items) @ common_wire p @ concat (map PackedNack_wire items)"

definition Nack_body :: "nack \<Rightarrow> byte list" where
  "Nack_body p = common_wire p @ concat (map PackedNack_wire (nack_packed p))"

definition Nack_wire :: "nack \<Rightarrow> byte list" where
  "Nack_wire p = nack_block p (nack_packed p)"

definition Nack_wf :: "nack \<Rightarrow> bool" where
  "Nack_wf p \<longleftrightarrow> nack_packed p \<noteq> [] \<and> Nack_BlockLength p \<le> 262144"

definition Nack_canon :: "nack \<Rightarrow> nack" where
  "Nack_canon p = p\<lparr>nack_packet_ids := Unpack (nack_packed p)\<rparr>"

interpretation packed_nack: item_codec PackedNack_wire Nack_ParseItem 4 "\<lambda>_. True"
proof unfold_locales
  show "\<exists>x. Nack_ParseItem data = Some x" if "4 \<le> length data" for data
    using that by (auto simp: Nack_ParseItem_def ReadBigEndian_eq)
qed (simp_all add: PackedNack_wire_def Nack_ParseItem_def wire_simps)

declare packed_nack.safe_read_items [safe_intros]

interpretation nack: rtcp_format Nack_wf Nack_BlockLength Nack_wire Nack_Parse 205 "\<lambda>_. 1"
  Nack_body Nack_canon
proof unfold_locales
  fix p :: nack
  show "length (Nack_wire p) = Nack_BlockLength p"
    by (simp add: Nack_wire_def nack_block_def Nack_BlockLength_def packed_nack.length_enc_all)
  show "4 dvd Nack_BlockLength p" "4 \<le> Nack_BlockLength p"
    by (simp_all add: Nack_BlockLength_def)
  show "Nack_wire p = header_bytes 1 205 (HeaderLength (Nack_BlockLength p)) @ Nack_body p"
    by (simp add: Nack_wire_def nack_block_def Nack_body_def Nack_BlockLength_def HeaderLength_def)
next
  fix p :: nack and h
  assume "Nack_wf p" "ch_payload_size h = length (Nack_body p)" "payload h = Nack_body p"
  then show "Nack_Parse h = Some (Inr (Nack_canon p))"
    by (simp add: Nack_Parse_def Nack_body_def Nack_wf_def Nack_canon_def wire_simps
        packed_nack.length_enc_all packed_nack.read_items_exact list_all_iff Suc_le_eq)
next
  show "Nack_Parse h \<noteq> None" if "valid_header h" for h
    unfolding Nack_Parse_def using that by (intro safeD safe_intros) auto
qed (simp_all add: Nack_wf_def)

section \<open>Packing is lossless\<close>

lemma Unpack_bits_filter:
  "unat bm < 2 ^ n \<Longrightarrow> Unpack_bits bm pid = map (\<lambda>i. pid + of_nat i) (filter (bit bm) [0..<n])"
proof (induction n arbitrary: bm pid)
  case 0
  then have "bm = 0" by (simp add: unat_eq_0)
  then show ?case by (simp add: Unpack_bits.simps)
next
  case (Suc n)
  have half: "unat (drop_bit 1 bm) < 2 ^ n"
    using Suc.prems by (simp add: drop_bit_eq_div unat_div_distrib less_mult_imp_div_less mult.commute)
  have upt: "[0..<Suc n] = 0 # map Suc [0..<n]" by (simp add: map_Suc_upt upt_conv_Cons)
  have "filter (bit bm) (map Suc [0..<n]) = map Suc (filter (bit (drop_bit 1 bm)) [0..<n])"
    by (simp add: filter_map comp_def bit_drop_bit_eq)
  moreover have "bm AND 1 \<noteq> 0 \<longleftrightarrow> bit bm 0" by (simp add: and_one_eq bit_0 odd_iff_mod_2_eq_one)
  ultimately show ?case
    using Suc.IH [OF half, of "pid + 1"] unfolding upt
    by (subst Unpack_bits.simps) (auto simp: comp_def ac_simps)
qed

lemma Pack_bitmask_bits:
  assumes "Pack_bitmask pid bm ids = (bm', rest)"
  shows "\<exists>taken. ids = taken @ rest \<and> (\<forall>x \<in> set taken. x - pid - 1 \<le> 15) \<and>
     (\<forall>i. bit bm' i \<longleftrightarrow> bit bm i \<or> (\<exists>x \<in> set taken. i = unat (x - pid - 1)))"
  using assms
proof (induction ids arbitrary: bm)
  case Nil
  then show ?case by simp
next
  case (Cons x ids)
  show ?case
  proof (cases "x - pid - 1 \<le> 15")
    case True
    then have "Pack_bitmask pid (bm OR push_bit (unat (x - pid - 1)) 1) ids = (bm', rest)"
      using Cons.prems by simp
    from Cons.IH [OF this] obtain taken where
      "ids = taken @ rest" "\<forall>x \<in> set taken. x - pid - 1 \<le> 15"
      and bits: "\<And>i. bit bm' i \<longleftrightarrow> bit (bm OR push_bit (unat (x - pid - 1)) 1) i \<or>
        (\<exists>x \<in> set taken. i = unat (x - pid - 1))"
      by blast
    moreover have "unat (x - pid - 1) < 16" using True by (simp add: word_le_nat_alt)
    then have "bit (push_bit (unat (x - pid - 1)) 1 :: uint16) i \<longleftrightarrow> i = unat (x - pid - 1)" for i
      by (auto simp: bit_simps simp del: push_bit_of_1)
    ultimately show ?thesis
      using True by (intro exI [of _ "x # taken"]) (auto simp: bit_or_iff simp del: push_bit_of_1)
  next
    case False
    then show ?thesis using Cons.prems by (intro exI [of _ "[]"]) auto
  qed
qed

lemma pid_shift_inverse: "pid + 1 + of_nat (unat (x - pid - 1)) = x" for x pid :: uint16
  by simp

lemma Unpack_Pack_group:
  assumes "Pack_bitmask pid 0 ids = (bm, rest)"
  obtains taken where "ids = taken @ rest" "set (Unpack_bits bm (pid + 1)) = set taken"
    and "\<And>x. x \<in> set taken \<Longrightarrow> unat (x - pid - 1) < 16"
    and "Unpack_bits bm (pid + 1) = map (\<lambda>i. pid + 1 + of_nat i) (filter (bit bm) [0..<16])"
    and "\<And>i. bit bm i \<longleftrightarrow> i \<in> (\<lambda>x. unat (x - pid - 1)) ` set taken"
proof -
  from Pack_bitmask_bits [OF assms] obtain taken where
    split: "ids = taken @ rest" and near: "\<forall>x \<in> set taken. x - pid - 1 \<le> 15"
    and bits: "\<forall>i. bit bm i \<longleftrightarrow> (\<exists>x \<in> set taken. i = unat (x - pid - 1))"
    by auto
  have lt: "unat (x - pid - 1) < 16" if "x \<in> set taken" for x
    using near that by (fastforce simp: word_le_nat_alt)
  have "unat bm < 2 ^ 16" using unsigned_less [of bm] by simp
  note ub = Unpack_bits_filter [OF this, of "pid + 1"]
  have "set (Unpack_bits bm (pid + 1)) = (\<lambda>i. pid + 1 + of_nat i) ` {i. i < 16 \<and> bit bm i}"
    unfolding ub by auto
  also have "{i. i < 16 \<and> bit bm i} = (\<lambda>x. unat (x - pid - 1)) ` set taken"
    using bits lt by auto
  also have "(\<lambda>i. pid + 1 + of_nat i) ` \<dots> = set taken"
    by (simp add: image_image pid_shift_inverse)
  finally show thesis using that split lt ub bits by blast
qed

lemma set_Unpack_Pack: "set (Unpack (Pack ids)) = set ids"
proof (induction ids rule: Pack.induct)
  case (2 x ids)
  obtain bm rest where pb: "Pack_bitmask x 0 ids = (bm, rest)" by fastforce
  from Unpack_Pack_group [OF pb] obtain taken where
    "ids = taken @ rest" "set (Unpack_bits bm (x + 1)) = set taken" by metis
  then show ?case using 2 [OF pb [symmetric]] pb by (auto simp: Unpack_def)
qed (simp add: Unpack_def)

text \<open>\<open>ahead a b\<close>: \<open>b\<close> follows \<open>a\<close> by at most half the number space.\<close>

definition ahead :: "uint16 \<Rightarrow> uint16 \<Rightarrow> bool" where
  "ahead a b \<longleftrightarrow> 0 < unat (b - a) \<and> unat (b - a) \<le> 0x8000"

lemma ahead_shift:
  assumes "ahead a b" "unat (a - pid) \<le> 16"
  shows "unat (a - pid) < unat (b - pid)"
proof -
  have "unat (b - pid) = (unat (a - pid) + unat (b - a)) mod 2 ^ 16"
    using unat_word_ariths(1) [of "a - pid" "b - a"] by simp
  then show ?thesis using assms by (simp add: ahead_def)
qed

lemma Unpack_bits_ascending:
  assumes "Pack_bitmask pid 0 ids = (bm, rest)" "successively ahead (pid # ids)"
  shows "\<exists>taken. ids = taken @ rest \<and> Unpack_bits bm (pid + 1) = taken"
proof -
  obtain taken where t: "ids = taken @ rest" "\<And>x. x \<in> set taken \<Longrightarrow> unat (x - pid - 1) < 16"
    and ub: "Unpack_bits bm (pid + 1) = map (\<lambda>i. pid + 1 + of_nat i) (filter (bit bm) [0..<16])"
    and bits: "\<And>i. bit bm i \<longleftrightarrow> i \<in> (\<lambda>x. unat (x - pid - 1)) ` set taken"
    using Unpack_Pack_group [OF assms(1)] by metis
  let ?shift = "\<lambda>x. unat (x - pid - 1)"
  have dist: "unat (x - pid) = ?shift x + 1" if "x \<in> set taken" for x
  proof -
    have "x - pid = (x - pid - 1) + 1" by simp
    then have "unat (x - pid) = (?shift x + 1) mod 2 ^ 16"
      using unat_word_ariths(1) [of "x - pid - 1" 1] by simp
    then show ?thesis using t(2) [OF that] by simp
  qed
  have "successively ahead (pid # taken)" using assms(2) by (simp add: t(1) successively_append_iff flip: append_Cons)
  then have "successively (\<lambda>a b. unat (a - pid) < unat (b - pid)) (pid # taken)"
  proof (rule successively_mono)
    fix a b
    assume "a \<in> set (pid # taken)" "ahead a b"
    then show "unat (a - pid) < unat (b - pid)"
      using dist t(2) by (intro ahead_shift) (fastforce simp: less_Suc_eq_le)+
  qed
  then have "sorted_wrt (\<lambda>a b. unat (a - pid) < unat (b - pid)) taken"
    by (subst (asm) successively_conv_sorted_wrt) (auto simp: transp_def)
  then have "sorted_wrt (\<lambda>a b. ?shift a < ?shift b) taken"
    by (rule sorted_wrt_mono_rel [rotated]) (simp add: dist)
  then have "sorted_wrt (<) (map ?shift taken)" by (simp add: sorted_wrt_map)
  moreover have "sorted_wrt (<) (filter (bit bm) [0..<16])"
    by (rule sorted_wrt_filter) simp
  moreover have "set (map ?shift taken) = set (filter (bit bm) [0..<16])"
    using bits t(2) by auto
  ultimately have "map ?shift taken = filter (bit bm) [0..<16]"
    by (metis strict_sorted_equal)
  then have "Unpack_bits bm (pid + 1) = map (\<lambda>i. pid + 1 + of_nat i) (map ?shift taken)"
    by (simp add: ub)
  then show ?thesis using t(1) by (simp add: comp_def)
qed

lemma Unpack_Pack_ascending: "successively ahead ids \<Longrightarrow> Unpack (Pack ids) = ids"
proof (induction ids rule: Pack.induct)
  case (2 x ids)
  obtain bm rest where pb: "Pack_bitmask x 0 ids = (bm, rest)" by fastforce
  from Unpack_bits_ascending [OF pb "2.prems"] obtain taken where
    t: "ids = taken @ rest" "Unpack_bits bm (x + 1) = taken" by blast
  have "successively ahead rest"
    using "2.prems" by (simp add: t(1) successively_append_iff flip: append_Cons)
  with "2.IH" [OF pb [symmetric]] show ?case
    using pb t by (simp add: Unpack_def)
qed (simp add: Unpack_def)

lemma Pack_Nil_iff [simp]: "Pack ids = [] \<longleftrightarrow> ids = []"
  by (cases ids) (auto split: prod.split)

section \<open>Fragmentation\<close>

lemma Nack_CreateItem_emit: "Nack_CreateItem item s = emit (PackedNack_wire item) s"
  by (simp add: Nack_CreateItem_def PackedNack_wire_def out_simps)

lemma length_nack_block [simp]: "length (nack_block p items) = 12 + 4 * length items"
  by (simp add: nack_block_def packed_nack.length_enc_all)

lemma Nack_CreateBlock_emit:
  assumes "index s + (12 + 4 * length items) \<le> maxlen"
  shows "Nack_CreateBlock p items maxlen s = emit (nack_block p items) s"
proof -
  have "Nack_CreateBlock p items maxlen s =
      Option.bind (emit (nack_block p items) s) (\<lambda>s. if index s \<le> maxlen then Some s else None)"
    by (simp add: Nack_CreateBlock_def CheckedDivExact_def nack_block_def out_simps
        Nack_CreateItem_emit)
  then show ?thesis using assms by (simp add: emit_eq)
qed

abbreviation (input) cur :: "out \<Rightarrow> byte list" where
  "cur s \<equiv> take (index s) (buffer s)"

text \<open>
  With a callback and room for at least one item, the items are written in order, in blocks of
  at least one item; no packet exceeds the limit and nothing else is written.
\<close>

lemma Nack_Create_loop_fragments:
  assumes "out_ok maxlen s" "callback s" "16 \<le> maxlen"
  shows "\<exists>s' new groups. Nack_Create_loop p maxlen todo s = Some (True, s') \<and> out_ok maxlen s' \<and>
     ready s' = ready s @ new \<and> (\<forall>packet \<in> set new. length packet \<le> maxlen) \<and>
     concat groups = todo \<and> [] \<notin> set groups \<and>
     concat new @ cur s' = cur s @ concat (map (nack_block p) groups)"
  using assms
proof (induction p maxlen todo s rule: Nack_Create_loop.induct)
  case (1 p maxlen todo s)
  have ok: "index s \<le> maxlen" "maxlen \<le> length (buffer s)" using "1.prems" by (simp_all add: out_ok_def)
  let ?left = "maxlen - index s"
  consider (finished) "todo = []" | (full) "todo \<noteq> []" "?left < 16" | (room) "todo \<noteq> []" "16 \<le> ?left"
    by linarith
  then show ?case
  proof cases
    case finished
    then have "Nack_Create_loop p maxlen todo s = Some (True, s) \<and> concat [] = todo"
      by (simp add: Nack_Create_loop.simps)
    then show ?thesis using "1.prems" by (intro exI [of _ s] exI [of _ "[]"]) auto
  next
    case full
    then have pos: "index s \<noteq> 0" using "1.prems"(3) by auto
    have "OnBufferFull s = Some (True, flushed s)"
      using pos "1.prems"(2) by (simp add: OnBufferFull_def flushed_def)
    moreover have "out_ok maxlen (flushed s)" "callback (flushed s)"
      using "1.prems" by (simp_all add: out_ok_def flushed_def)
    ultimately obtain s' new groups where
      "Nack_Create_loop p maxlen todo (flushed s) = Some (True, s')" "out_ok maxlen s'"
      "ready s' = ready (flushed s) @ new" "\<forall>packet \<in> set new. length packet \<le> maxlen"
      "concat groups = todo" "[] \<notin> set groups"
      "concat new @ cur s' = cur (flushed s) @ concat (map (nack_block p) groups)"
      using "1.IH"(1) [OF full(1) refl, of "(True, flushed s)" True "flushed s"] full "1.prems"(3) ok
      by auto
    moreover have "Nack_Create_loop p maxlen todo s = Nack_Create_loop p maxlen todo (flushed s)"
      using full ok \<open>OnBufferFull s = Some (True, flushed s)\<close>
      by (subst Nack_Create_loop.simps) simp
    ultimately show ?thesis
      using ok by (intro exI [of _ s'] exI [of _ "cur s # new"] exI [of _ groups])
        (auto simp: flushed_def)
  next
    case room
    let ?num = "min ((?left - 12) div 4) (length todo)"
    let ?items = "take ?num todo"
    have num: "1 \<le> ?num" "12 + 4 * ?num \<le> ?left"
      using room by (auto simp: Suc_le_eq min_def)
    have "index s + length (nack_block p ?items) \<le> maxlen"
      using num ok by simp
    from emit_in_room [OF this "1.prems"(1)] obtain s1 where
      s1: "emit (nack_block p ?items) s = Some s1" "out_ok maxlen s1" "callback s1"
        "out_abs s1 = (ready s, cur s @ nack_block p ?items)"
      using "1.prems"(2) by auto
    have block: "Nack_CreateBlock p ?items maxlen s = Some s1"
      using Nack_CreateBlock_emit [of s ?items maxlen p] num ok s1(1) by simp
    obtain s' new groups where rec: "Nack_Create_loop p maxlen (drop ?num todo) s1 = Some (True, s')"
      "out_ok maxlen s'" "ready s' = ready s1 @ new" "\<forall>packet \<in> set new. length packet \<le> maxlen"
      "concat groups = drop ?num todo" "[] \<notin> set groups"
      "concat new @ cur s' = cur s1 @ concat (map (nack_block p) groups)"
      using "1.IH"(2) [OF room(1) refl _ refl, of s1] room ok block s1 "1.prems"(3) by auto
    have "Nack_Create_loop p maxlen todo s = Some (True, s')"
      using room ok block rec(1) by (subst Nack_Create_loop.simps) simp
    moreover have "concat (?items # groups) = todo" "[] \<notin> set (?items # groups)"
      using rec(5,6) num room by auto
    moreover have "ready s1 = ready s" "cur s1 = cur s @ nack_block p ?items"
      using s1(4) by (simp_all add: out_abs_def)
    ultimately show ?thesis
      using rec by (intro exI [of _ s'] exI [of _ new] exI [of _ "?items # groups"]) auto
  qed
qed

lemma Nack_Create_fits:
  assumes "nack_packed p \<noteq> []" "index s + Nack_BlockLength p \<le> maxlen"
  shows "Nack_Create p maxlen s = map_option (Pair True) (emit (Nack_wire p) s)"
proof -
  let ?n = "length (nack_packed p)"
  have "1 \<le> ?n" using assms(1) by (simp add: Suc_le_eq)
  then have "16 \<le> maxlen - index s" using assms(2) unfolding Nack_BlockLength_def by linarith
  moreover have "min ((maxlen - index s - 12) div 4) ?n = ?n"
    using assms(2) by (auto simp: Nack_BlockLength_def min_def)
  moreover have "Nack_CreateBlock p (nack_packed p) maxlen s = emit (Nack_wire p) s"
    using assms(2) by (simp add: Nack_wire_def Nack_CreateBlock_emit Nack_BlockLength_def)
  ultimately show ?thesis
    using assms by (cases "emit (Nack_wire p) s")
      (simp_all add: Nack_Create_def Nack_Create_loop.simps Let_def)
qed

lemma Nack_Build:
  assumes "Nack_wf p" "length mem = Nack_BlockLength p"
  shows "Build (Nack_Create p) mem = Some (Nack_wire p)"
  using assms nack.length_wire [OF assms(1)]
  by (simp add: Build_def Nack_Create_fits Nack_wf_def emit_eq splice_at_def)

lemma Nack_Create_too_small:
  assumes "nack_packed p \<noteq> []" "maxlen < 16" "index s = 0"
  shows "Nack_Create p maxlen s = Some (False, s)"
  using assms by (simp add: Nack_Create_def Nack_Create_loop.simps OnBufferFull_def)

text \<open>
  Started on an empty packet, the loop puts exactly one block into each packet it hands to the
  callback.
\<close>

lemma Nack_Create_loop_packets:
  assumes "out_ok maxlen s" "callback s" "16 \<le> maxlen" "index s = 0" "todo \<noteq> []"
  shows "\<exists>s' groups. Nack_Create_loop p maxlen todo s = Some (True, s') \<and> callback s' \<and> index s' \<noteq> 0 \<and>
     ready s' @ [cur s'] = ready s @ map (nack_block p) groups \<and>
     concat groups = todo \<and> [] \<notin> set groups \<and> (\<forall>g \<in> set groups. 12 + 4 * length g \<le> maxlen)"
  using assms
proof (induction todo arbitrary: s rule: length_induct)
  case (1 todo)
  let ?num = "min ((maxlen - 12) div 4) (length todo)"
  let ?items = "take ?num todo"
  have num: "1 \<le> ?num" "12 + 4 * ?num \<le> maxlen"
    using "1.prems" by (auto simp: Suc_le_eq min_def)
  have fits: "index s + length (nack_block p ?items) \<le> maxlen" using num "1.prems"(4) by simp
  obtain s1 where s1: "emit (nack_block p ?items) s = Some s1" "out_ok maxlen s1" "callback s1"
      "out_abs s1 = (ready s, nack_block p ?items)"
    using emit_in_room [OF fits "1.prems"(1)] "1.prems"(2,4) by auto
  have cur1: "ready s1 = ready s" "cur s1 = nack_block p ?items" using s1(4) by (simp_all add: out_abs_def)
  then have idx: "index s1 = 12 + 4 * ?num"
    using length_cur [OF s1(2)] by simp
  have step: "Nack_Create_loop p maxlen todo s = Nack_Create_loop p maxlen (drop ?num todo) s1"
    using Nack_CreateBlock_emit [of s ?items maxlen p] num s1(1) "1.prems"(3,4,5)
    by (subst Nack_Create_loop.simps) (simp add: Let_def)
  show ?case
  proof (cases "drop ?num todo = []")
    case True
    then have "?items = todo" "Nack_Create_loop p maxlen todo s = Some (True, s1)"
      unfolding step by (simp_all add: Nack_Create_loop.simps)
    then show ?thesis
      using cur1 num s1(3) idx "1.prems"(5) by (intro exI [of _ s1] exI [of _ "[todo]"]) auto
  next
    case False
    then have "?num < length todo" by simp
    then have "?num = (maxlen - 12) div 4" by linarith
    then have full: "maxlen - index s1 < 16" "index s1 \<le> maxlen" using idx num(2) by linarith+
    have "Nack_Create_loop p maxlen (drop ?num todo) s1 = Nack_Create_loop p maxlen (drop ?num todo) (flushed s1)"
      using full False idx s1(3)
      by (subst Nack_Create_loop.simps) (simp add: OnBufferFull_def flushed_def)
    moreover have "out_ok maxlen (flushed s1)" "callback (flushed s1)" "index (flushed s1) = 0"
      "ready (flushed s1) = ready s @ [nack_block p ?items]"
      using out_ok_flushed [OF s1(2)] s1(3) cur1 by (simp_all add: flushed_def)
    moreover have "length (drop ?num todo) < length todo" using num by auto
    ultimately obtain s' groups where
      "Nack_Create_loop p maxlen todo s = Some (True, s')" "callback s'" "index s' \<noteq> 0"
      "ready s' @ [cur s'] = (ready s @ [nack_block p ?items]) @ map (nack_block p) groups"
      "concat groups = drop ?num todo" "[] \<notin> set groups" "\<forall>g \<in> set groups. 12 + 4 * length g \<le> maxlen"
      using "1.IH" "1.prems"(3) False unfolding step by metis
    then show ?thesis
      using num "1.prems"(5) by (intro exI [of _ s'] exI [of _ "?items # groups"]) auto
  qed
qed

lemma Nack_packets:
  assumes "nack_packed p \<noteq> []" "16 \<le> maxlen" "maxlen \<le> length mem"
  shows "\<exists>s groups. BuildExternalBuffer (Nack_Create p) mem maxlen True = Some (True, s) \<and>
     ready s = map (nack_block p) groups \<and> concat groups = nack_packed p \<and> [] \<notin> set groups \<and>
     (\<forall>g \<in> set groups. 12 + 4 * length g \<le> maxlen)"
proof -
  let ?s = "\<lparr>buffer = mem, index = 0, callback = True, ready = []\<rparr> :: out"
  have "out_ok maxlen ?s" using assms(3) by (simp add: out_ok_def)
  from Nack_Create_loop_packets [OF this _ assms(2) _ assms(1), of p] obtain s' groups where
    l: "Nack_Create_loop p maxlen (nack_packed p) ?s = Some (True, s')" "callback s'" "index s' \<noteq> 0"
    "ready s' @ [cur s'] = map (nack_block p) groups" "concat groups = nack_packed p"
    "[] \<notin> set groups" "\<forall>g \<in> set groups. 12 + 4 * length g \<le> maxlen"
    by auto
  then show ?thesis
    by (intro exI [of _ "flushed s'"] exI [of _ groups])
      (simp add: BuildExternalBuffer_def Nack_Create_def OnBufferFull_def flushed_def)
qed

lemma ParseSinglePacket_nack_block:
  assumes "items \<noteq> []" "12 + 4 * length items \<le> 262144"
  shows "ParseSinglePacket Nack_Parse (nack_block p items) =
     Some (Inr (p\<lparr>nack_packed := items, nack_packet_ids := Unpack items\<rparr>))"
  using nack.ParseSinglePacket_wire [of "p\<lparr>nack_packed := items\<rparr>"] assms
  by (simp add: Nack_wf_def Nack_BlockLength_def Nack_wire_def nack_block_def Nack_canon_def common_wire_def)

section \<open>Properties\<close>

text \<open>
  C13. NACK lists survive the wire: for any list of sequence numbers, wrapping and unsorted ones
  included, the receiver of the built packet asks for exactly the numbers of the list; where each
  number is ahead of its predecessor it sees the same list, and the same packet.
\<close>

theorem Nack_roundtrip:
  assumes "ids \<noteq> []" "p = Nack_SetPacketIds ids Nack_new" "Nack_BlockLength p \<le> 262144"
    and "length mem = Nack_BlockLength p"
  shows "\<exists>q. Option.bind (Build (Nack_Create p) mem) (ParseSinglePacket Nack_Parse) = Some (Inr q) \<and>
     set (nack_packet_ids q) = set ids \<and> (successively ahead ids \<longrightarrow> q = p)"
proof -
  have packed: "nack_packed p = Pack ids" "nack_packet_ids p = ids"
    using assms(2) by (simp_all add: Nack_SetPacketIds_def Nack_new_def)
  then have wf: "Nack_wf p" using assms(1,3) by (simp add: Nack_wf_def)
  have "Option.bind (Build (Nack_Create p) mem) (ParseSinglePacket Nack_Parse) = Some (Inr (Nack_canon p))"
    using Nack_Build [OF wf assms(4)] nack.ParseSinglePacket_wire [OF wf] by simp
  moreover have "nack_packet_ids (Nack_canon p) = Unpack (Pack ids)"
    by (simp add: Nack_canon_def packed)
  moreover have "successively ahead ids \<Longrightarrow> Nack_canon p = p"
    using packed by (simp add: Nack_canon_def Unpack_Pack_ascending)
  ultimately show ?thesis by (intro exI [of _ "Nack_canon p"]) (auto simp: set_Unpack_Pack)
qed

theorem Nack_roundtrip_witness:
  "let p = Nack_SetPacketIds [0xfffe, 0, 3, 100] Nack_new in Nack_BlockLength p = 20 \<and>
     Option.bind (Build (Nack_Create p) (replicate 20 0)) (ParseSinglePacket Nack_Parse) = Some (Inr p)"
proof -
  let ?p = "Nack_SetPacketIds [0xfffe, 0, 3, 100] Nack_new"
  have "Nack_BlockLength ?p = 20"
    by (simp add: Nack_SetPacketIds_def Nack_new_def Nack_BlockLength_def)
  then show ?thesis
    using Nack_roundtrip [of "[0xfffe, 0, 3, 100]" ?p "replicate 20 0"] by (auto simp: ahead_def)
qed

text \<open>
  C12. Fragmentation of NACK: with a callback and room for one item, building hands over packets
  that all respect the size limit, each of which parses on its own, and together they ask for
  exactly the numbers of the list.
\<close>

theorem Nack_fragments:
  assumes "ids \<noteq> []" "16 \<le> maxlen" "maxlen \<le> length mem" "maxlen \<le> 262144"
  shows "\<exists>s qs. BuildExternalBuffer (Nack_Create (Nack_SetPacketIds ids Nack_new)) mem maxlen True =
       Some (True, s) \<and>
     list_all (\<lambda>packet. length packet \<le> maxlen) (ready s) \<and>
     map (ParseSinglePacket Nack_Parse) (ready s) = map (\<lambda>q. Some (Inr q)) qs \<and>
     set (concat (map nack_packet_ids qs)) = set ids"
proof -
  let ?p = "Nack_SetPacketIds ids Nack_new"
  let ?q = "\<lambda>g. ?p\<lparr>nack_packed := g, nack_packet_ids := Unpack g\<rparr>"
  have packed: "nack_packed ?p = Pack ids" by (simp add: Nack_SetPacketIds_def Nack_new_def)
  then have "nack_packed ?p \<noteq> []" using assms(1) by simp
  from Nack_packets [OF this assms(2,3)] obtain s groups where
    s: "BuildExternalBuffer (Nack_Create ?p) mem maxlen True = Some (True, s)"
      "ready s = map (nack_block ?p) groups"
    and g: "concat groups = Pack ids" "[] \<notin> set groups" "\<forall>g \<in> set groups. 12 + 4 * length g \<le> maxlen"
    unfolding packed by blast
  have "concat (map Unpack groups) = Unpack (concat groups)"
    by (induction groups) (simp_all add: Unpack_def)
  then have "set (concat (map Unpack groups)) = set ids" using g(1) by (simp add: set_Unpack_Pack)
  moreover have "map (ParseSinglePacket Nack_Parse) (ready s) = map (\<lambda>q. Some (Inr q)) (map ?q groups)"
    using g(2,3) assms(4) by (auto simp: s(2) intro!: ParseSinglePacket_nack_block)
  ultimately show ?thesis
    using s g(3) by (intro exI [of _ s] exI [of _ "map ?q groups"]) (auto simp: list_all_iff comp_def)
qed

theorem Nack_fragments_witness:
  "\<exists>s qs. BuildExternalBuffer (Nack_Create (Nack_SetPacketIds [1, 100, 200] Nack_new))
       (replicate 20 0) 20 True = Some (True, s) \<and>
     list_all (\<lambda>packet. length packet \<le> 20) (ready s) \<and>
     map (ParseSinglePacket Nack_Parse) (ready s) = map (\<lambda>q. Some (Inr q)) qs \<and>
     set (concat (map nack_packet_ids qs)) = {1, 100, 200}"
  using Nack_fragments [of "[1, 100, 200]" 20 "replicate 20 0"] by simp

end
