(* ===== verification/RtcpXr.thy ===== *)
theory RtcpXr
  imports RtcpReports
begin

text \<open>
  Extended reports of RFC 3611 (\<open>extended_reports.cc\<close>) with their report blocks: receiver
  reference time (\<open>rrtr.cc\<close>), delay since last receiver report (\<open>dlrr.cc\<close>), VoIP metrics
  (\<open>voip_metric.cc\<close>) and target bit rate (\<open>target_bitrate.cc\<close>).
\<close>

section \<open>Receiver reference time block\<close>

record rrtr =
  rrtr_ntp :: ntp_time

abbreviation (input) Rrtr_kBlockType :: byte where "Rrtr_kBlockType \<equiv> 4"
abbreviation (input) Rrtr_kBlockLength :: uint16 where "Rrtr_kBlockLength \<equiv> 2"
abbreviation (input) Rrtr_kLength :: nat where "Rrtr_kLength \<equiv> 12"

definition Rrtr_SetNtp :: "ntp_time \<Rightarrow> rrtr \<Rightarrow> rrtr" where
  "Rrtr_SetNtp ntp b = b\<lparr>rrtr_ntp := ntp\<rparr>"

definition Rrtr_Parse :: "byte list \<Rightarrow> rrtr option" where
  "Rrtr_Parse buf = do {
     seconds \<leftarrow> ReadBigEndian 4 (drop 4 buf);
     fraction \<leftarrow> ReadBigEndian 4 (drop 8 buf);
     Some \<lparr>rrtr_ntp = NtpTime_Set seconds fraction\<rparr> }"

definition Rrtr_Create :: "rrtr \<Rightarrow> out \<Rightarrow> out option" where
  "Rrtr_Create b s = do {
     s \<leftarrow> put 0 [Rrtr_kBlockType] s;
     s \<leftarrow> put 1 [0] s;
     s \<leftarrow> put 2 (WriteBigEndian 2 Rrtr_kBlockLength) s;
     s \<leftarrow> put 4 (WriteBigEndian 4 (NtpTime_seconds (rrtr_ntp b))) s;
     put 8 (WriteBigEndian 4 (NtpTime_fractions (rrtr_ntp b))) s }"

definition Rrtr_wire :: "rrtr \<Rightarrow> byte list" where
  "Rrtr_wire b = [Rrtr_kBlockType, 0] @ WriteBigEndian 2 Rrtr_kBlockLength @
     WriteBigEndian 4 (NtpTime_seconds (rrtr_ntp b)) @ WriteBigEndian 4 (NtpTime_fractions (rrtr_ntp b))"

section \<open>Delay since last receiver report block\<close>

record receive_time_info =
  rti_ssrc :: uint32
  rti_last_rr :: uint32
  rti_delay_since_last_rr :: uint32

record dlrr =
  dlrr_sub_blocks :: "receive_time_info list"

abbreviation (input) Dlrr_kBlockType :: byte where "Dlrr_kBlockType \<equiv> 5"
abbreviation (input) Dlrr_kBlockHeaderLength :: nat where "Dlrr_kBlockHeaderLength \<equiv> 4"
abbreviation (input) Dlrr_kSubBlockLength :: nat where "Dlrr_kSubBlockLength \<equiv> 12"

definition Dlrr_ClearItems :: "dlrr \<Rightarrow> dlrr" where
  "Dlrr_ClearItems b = b\<lparr>dlrr_sub_blocks := []\<rparr>"

definition Dlrr_AddDlrrItem :: "receive_time_info \<Rightarrow> dlrr \<Rightarrow> dlrr" where
  "Dlrr_AddDlrrItem time_info b = b\<lparr>dlrr_sub_blocks := dlrr_sub_blocks b @ [time_info]\<rparr>"

definition Dlrr_bool :: "dlrr \<Rightarrow> bool" where
  "Dlrr_bool b \<longleftrightarrow> dlrr_sub_blocks b \<noteq> []"

definition Dlrr_BlockLength :: "dlrr \<Rightarrow> nat" where
  "Dlrr_BlockLength b =
     (if dlrr_sub_blocks b = [] then 0
      else Dlrr_kBlockHeaderLength + Dlrr_kSubBlockLength * length (dlrr_sub_blocks b))"

definition Dlrr_ParseItem :: "byte list \<Rightarrow> receive_time_info option" where
  "Dlrr_ParseItem read_at = do {
     ssrc \<leftarrow> ReadBigEndian 4 (drop 0 read_at);
     last_rr \<leftarrow> ReadBigEndian 4 (drop 4 read_at);
     delay_since_last_rr \<leftarrow> ReadBigEndian 4 (drop 8 read_at);
     Some \<lparr>rti_ssrc = ssrc, rti_last_rr = last_rr, rti_delay_since_last_rr = delay_since_last_rr\<rparr> }"

definition Dlrr_Parse :: "byte list \<Rightarrow> uint16 \<Rightarrow> (rtcp_error + dlrr) option" where
  "Dlrr_Parse buf block_length_32bits =
     (if unat block_length_32bits mod 3 \<noteq> 0 then Some (Inl InvalidPayloadSize)
      else do {
        let blocks_count = unat block_length_32bits div 3;
        sub_blocks \<leftarrow> read_items Dlrr_ParseItem Dlrr_kSubBlockLength blocks_count
                        (drop Dlrr_kBlockHeaderLength buf);
        Some (Inr \<lparr>dlrr_sub_blocks = sub_blocks\<rparr>) })"

definition Dlrr_CreateItem :: "receive_time_info \<Rightarrow> nat \<Rightarrow> out \<Rightarrow> out option" where
  "Dlrr_CreateItem sub_block at s = do {
     s \<leftarrow> put at (WriteBigEndian 4 (rti_ssrc sub_block)) s;
     s \<leftarrow> put (at + 4) (WriteBigEndian 4 (rti_last_rr sub_block)) s;
     put (at + 8) (WriteBigEndian 4 (rti_delay_since_last_rr sub_block)) s }"

definition Dlrr_Create :: "dlrr \<Rightarrow> out \<Rightarrow> out option" where
  "Dlrr_Create b s =
     (if dlrr_sub_blocks b = [] then Some s
      else do {
        s \<leftarrow> put 0 [Dlrr_kBlockType] s;
        s \<leftarrow> put 1 [0] s;
        s \<leftarrow> put 2 (WriteBigEndian 2 (of_nat (3 * length (dlrr_sub_blocks b)) :: uint16)) s;
        write_items Dlrr_CreateItem Dlrr_kSubBlockLength Dlrr_kBlockHeaderLength
          (dlrr_sub_blocks b) s })"

definition ReceiveTimeInfo_wire :: "receive_time_info \<Rightarrow> byte list" where
  "ReceiveTimeInfo_wire t = WriteBigEndian 4 (rti_ssrc t) @ WriteBigEndian 4 (rti_last_rr t) @
     WriteBigEndian 4 (rti_delay_since_last_rr t)"

definition Dlrr_wire :: "dlrr \<Rightarrow> byte list" where
  "Dlrr_wire b =
     (if dlrr_sub_blocks b = [] then []
      else [Dlrr_kBlockType, 0] @ WriteBigEndian 2 (of_nat (3 * length (dlrr_sub_blocks b)) :: uint16) @
           concat (map ReceiveTimeInfo_wire (dlrr_sub_blocks b)))"

section \<open>VoIP metrics block\<close>

record rtcp_voip_metric =
  lossRate :: byte
  discardRate :: byte
  burstDensity :: byte
  gapDensity :: byte
  burstDuration :: uint16
  gapDuration :: uint16
  roundTripDelay :: uint16
  endSystemDelay :: uint16
  signalLevel :: byte
  noiseLevel :: byte
  RERL :: byte
  Gmin :: byte
  Rfactor :: byte
  extRfactor :: byte
  MOSLQ :: byte
  MOSCQ :: byte
  RXconfig :: byte
  JBnominal :: uint16
  JBmax :: uint16
  JBabsMax :: uint16

record voip_metric =
  vm_ssrc :: uint32
  vm_voip_metric :: rtcp_voip_metric

abbreviation (input) VoipMetric_kBlockType :: byte where "VoipMetric_kBlockType \<equiv> 7"
abbreviation (input) VoipMetric_kBlockLength :: uint16 where "VoipMetric_kBlockLength \<equiv> 8"
abbreviation (input) VoipMetric_kLength :: nat where "VoipMetric_kLength \<equiv> 36"

definition VoipMetric_SetMediaSsrc :: "uint32 \<Rightarrow> voip_metric \<Rightarrow> voip_metric" where
  "VoipMetric_SetMediaSsrc ssrc b = b\<lparr>vm_ssrc := ssrc\<rparr>"

definition VoipMetric_SetVoipMetric :: "rtcp_voip_metric \<Rightarrow> voip_metric \<Rightarrow> voip_metric" where
  "VoipMetric_SetVoipMetric m b = b\<lparr>vm_voip_metric := m\<rparr>"

definition VoipMetric_Parse :: "byte list \<Rightarrow> voip_metric option" where
  "VoipMetric_Parse buf = do {
     ssrc \<leftarrow> ReadBigEndian 4 (drop 4 buf);
     loss_rate \<leftarrow> byte_at buf 8;
     discard_rate \<leftarrow> byte_at buf 9;
     burst_density \<leftarrow> byte_at buf 10;
     gap_density \<leftarrow> byte_at buf 11;
     burst_duration \<leftarrow> ReadBigEndian 2 (drop 12 buf);
     gap_duration \<leftarrow> ReadBigEndian 2 (drop 14 buf);
     round_trip_delay \<leftarrow> ReadBigEndian 2 (drop 16 buf);
     end_system_delay \<leftarrow> ReadBigEndian 2 (drop 18 buf);
     signal_level \<leftarrow> byte_at buf 20;
     noise_level \<leftarrow> byte_at buf 21;
     rerl \<leftarrow> byte_at buf 22;
     gmin \<leftarrow> byte_at buf 23;
     r_factor \<leftarrow> byte_at buf 24;
     ext_r_factor \<leftarrow> byte_at buf 25;
     mos_lq \<leftarrow> byte_at buf 26;
     mos_cq \<leftarrow> byte_at buf 27;
     rx_config \<leftarrow> byte_at buf 28;
     jb_nominal \<leftarrow> ReadBigEndian 2 (drop 30 buf);
     jb_max \<leftarrow> ReadBigEndian 2 (drop 32 buf);
     jb_abs_max \<leftarrow> ReadBigEndian 2 (drop 34 buf);
     Some \<lparr>vm_ssrc = ssrc, vm_voip_metric =
       \<lparr>lossRate = loss_rate, discardRate = discard_rate, burstDensity = burst_density,
        gapDensity = gap_density, burstDuration = burst_duration, gapDuration = gap_duration,
        roundTripDelay = round_trip_delay, endSystemDelay = end_system_delay,
        signalLevel = signal_level, noiseLevel = noise_level, RERL = rerl, Gmin = gmin,
        Rfactor = r_factor, extRfactor = ext_r_factor, MOSLQ = mos_lq, MOSCQ = mos_cq,
        RXconfig = rx_config, JBnominal = jb_nominal, JBmax = jb_max, JBabsMax = jb_abs_max\<rparr>\<rparr> }"

definition VoipMetric_Create :: "voip_metric \<Rightarrow> out \<Rightarrow> out option" where
  "VoipMetric_Create b s = do {
     let m = vm_voip_metric b;
     s \<leftarrow> put 0 [VoipMetric_kBlockType] s;
     s \<leftarrow> put 1 [0] s;
     s \<leftarrow> put 2 (WriteBigEndian 2 VoipMetric_kBlockLength) s;
     s \<leftarrow> put 4 (WriteBigEndian 4 (vm_ssrc b)) s;
     s \<leftarrow> put 8 [lossRate m] s;
     s \<leftarrow> put 9 [discardRate m] s;
     s \<leftarrow> put 10 [burstDensity m] s;
     s \<leftarrow> put 11 [gapDensity m] s;
     s \<leftarrow> put 12 (WriteBigEndian 2 (burstDuration m)) s;
     s \<leftarrow> put 14 (WriteBigEndian 2 (gapDuration m)) s;
     s \<leftarrow> put 16 (WriteBigEndian 2 (roundTripDelay m)) s;
     s \<leftarrow> put 18 (WriteBigEndian 2 (endSystemDelay m)) s;
     s \<leftarrow> put 20 [signalLevel m] s;
     s \<leftarrow> put 21 [noiseLevel m] s;
     s \<leftarrow> put 22 [RERL m] s;
     s \<leftarrow> put 23 [Gmin m] s;
     s \<leftarrow> put 24 [Rfactor m] s;
     s \<leftarrow> put 25 [extRfactor m] s;
     s \<leftarrow> put 26 [MOSLQ m] s;
     s \<leftarrow> put 27 [MOSCQ m] s;
     s \<leftarrow> put 28 [RXconfig m] s;
     s \<leftarrow> put 29 [0] s;
     s \<leftarrow> put 30 (WriteBigEndian 2 (JBnominal m)) s;
     s \<leftarrow> put 32 (WriteBigEndian 2 (JBmax m)) s;
     put 34 (WriteBigEndian 2 (JBabsMax m)) s }"

definition VoipMetric_wire :: "voip_metric \<Rightarrow> byte list" where
  "VoipMetric_wire b = (let m = vm_voip_metric b in
     [VoipMetric_kBlockType, 0] @ WriteBigEndian 2 VoipMetric_kBlockLength @
     WriteBigEndian 4 (vm_ssrc b) @ [lossRate m, discardRate m, burstDensity m, gapDensity m] @
     WriteBigEndian 2 (burstDuration m) @ WriteBigEndian 2 (gapDuration m) @
     WriteBigEndian 2 (roundTripDelay m) @ WriteBigEndian 2 (endSystemDelay m) @
     [signalLevel m, noiseLevel m, RERL m, Gmin m, Rfactor m, extRfactor m, MOSLQ m, MOSCQ m,
      RXconfig m, 0] @
     WriteBigEndian 2 (JBnominal m) @ WriteBigEndian 2 (JBmax m) @ WriteBigEndian 2 (JBabsMax m))"

section \<open>Target bit rate block\<close>

record bitrate_item =
  spatial_layer :: byte
  temporal_layer :: byte
  target_bitrate_kbps :: uint32

record target_bitrate =
  tb_bitrates :: "bitrate_item list"

abbreviation (input) TargetBitrate_kBlockType :: byte where "TargetBitrate_kBlockType \<equiv> 42"
abbreviation (input) kTargetBitrateHeaderSizeBytes :: nat where "kTargetBitrateHeaderSizeBytes \<equiv> 4"
abbreviation (input) kBitrateItemSizeBytes :: nat where "kBitrateItemSizeBytes \<equiv> 4"

definition TargetBitrate_new :: target_bitrate where
  "TargetBitrate_new = \<lparr>tb_bitrates = []\<rparr>"

definition TargetBitrate_AddTargetBitrate ::
  "byte \<Rightarrow> byte \<Rightarrow> uint32 \<Rightarrow> target_bitrate \<Rightarrow> target_bitrate" where
  "TargetBitrate_AddTargetBitrate s t kbps b =
     b\<lparr>tb_bitrates := tb_bitrates b @
        [\<lparr>spatial_layer = s, temporal_layer = t, target_bitrate_kbps = kbps\<rparr>]\<rparr>"

definition TargetBitrate_BlockLength :: "target_bitrate \<Rightarrow> nat" where
  "TargetBitrate_BlockLength b =
     kTargetBitrateHeaderSizeBytes + length (tb_bitrates b) * kBitrateItemSizeBytes"

definition TargetBitrate_CreateItem :: "bitrate_item \<Rightarrow> nat \<Rightarrow> out \<Rightarrow> out option" where
  "TargetBitrate_CreateItem item at s = do {
     s \<leftarrow> put at [push_bit 4 (spatial_layer item) OR temporal_layer item] s;
     put (at + 1) (WriteBigEndian 3 (target_bitrate_kbps item)) s }"

definition TargetBitrate_Create :: "target_bitrate \<Rightarrow> out \<Rightarrow> out option" where
  "TargetBitrate_Create b s = do {
     s \<leftarrow> put 0 [TargetBitrate_kBlockType] s;
     s \<leftarrow> put 1 [0] s;
     let block_length_words = TargetBitrate_BlockLength b div 4 - 1;
     s \<leftarrow> put 2 (WriteBigEndian 2 (of_nat block_length_words :: uint16)) s;
     write_items TargetBitrate_CreateItem kBitrateItemSizeBytes kTargetBitrateHeaderSizeBytes
       (tb_bitrates b) s }"

text \<open>The loop adds the items one by one with \<open>AddTargetBitrate\<close>.\<close>

definition TargetBitrate_Parse :: "byte list \<Rightarrow> uint16 \<Rightarrow> target_bitrate \<Rightarrow> (rtcp_error + target_bitrate) option" where
  "TargetBitrate_Parse block block_length b =
     (if block_length < 1 then Some (Inl PayloadTooSmall)
      else do {
        let payload_bytes = unat block_length * 4;
        let num_items = payload_bytes div kBitrateItemSizeBytes;
        let b = b\<lparr>tb_bitrates := []\<rparr>;
        b \<leftarrow> for_each (\<lambda>i b. do {
               let index = kTargetBitrateHeaderSizeBytes + i * kBitrateItemSizeBytes;
               layers \<leftarrow> byte_at block index;
               bitrate_kbps \<leftarrow> ReadBigEndian 3 (drop (index + 1) block);
               Some (TargetBitrate_AddTargetBitrate (drop_bit 4 layers AND 0x0F) (layers AND 0x0F)
                       bitrate_kbps b) }) [0..<num_items] b;
        Some (Inr b) })"

definition BitrateItem_wire :: "bitrate_item \<Rightarrow> byte list" where
  "BitrateItem_wire item = [push_bit 4 (spatial_layer item) OR temporal_layer item] @
     WriteBigEndian 3 (target_bitrate_kbps item)"

definition TargetBitrate_wire :: "target_bitrate \<Rightarrow> byte list" where
  "TargetBitrate_wire b =
     [TargetBitrate_kBlockType, 0] @ WriteBigEndian 2 (of_nat (length (tb_bitrates b)) :: uint16) @
     concat (map BitrateItem_wire (tb_bitrates b))"

section \<open>Extended reports packet\<close>

record extended_reports =
  xr_sender_ssrc :: uint32
  xr_rrtr :: "rrtr option"
  xr_dlrr :: dlrr
  xr_voip_metric :: "voip_metric option"
  xr_target_bitrate :: "target_bitrate option"

abbreviation (input) kXrBaseLength :: nat where "kXrBaseLength \<equiv> 4"
abbreviation (input) kBlockHeaderSizeBytes :: nat where "kBlockHeaderSizeBytes \<equiv> 4"

definition ExtendedReports_new :: extended_reports where
  "ExtendedReports_new = \<lparr>xr_sender_ssrc = 0, xr_rrtr = None, xr_dlrr = \<lparr>dlrr_sub_blocks = []\<rparr>,
     xr_voip_metric = None, xr_target_bitrate = None\<rparr>"

definition ExtendedReports_SetSenderSsrc :: "uint32 \<Rightarrow> extended_reports \<Rightarrow> extended_reports" where
  "ExtendedReports_SetSenderSsrc ssrc p = p\<lparr>xr_sender_ssrc := ssrc\<rparr>"

definition ExtendedReports_SetRrtr :: "rrtr \<Rightarrow> extended_reports \<Rightarrow> extended_reports" where
  "ExtendedReports_SetRrtr r p = p\<lparr>xr_rrtr := Some r\<rparr>"

definition ExtendedReports_AddDlrrItem :: "receive_time_info \<Rightarrow> extended_reports \<Rightarrow> extended_reports" where
  "ExtendedReports_AddDlrrItem time_info p = p\<lparr>xr_dlrr := Dlrr_AddDlrrItem time_info (xr_dlrr p)\<rparr>"

definition ExtendedReports_SetVoipMetric :: "voip_metric \<Rightarrow> extended_reports \<Rightarrow> extended_reports" where
  "ExtendedReports_SetVoipMetric v p = p\<lparr>xr_voip_metric := Some v\<rparr>"

definition ExtendedReports_SetTargetBitrate :: "target_bitrate \<Rightarrow> extended_reports \<Rightarrow> extended_reports" where
  "ExtendedReports_SetTargetBitrate b p = p\<lparr>xr_target_bitrate := Some b\<rparr>"

definition ExtendedReports_TargetBitrateLength :: "extended_reports \<Rightarrow> nat" where
  "ExtendedReports_TargetBitrateLength p =
     (case xr_target_bitrate p of Some b \<Rightarrow> TargetBitrate_BlockLength b | None \<Rightarrow> 0)"

definition ExtendedReports_BlockLength :: "extended_reports \<Rightarrow> nat" where
  "ExtendedReports_BlockLength p =
     kHeaderLength + kXrBaseLength + (if xr_rrtr p \<noteq> None then Rrtr_kLength else 0) +
     Dlrr_BlockLength (xr_dlrr p) + (if xr_voip_metric p \<noteq> None then VoipMetric_kLength else 0) +
     ExtendedReports_TargetBitrateLength p"

definition ExtendedReports_ParseRrtrBlock ::
  "byte list \<Rightarrow> uint16 \<Rightarrow> extended_reports \<Rightarrow> extended_reports option" where
  "ExtendedReports_ParseRrtrBlock block block_length p =
     (if block_length \<noteq> Rrtr_kBlockLength then Some p
      else if xr_rrtr p \<noteq> None then Some p
      else do {
        r \<leftarrow> Rrtr_Parse block;
        Some (p\<lparr>xr_rrtr := Some r\<rparr>) })"

definition ExtendedReports_ParseDlrrBlock ::
  "byte list \<Rightarrow> uint16 \<Rightarrow> extended_reports \<Rightarrow> extended_reports option" where
  "ExtendedReports_ParseDlrrBlock block block_length p =
     (if Dlrr_bool (xr_dlrr p) then Some p
      else do {
        r \<leftarrow> Dlrr_Parse block block_length;
        (case r of Inl _ \<Rightarrow> Some p | Inr d \<Rightarrow> Some (p\<lparr>xr_dlrr := d\<rparr>)) })"

definition ExtendedReports_ParseVoipMetricBlock ::
  "byte list \<Rightarrow> uint16 \<Rightarrow> extended_reports \<Rightarrow> extended_reports option" where
  "ExtendedReports_ParseVoipMetricBlock block block_length p =
     (if block_length \<noteq> VoipMetric_kBlockLength then Some p
      else if xr_voip_metric p \<noteq> None then Some p
      else do {
        v \<leftarrow> VoipMetric_Parse block;
        Some (p\<lparr>xr_voip_metric := Some v\<rparr>) })"

definition ExtendedReports_ParseTargetBitrateBlock ::
  "byte list \<Rightarrow> uint16 \<Rightarrow> extended_reports \<Rightarrow> extended_reports option" where
  "ExtendedReports_ParseTargetBitrateBlock block block_length p = do {
     r \<leftarrow> TargetBitrate_Parse block block_length TargetBitrate_new;
     (case r of
        Inl _ \<Rightarrow> Some (p\<lparr>xr_target_bitrate := None\<rparr>)
      | Inr b \<Rightarrow> Some (p\<lparr>xr_target_bitrate := Some b\<rparr>)) }"

text \<open>The \<open>switch\<close> on the block type.\<close>

definition ExtendedReports_ParseBlock ::
  "byte \<Rightarrow> byte list \<Rightarrow> uint16 \<Rightarrow> extended_reports \<Rightarrow> extended_reports option" where
  "ExtendedReports_ParseBlock block_type block block_length p =
     (if block_type = Rrtr_kBlockType then ExtendedReports_ParseRrtrBlock block block_length p
      else if block_type = Dlrr_kBlockType then ExtendedReports_ParseDlrrBlock block block_length p
      else if block_type = VoipMetric_kBlockType
      then ExtendedReports_ParseVoipMetricBlock block block_length p
      else if block_type = TargetBitrate_kBlockType
      then ExtendedReports_ParseTargetBitrateBlock block block_length p
      else Some p)"

function ExtendedReports_ParseBlocks ::
  "byte list \<Rightarrow> extended_reports \<Rightarrow> (rtcp_error + extended_reports) option" where
  "ExtendedReports_ParseBlocks current_block p =
     (if length current_block < kBlockHeaderSizeBytes then Some (Inr p)
      else do {
        block_type \<leftarrow> (ReadBigEndian 1 current_block :: byte option);
        block_length \<leftarrow> (ReadBigEndian 2 (drop 2 current_block) :: uint16 option);
        let next_block = kBlockHeaderSizeBytes + unat block_length * 4;
        if next_block > length current_block then Some (Inl ReportBlockTooBig)
        else do {
          p \<leftarrow> ExtendedReports_ParseBlock block_type current_block block_length p;
          ExtendedReports_ParseBlocks (drop next_block current_block) p } })"
  by pat_completeness auto
termination
  by (relation "measure (\<lambda>(block, _). length block)") auto

declare ExtendedReports_ParseBlocks.simps [simp del]

definition ExtendedReports_Parse :: "common_header \<Rightarrow> (rtcp_error + extended_reports) option" where
  "ExtendedReports_Parse packet =
     (if ch_payload_size packet < kXrBaseLength then Some (Inl PayloadTooSmall)
      else do {
        sender_ssrc \<leftarrow> ReadBigEndian 4 (payload packet);
        ExtendedReports_ParseBlocks (drop kXrBaseLength (payload packet))
          \<lparr>xr_sender_ssrc = sender_ssrc, xr_rrtr = None, xr_dlrr = \<lparr>dlrr_sub_blocks = []\<rparr>,
            xr_voip_metric = None, xr_target_bitrate = None\<rparr> })"

definition ExtendedReports_Create ::
  "extended_reports \<Rightarrow> nat \<Rightarrow> out \<Rightarrow> (bool \<times> out) option" where
  "ExtendedReports_Create p max_length s =
     with_room (ExtendedReports_BlockLength p) max_length (\<lambda>s. do {
       let index_end = index s + ExtendedReports_BlockLength p;
       s \<leftarrow> CreateHeader 0 207 (HeaderLength (ExtendedReports_BlockLength p)) s;
       s \<leftarrow> put 0 (WriteBigEndian 4 (xr_sender_ssrc p)) s;
       s \<leftarrow> advance 4 s;
       s \<leftarrow> (case xr_rrtr p of
              Some r \<Rightarrow> do { s \<leftarrow> Rrtr_Create r s; advance Rrtr_kLength s } | None \<Rightarrow> Some s);
       s \<leftarrow> (if Dlrr_bool (xr_dlrr p)
              then do { s \<leftarrow> Dlrr_Create (xr_dlrr p) s; advance (Dlrr_BlockLength (xr_dlrr p)) s }
              else Some s);
       s \<leftarrow> (case xr_voip_metric p of
              Some v \<Rightarrow> do { s \<leftarrow> VoipMetric_Create v s; advance VoipMetric_kLength s } | None \<Rightarrow> Some s);
       s \<leftarrow> (case xr_target_bitrate p of
              Some b \<Rightarrow> do { s \<leftarrow> TargetBitrate_Create b s; advance (TargetBitrate_BlockLength b) s }
            | None \<Rightarrow> Some s);
       check_index index_end s }) s"

definition opt_wire :: "('a \<Rightarrow> byte list) \<Rightarrow> 'a option \<Rightarrow> byte list" where
  "opt_wire f x = (case x of Some y \<Rightarrow> f y | None \<Rightarrow> [])"

lemma opt_wire_simps [simp]: "opt_wire f None = []" "opt_wire f (Some y) = f y"
  by (simp_all add: opt_wire_def)

definition ExtendedReports_body :: "extended_reports \<Rightarrow> byte list" where
  "ExtendedReports_body p = WriteBigEndian 4 (xr_sender_ssrc p) @ opt_wire Rrtr_wire (xr_rrtr p) @
     Dlrr_wire (xr_dlrr p) @ opt_wire VoipMetric_wire (xr_voip_metric p) @
     opt_wire TargetBitrate_wire (xr_target_bitrate p)"

definition ExtendedReports_wire :: "extended_reports \<Rightarrow> byte list" where
  "ExtendedReports_wire p =
     header_bytes 0 207 (HeaderLength (ExtendedReports_BlockLength p)) @ ExtendedReports_body p"

definition BitrateItem_wf :: "bitrate_item \<Rightarrow> bool" where
  "BitrateItem_wf item \<longleftrightarrow> spatial_layer item \<le> 0x0F \<and> temporal_layer item \<le> 0x0F \<and>
     target_bitrate_kbps item \<le> 0x00FFFFFF"

definition ExtendedReports_wf :: "extended_reports \<Rightarrow> bool" where
  "ExtendedReports_wf p \<longleftrightarrow> ExtendedReports_BlockLength p \<le> 262144 \<and>
     (case xr_target_bitrate p of Some b \<Rightarrow> list_all BitrateItem_wf (tb_bitrates b) | None \<Rightarrow> True)"

text \<open>A target bit rate block without items is written but rejected by the parser.\<close>

definition ExtendedReports_canon :: "extended_reports \<Rightarrow> extended_reports" where
  "ExtendedReports_canon p =
     (if xr_target_bitrate p = Some \<lparr>tb_bitrates = []\<rparr> then p\<lparr>xr_target_bitrate := None\<rparr> else p)"

section \<open>Writing\<close>

interpretation receive_time_info: item_codec ReceiveTimeInfo_wire Dlrr_ParseItem 12 "\<lambda>_. True"
proof unfold_locales
  show "\<exists>x. Dlrr_ParseItem data = Some x" if "12 \<le> length data" for data
    using that by (auto simp: Dlrr_ParseItem_def ReadBigEndian_eq)
qed (simp_all add: ReceiveTimeInfo_wire_def Dlrr_ParseItem_def wire_simps)

declare receive_time_info.safe_read_items [safe_intros]

lemma length_BitrateItem_wire [simp]: "length (BitrateItem_wire item) = 4"
  by (simp add: BitrateItem_wire_def)

lemma length_BitrateItems [simp]: "length (concat (map BitrateItem_wire items)) = 4 * length items"
  by (rule length_concat_const) simp

lemma length_block_wires [simp]:
  "length (Rrtr_wire r) = Rrtr_kLength" "length (Dlrr_wire d) = Dlrr_BlockLength d"
  "length (VoipMetric_wire v) = VoipMetric_kLength"
  "length (TargetBitrate_wire b) = TargetBitrate_BlockLength b"
  by (simp_all add: Rrtr_wire_def Dlrr_wire_def VoipMetric_wire_def TargetBitrate_wire_def Let_def
      Dlrr_BlockLength_def TargetBitrate_BlockLength_def receive_time_info.length_enc_all)

lemma length_ExtendedReports_body:
  "4 + length (ExtendedReports_body p) = ExtendedReports_BlockLength p"
  by (simp add: ExtendedReports_body_def ExtendedReports_BlockLength_def
      ExtendedReports_TargetBitrateLength_def opt_wire_def split: option.split)

lemma Rrtr_Create_emit: "Option.bind (Rrtr_Create r s) (advance Rrtr_kLength) = emit (Rrtr_wire r) s"
  by (simp add: Rrtr_Create_def Rrtr_wire_def out_simps put_put)

lemma VoipMetric_Create_emit:
  "Option.bind (VoipMetric_Create v s) (advance VoipMetric_kLength) = emit (VoipMetric_wire v) s"
  by (simp add: VoipMetric_Create_def VoipMetric_wire_def Let_def out_simps put_put)

lemma Dlrr_CreateItem_put: "Dlrr_CreateItem t at s = put at (ReceiveTimeInfo_wire t) s"
  by (simp add: Dlrr_CreateItem_def ReceiveTimeInfo_wire_def put_put_at put_put_at_bind)

lemma Dlrr_Create_emit:
  "Option.bind (Dlrr_Create d s) (advance (Dlrr_BlockLength d)) = emit (Dlrr_wire d) s"
  if "dlrr_sub_blocks d \<noteq> []"
  using that
  by (simp add: Dlrr_Create_def out_simps
      put_write_items_bind [OF Dlrr_CreateItem_put receive_time_info.length_enc]
      receive_time_info.length_enc_all Dlrr_BlockLength_def Dlrr_wire_def)

lemma TargetBitrate_CreateItem_put: "TargetBitrate_CreateItem t at s = put at (BitrateItem_wire t) s"
  by (simp add: TargetBitrate_CreateItem_def BitrateItem_wire_def put_put_at)

lemma TargetBitrate_Create_emit:
  "Option.bind (TargetBitrate_Create b s) (advance (TargetBitrate_BlockLength b)) =
     emit (TargetBitrate_wire b) s"
  by (simp add: TargetBitrate_Create_def out_simps
      put_write_items_bind [OF TargetBitrate_CreateItem_put length_BitrateItem_wire]
      TargetBitrate_BlockLength_def TargetBitrate_wire_def)

lemma bind_emit_Nil: "index s \<le> length (buffer s) \<Longrightarrow> Option.bind (emit [] s) f = f s"
  by (simp add: emit_Nil)

lemma ExtendedReports_Create_wire:
  "ExtendedReports_Create p maxlen s =
     with_room (ExtendedReports_BlockLength p) maxlen (emit (ExtendedReports_wire p)) s"
  unfolding ExtendedReports_Create_def ExtendedReports_wire_def
proof (rule with_room_cong, goal_cases)
  case (1 s')
  show ?case
    using length_ExtendedReports_body [of p]
    by (cases "xr_rrtr p"; cases "dlrr_sub_blocks (xr_dlrr p) = []"; cases "xr_voip_metric p";
        cases "xr_target_bitrate p")
      (simp_all add: out_simps Rrtr_Create_emit Dlrr_Create_emit VoipMetric_Create_emit
        TargetBitrate_Create_emit Dlrr_bool_def Dlrr_wire_def ExtendedReports_body_def)
qed

section \<open>Parsing what was written\<close>

lemma ParseBlocks_step:
  assumes "block = [bt, reserved] @ WriteBigEndian 2 (of_nat n :: uint16) @ content"
    and "length content = 4 * n" "n < 65536"
    and "ExtendedReports_ParseBlock bt (block @ rest) (of_nat n) p = Some p'"
  shows "ExtendedReports_ParseBlocks (block @ rest) p = ExtendedReports_ParseBlocks rest p'"
proof -
  have n: "unat (of_nat n :: uint16) = n" using assms(3) by (simp add: unat_of_nat)
  have "ReadBigEndian 1 (block @ rest) = Some bt" "ReadBigEndian 2 (drop 2 (block @ rest)) = Some (of_nat n :: uint16)"
    "length block = 4 + 4 * n"
    unfolding assms(1) by (simp_all add: wire_simps assms(2))
  then show ?thesis
    using assms(4) by (subst ExtendedReports_ParseBlocks.simps) (simp add: n)
qed

lemma ParseBlocks_rrtr:
  assumes "xr_rrtr p = None"
  shows "ExtendedReports_ParseBlocks (Rrtr_wire r @ rest) p =
     ExtendedReports_ParseBlocks rest (p\<lparr>xr_rrtr := Some r\<rparr>)"
proof (rule ParseBlocks_step)
  show "ExtendedReports_ParseBlock Rrtr_kBlockType (Rrtr_wire r @ rest) (of_nat 2) p =
      Some (p\<lparr>xr_rrtr := Some r\<rparr>)"
    using assms by (simp add: ExtendedReports_ParseBlock_def ExtendedReports_ParseRrtrBlock_def
        Rrtr_Parse_def Rrtr_wire_def wire_simps)
  show "Rrtr_wire r = [Rrtr_kBlockType, 0] @ WriteBigEndian 2 (of_nat 2 :: uint16) @
      WriteBigEndian 4 (NtpTime_seconds (rrtr_ntp r)) @ WriteBigEndian 4 (NtpTime_fractions (rrtr_ntp r))"
    by (simp add: Rrtr_wire_def)
qed simp_all

lemma ParseBlocks_dlrr:
  assumes "dlrr_sub_blocks (xr_dlrr p) = []" "dlrr_sub_blocks d \<noteq> []" "Dlrr_BlockLength d \<le> 262136"
  shows "ExtendedReports_ParseBlocks (Dlrr_wire d @ rest) p =
     ExtendedReports_ParseBlocks rest (p\<lparr>xr_dlrr := d\<rparr>)"
proof (rule ParseBlocks_step)
  let ?n = "length (dlrr_sub_blocks d)"
  let ?content = "concat (map ReceiveTimeInfo_wire (dlrr_sub_blocks d))"
  show w: "Dlrr_wire d = [Dlrr_kBlockType, 0] @ WriteBigEndian 2 (of_nat (3 * ?n) :: uint16) @ ?content"
    using assms(2) by (simp add: Dlrr_wire_def)
  show len: "length ?content = 4 * (3 * ?n)" by (simp add: receive_time_info.length_enc_all)
  show bound: "3 * ?n < 65536" using assms(2,3) by (simp add: Dlrr_BlockLength_def)
  have "unat (of_nat (3 * ?n) :: uint16) = 3 * ?n" using bound by (simp add: unat_of_nat del: of_nat_mult)
  moreover have "drop 4 (Dlrr_wire d @ rest) = ?content @ rest" unfolding w by simp
  ultimately have "Dlrr_Parse (Dlrr_wire d @ rest) (of_nat (3 * ?n)) = Some (Inr d)"
    using receive_time_info.read_items_enc_all [of "dlrr_sub_blocks d" rest]
    by (simp add: Dlrr_Parse_def list_all_iff del: drop_append of_nat_mult)
  then show "ExtendedReports_ParseBlock Dlrr_kBlockType (Dlrr_wire d @ rest) (of_nat (3 * ?n)) p =
      Some (p\<lparr>xr_dlrr := d\<rparr>)"
    using assms(1) by (simp add: ExtendedReports_ParseBlock_def ExtendedReports_ParseDlrrBlock_def
        Dlrr_bool_def del: of_nat_mult)
qed

lemma ParseBlocks_voip:
  assumes "xr_voip_metric p = None"
  shows "ExtendedReports_ParseBlocks (VoipMetric_wire v @ rest) p =
     ExtendedReports_ParseBlocks rest (p\<lparr>xr_voip_metric := Some v\<rparr>)"
proof (rule ParseBlocks_step)
  have "VoipMetric_Parse (VoipMetric_wire v @ rest) = Some v"
    by (simp add: VoipMetric_Parse_def VoipMetric_wire_def Let_def wire_simps)
  then show "ExtendedReports_ParseBlock VoipMetric_kBlockType (VoipMetric_wire v @ rest) (of_nat 8) p =
      Some (p\<lparr>xr_voip_metric := Some v\<rparr>)"
    using assms by (simp add: ExtendedReports_ParseBlock_def ExtendedReports_ParseVoipMetricBlock_def)
  show "VoipMetric_wire v = [VoipMetric_kBlockType, 0] @ WriteBigEndian 2 (of_nat 8 :: uint16) @
      drop 4 (VoipMetric_wire v)"
    by (simp add: VoipMetric_wire_def Let_def)
qed simp_all

lemma BitrateItem_layers:
  fixes sl tl :: byte
  assumes "sl \<le> 0x0F" "tl \<le> 0x0F"
  shows "drop_bit 4 (push_bit 4 sl OR tl) AND 0x0F = sl" "(push_bit 4 sl OR tl) AND 0x0F = tl"
proof -
  have "unat sl < 2 ^ 4" "unat tl < 2 ^ 4" using assms by (simp_all add: word_le_nat_alt)
  note bits = this [THEN bit_less_exp]
  have m: "0x0F = (mask 4 :: byte)" by (simp add: mask_eq_exp_minus_1)
  show "drop_bit 4 (push_bit 4 sl OR tl) AND 0x0F = sl" "(push_bit 4 sl OR tl) AND 0x0F = tl"
    unfolding m by (rule bit_word_eqI; auto simp: bit_simps dest: bits)+
qed

lemma TargetBitrate_Parse_loop:
  assumes "list_all BitrateItem_wf items" "length pre = 4" "k \<le> length items"
  shows "for_each (\<lambda>i b. do {
      let index = 4 + i * 4;
      layers \<leftarrow> byte_at (pre @ concat (map BitrateItem_wire items) @ rest) index;
      bitrate_kbps \<leftarrow> ReadBigEndian 3 (drop (index + 1) (pre @ concat (map BitrateItem_wire items) @ rest));
      Some (TargetBitrate_AddTargetBitrate (drop_bit 4 layers AND 0x0F) (layers AND 0x0F) bitrate_kbps b) })
     [0..<k] \<lparr>tb_bitrates = []\<rparr> = Some \<lparr>tb_bitrates = take k items\<rparr>"
  using assms(3)
proof (induction k)
  case (Suc k)
  let ?x = "items ! k"
  have "concat (map BitrateItem_wire items) = concat (map BitrateItem_wire (take k items)) @
      BitrateItem_wire ?x @ concat (map BitrateItem_wire (drop (Suc k) items))"
    using Suc.prems by (metis id_take_nth_drop Suc_le_eq map_append concat_append list.simps(9) concat.simps(2))
  moreover have "length (concat (map BitrateItem_wire (take k items))) = 4 * k" using Suc.prems by simp
  moreover have "BitrateItem_wf ?x" using assms(1) Suc.prems by (simp add: list_all_length)
  then have wf: "spatial_layer ?x \<le> 15" "temporal_layer ?x \<le> 15"
    and "take_bit 24 (target_bitrate_kbps ?x) = target_bitrate_kbps ?x"
    by (simp_all add: BitrateItem_wf_def word_le_nat_alt word_unat_eq_iff unsigned_take_bit_eq
        take_bit_nat_eq_self_iff)
  ultimately have "byte_at (pre @ concat (map BitrateItem_wire items) @ rest) (4 + k * 4) =
      Some (push_bit 4 (spatial_layer ?x) OR temporal_layer ?x)"
    "ReadBigEndian 3 (drop (4 + k * 4 + 1) (pre @ concat (map BitrateItem_wire items) @ rest)) =
      Some (target_bitrate_kbps ?x)"
    using assms(2) by (simp_all add: BitrateItem_wire_def wire_simps)
  then show ?case
    using Suc BitrateItem_layers [OF wf]
    by (simp add: for_each_append TargetBitrate_AddTargetBitrate_def take_Suc_conv_app_nth
        del: drop_append drop_drop)
qed simp

lemma ParseBlocks_target:
  assumes "list_all BitrateItem_wf (tb_bitrates b)" "TargetBitrate_BlockLength b \<le> 262136"
  shows "ExtendedReports_ParseBlocks (TargetBitrate_wire b @ rest) p =
     ExtendedReports_ParseBlocks rest
       (p\<lparr>xr_target_bitrate := if tb_bitrates b = [] then None else Some b\<rparr>)"
proof (rule ParseBlocks_step)
  let ?n = "length (tb_bitrates b)"
  let ?pre = "[TargetBitrate_kBlockType, 0] @ WriteBigEndian 2 (of_nat ?n :: uint16)"
  show w: "TargetBitrate_wire b = [TargetBitrate_kBlockType, 0] @ WriteBigEndian 2 (of_nat ?n :: uint16) @
      concat (map BitrateItem_wire (tb_bitrates b))"
    by (simp add: TargetBitrate_wire_def)
  show bound: "?n < 65536" using assms(2) by (simp add: TargetBitrate_BlockLength_def)
  have n: "unat (of_nat ?n :: uint16) = ?n" using bound by (simp add: unat_of_nat)
  have "TargetBitrate_Parse (TargetBitrate_wire b @ rest) (of_nat ?n) TargetBitrate_new = Some (Inr b)"
    if "tb_bitrates b \<noteq> []"
  proof -
    have "\<not> (of_nat ?n :: uint16) < 1" using that n by (simp add: word_less_nat_alt)
    moreover have "TargetBitrate_wire b @ rest = ?pre @ concat (map BitrateItem_wire (tb_bitrates b)) @ rest"
      by (simp add: w)
    ultimately show ?thesis
      using TargetBitrate_Parse_loop [OF assms(1), of ?pre ?n rest]
      by (simp add: TargetBitrate_Parse_def TargetBitrate_new_def n)
  qed
  then show "ExtendedReports_ParseBlock TargetBitrate_kBlockType (TargetBitrate_wire b @ rest) (of_nat ?n) p =
      Some (p\<lparr>xr_target_bitrate := if tb_bitrates b = [] then None else Some b\<rparr>)"
    by (cases "tb_bitrates b = []")
      (simp_all add: ExtendedReports_ParseBlock_def ExtendedReports_ParseTargetBitrateBlock_def
        TargetBitrate_Parse_def)
qed simp

lemma ParseBlocks_Nil [simp]: "ExtendedReports_ParseBlocks [] p = Some (Inr p)"
  by (simp add: ExtendedReports_ParseBlocks.simps)

lemma ExtendedReports_Parse_body:
  assumes wf: "ExtendedReports_wf p"
    and hd: "ch_payload_size h = length (ExtendedReports_body p)" "payload h = ExtendedReports_body p"
  shows "ExtendedReports_Parse h = Some (Inr (ExtendedReports_canon p))"
proof -
  have small: "Dlrr_BlockLength (xr_dlrr p) \<le> 262136"
    "\<And>b. xr_target_bitrate p = Some b \<Longrightarrow> TargetBitrate_BlockLength b \<le> 262136"
    "\<And>b. xr_target_bitrate p = Some b \<Longrightarrow> list_all BitrateItem_wf (tb_bitrates b)"
    using wf by (auto simp: ExtendedReports_wf_def ExtendedReports_BlockLength_def
        ExtendedReports_TargetBitrateLength_def split: option.splits)
  let ?p0 = "\<lparr>xr_sender_ssrc = xr_sender_ssrc p, xr_rrtr = None, xr_dlrr = \<lparr>dlrr_sub_blocks = []\<rparr>,
      xr_voip_metric = None, xr_target_bitrate = None\<rparr>"
  let ?p1 = "?p0\<lparr>xr_rrtr := xr_rrtr p\<rparr>"
  let ?p2 = "?p1\<lparr>xr_dlrr := xr_dlrr p\<rparr>"
  let ?p3 = "?p2\<lparr>xr_voip_metric := xr_voip_metric p\<rparr>"
  have 1: "ExtendedReports_ParseBlocks (opt_wire Rrtr_wire (xr_rrtr p) @ rest) ?p0 =
      ExtendedReports_ParseBlocks rest ?p1" for rest
    by (cases "xr_rrtr p") (simp_all add: ParseBlocks_rrtr)
  have 2: "ExtendedReports_ParseBlocks (Dlrr_wire (xr_dlrr p) @ rest) ?p1 =
      ExtendedReports_ParseBlocks rest ?p2" for rest
  proof (cases "dlrr_sub_blocks (xr_dlrr p) = []")
    case True
    then have "xr_dlrr p = \<lparr>dlrr_sub_blocks = []\<rparr>" by simp
    then show ?thesis by (simp add: Dlrr_wire_def)
  qed (simp add: ParseBlocks_dlrr small)
  have 3: "ExtendedReports_ParseBlocks (opt_wire VoipMetric_wire (xr_voip_metric p) @ rest) ?p2 =
      ExtendedReports_ParseBlocks rest ?p3" for rest
    by (cases "xr_voip_metric p") (simp_all add: ParseBlocks_voip)
  have 4: "ExtendedReports_ParseBlocks (opt_wire TargetBitrate_wire (xr_target_bitrate p)) ?p3 =
      Some (Inr (ExtendedReports_canon p))"
  proof (cases "xr_target_bitrate p")
    case None
    then show ?thesis by (simp add: ExtendedReports_canon_def)
  next
    case (Some b)
    have "tb_bitrates b = [] \<longleftrightarrow> b = \<lparr>tb_bitrates = []\<rparr>" by (cases b) simp
    then show ?thesis
      using Some ParseBlocks_target [of b "[]" ?p3] small(2,3) [OF Some]
      by (simp add: ExtendedReports_canon_def)
  qed
  show ?thesis
    using hd 1 2 3 4 by (simp add: ExtendedReports_Parse_def ExtendedReports_body_def wire_simps)
qed

section \<open>Memory safety\<close>

lemma safe_Rrtr_Parse [safe_intros]: "12 \<le> length block \<Longrightarrow> safe (Rrtr_Parse block)"
  unfolding Rrtr_Parse_def by (intro safe_intros) auto

lemma safe_VoipMetric_Parse [safe_intros]: "36 \<le> length block \<Longrightarrow> safe (VoipMetric_Parse block)"
  unfolding VoipMetric_Parse_def by (intro safe_intros) auto

lemma safe_Dlrr_Parse [safe_intros]:
  "4 + unat n * 4 \<le> length block \<Longrightarrow> safe (Dlrr_Parse block n)"
  unfolding Dlrr_Parse_def by (intro safe_intros) auto

lemma safe_TargetBitrate_Parse [safe_intros]:
  assumes "4 + unat n * 4 \<le> length block"
  shows "safe (TargetBitrate_Parse block n b)"
  unfolding TargetBitrate_Parse_def using assms by (intro safe_intros) (auto simp: Let_def)

lemma safe_ParseBlock [safe_intros]:
  assumes "4 + unat n * 4 \<le> length block"
  shows "safe (ExtendedReports_ParseBlock bt block n p)"
  unfolding ExtendedReports_ParseBlock_def ExtendedReports_ParseRrtrBlock_def
    ExtendedReports_ParseDlrrBlock_def ExtendedReports_ParseVoipMetricBlock_def
    ExtendedReports_ParseTargetBitrateBlock_def
  using assms by (intro safe_intros) auto

lemma safe_ParseBlocks [safe_intros]: "safe (ExtendedReports_ParseBlocks block p)"
proof (induction block p rule: ExtendedReports_ParseBlocks.induct)
  case (1 block p)
  show ?case
    by (subst ExtendedReports_ParseBlocks.simps) (intro safe_intros "1.IH" refl; simp)
qed

interpretation extended_reports: rtcp_codec ExtendedReports_wf ExtendedReports_BlockLength
  ExtendedReports_Create ExtendedReports_wire ExtendedReports_Parse 207 "\<lambda>_. 0"
  ExtendedReports_body ExtendedReports_canon
proof unfold_locales
  fix p :: extended_reports and maxlen s
  show "ExtendedReports_Create p maxlen s =
      with_room (ExtendedReports_BlockLength p) maxlen (emit (ExtendedReports_wire p)) s"
    by (rule ExtendedReports_Create_wire)
  show "length (ExtendedReports_wire p) = ExtendedReports_BlockLength p"
    using length_ExtendedReports_body [of p] by (simp add: ExtendedReports_wire_def)
  show "4 dvd ExtendedReports_BlockLength p" "4 \<le> ExtendedReports_BlockLength p"
    by (auto simp: ExtendedReports_BlockLength_def Dlrr_BlockLength_def TargetBitrate_BlockLength_def
        ExtendedReports_TargetBitrateLength_def split: option.split)
next
  show "ExtendedReports_Parse h \<noteq> None" if "valid_header h" for h
    unfolding ExtendedReports_Parse_def using that by (intro safeD safe_intros) auto
qed (simp_all add: ExtendedReports_wire_def ExtendedReports_wf_def ExtendedReports_Parse_body)

section \<open>Properties\<close>

text \<open>
  C29. Extended report round trip: reference time, DLRR items, VoIP metrics and target bit rates all
  survive building and parsing, in every combination. The one exception is a target bit rate block
  with no items, which is written but not recognised by the parser.
\<close>

theorem ExtendedReports_roundtrip:
  assumes "ExtendedReports_BlockLength p \<le> 262144" "length mem = ExtendedReports_BlockLength p"
    and "\<forall>b. xr_target_bitrate p = Some b \<longrightarrow> tb_bitrates b \<noteq> [] \<and>
      list_all (\<lambda>i. spatial_layer i \<le> 0x0F \<and> temporal_layer i \<le> 0x0F \<and>
        target_bitrate_kbps i \<le> 0x00FFFFFF) (tb_bitrates b)"
  shows "Option.bind (Build (ExtendedReports_Create p) mem) (ParseSinglePacket ExtendedReports_Parse) =
     Some (Inr p)"
proof -
  have "ExtendedReports_wf p" "ExtendedReports_canon p = p"
    using assms(1,3) by (auto simp: ExtendedReports_wf_def BitrateItem_wf_def [abs_def]
        ExtendedReports_canon_def split: option.splits)
  then show ?thesis using extended_reports.Build_Parse [of p mem] assms(2) by simp
qed

theorem ExtendedReports_roundtrip_witness:
  "let p = ExtendedReports_SetTargetBitrate
       (TargetBitrate_AddTargetBitrate 1 2 500 TargetBitrate_new)
       (ExtendedReports_SetRrtr (Rrtr_SetNtp 0x1111111122222222 \<lparr>rrtr_ntp = 0\<rparr>) ExtendedReports_new)
   in ExtendedReports_BlockLength p = 28 \<and>
      Option.bind (Build (ExtendedReports_Create p) (replicate 28 0)) (ParseSinglePacket ExtendedReports_Parse) =
        Some (Inr p)"
proof -
  let ?p = "ExtendedReports_SetTargetBitrate
       (TargetBitrate_AddTargetBitrate 1 2 500 TargetBitrate_new)
       (ExtendedReports_SetRrtr (Rrtr_SetNtp 0x1111111122222222 \<lparr>rrtr_ntp = 0\<rparr>) ExtendedReports_new)"
  have "ExtendedReports_BlockLength ?p = 28"
    by (simp add: ExtendedReports_SetTargetBitrate_def TargetBitrate_AddTargetBitrate_def
        TargetBitrate_new_def ExtendedReports_SetRrtr_def ExtendedReports_new_def
        ExtendedReports_BlockLength_def Dlrr_BlockLength_def ExtendedReports_TargetBitrateLength_def
        TargetBitrate_BlockLength_def)
  then show ?thesis
    using ExtendedReports_roundtrip [of ?p "replicate 28 0"]
    by (simp add: Let_def ExtendedReports_SetTargetBitrate_def TargetBitrate_AddTargetBitrate_def
        TargetBitrate_new_def)
qed

text \<open>
  C40. A target bit rate block without items is lost: the report is built without complaint, and the
  receiver sees a report that has no target bit rate at all.
\<close>

theorem ExtendedReports_empty_target_bitrate:
  assumes "xr_target_bitrate p = Some TargetBitrate_new" "ExtendedReports_BlockLength p \<le> 262144"
    and "length mem = ExtendedReports_BlockLength p"
  shows "Option.bind (Build (ExtendedReports_Create p) mem) (ParseSinglePacket ExtendedReports_Parse) =
     Some (Inr (p\<lparr>xr_target_bitrate := None\<rparr>))"
  using extended_reports.Build_Parse [of p mem] assms
  by (simp add: ExtendedReports_wf_def ExtendedReports_canon_def TargetBitrate_new_def)

theorem ExtendedReports_empty_target_bitrate_witness:
  "let p = ExtendedReports_SetTargetBitrate TargetBitrate_new ExtendedReports_new in
   Option.bind (Build (ExtendedReports_Create p) (replicate 12 0)) (ParseSinglePacket ExtendedReports_Parse) =
     Some (Inr ExtendedReports_new)"
  using ExtendedReports_empty_target_bitrate
    [of "ExtendedReports_SetTargetBitrate TargetBitrate_new ExtendedReports_new" "replicate 12 0"]
  by (simp add: ExtendedReports_SetTargetBitrate_def ExtendedReports_new_def
        ExtendedReports_BlockLength_def Dlrr_BlockLength_def ExtendedReports_TargetBitrateLength_def
        TargetBitrate_BlockLength_def TargetBitrate_new_def)

end
