(* ===== verification/SeqNum.thy ===== *)
theory SeqNum
  imports Prelude
begin

text \<open>
  Arithmetic on wrapping numbers: the sequence number and time stamp comparisons and the
  \<open>SequenceNumberUnwrapper\<close> of \<open>modules/include/module_common_types.h\<close>, the modular operations
  of \<open>base/mod_ops.h\<close> and the comparisons of \<open>modules/video_coding/sequence_number_util.h\<close>.
\<close>

section \<open>Comparison\<close>

definition IsNewerSequenceNumber :: "uint16 \<Rightarrow> uint16 \<Rightarrow> bool" where
  "IsNewerSequenceNumber sequence_number prev_sequence_number =
     (if sequence_number - prev_sequence_number = 0x8000
      then sequence_number > prev_sequence_number
      else sequence_number \<noteq> prev_sequence_number \<and>
           sequence_number - prev_sequence_number < 0x8000)"

definition IsNewerTimestamp :: "uint32 \<Rightarrow> uint32 \<Rightarrow> bool" where
  "IsNewerTimestamp timestamp prev_timestamp =
     (if timestamp - prev_timestamp = 0x80000000
      then timestamp > prev_timestamp
      else timestamp \<noteq> prev_timestamp \<and> timestamp - prev_timestamp < 0x80000000)"

definition LatestSequenceNumber :: "uint16 \<Rightarrow> uint16 \<Rightarrow> uint16" where
  "LatestSequenceNumber sequence_number1 sequence_number2 =
     (if IsNewerSequenceNumber sequence_number1 sequence_number2
      then sequence_number1 else sequence_number2)"

definition LatestTimestamp :: "uint32 \<Rightarrow> uint32 \<Rightarrow> uint32" where
  "LatestTimestamp timestamp1 timestamp2 =
     (if IsNewerTimestamp timestamp1 timestamp2 then timestamp1 else timestamp2)"

section \<open>Modular operations\<close>

text \<open>\<open>Add\<close> and \<open>Subtract\<close> work in an unsigned type of any width.\<close>

definition Add_mod :: "'a::len word \<Rightarrow> 'a word \<Rightarrow> 'a word \<Rightarrow> 'a word" where
  "Add_mod M a b =
     (let t = M - b mod M; res = a - t in if t > a then res + M else res)"

definition Subtract_mod :: "'a::len word \<Rightarrow> 'a word \<Rightarrow> 'a word \<Rightarrow> 'a word" where
  "Subtract_mod M a b =
     (let sub = b mod M in if a < sub then M - (sub - a) else a - sub)"

definition ForwardDiff_mod :: "'a::len word \<Rightarrow> 'a word \<Rightarrow> 'a word \<Rightarrow> 'a word" where
  "ForwardDiff_mod M a b = (if a \<le> b then b - a else M - (a - b))"

definition ForwardDiff :: "'a::len word \<Rightarrow> 'a word \<Rightarrow> 'a word" where
  "ForwardDiff a b = b - a"

definition ReverseDiff_mod :: "'a::len word \<Rightarrow> 'a word \<Rightarrow> 'a word \<Rightarrow> 'a word" where
  "ReverseDiff_mod M a b = (if b \<le> a then a - b else M - (b - a))"

definition ReverseDiff :: "'a::len word \<Rightarrow> 'a word \<Rightarrow> 'a word" where
  "ReverseDiff a b = a - b"

definition MinDiff_mod :: "'a::len word \<Rightarrow> 'a word \<Rightarrow> 'a word \<Rightarrow> 'a word" where
  "MinDiff_mod M a b = min (ForwardDiff_mod M a b) (ReverseDiff_mod M a b)"

definition MinDiff :: "'a::len word \<Rightarrow> 'a word \<Rightarrow> 'a word" where
  "MinDiff a b = min (ForwardDiff a b) (ReverseDiff a b)"

definition AheadOrAt_mod :: "'a::len word \<Rightarrow> 'a word \<Rightarrow> 'a word \<Rightarrow> bool" where
  "AheadOrAt_mod M a b =
     (let maxDist = M div 2 in
      if \<not> (M AND 1 \<noteq> 0) \<and> MinDiff_mod M a b = maxDist then b < a
      else ForwardDiff_mod M b a \<le> maxDist)"

text \<open>For \<open>uint16_t\<close> the difference \<open>a - b\<close> is computed in \<open>int\<close>.\<close>

definition AheadOrAt :: "uint16 \<Rightarrow> uint16 \<Rightarrow> bool" where
  "AheadOrAt a b =
     (let maxDist = 0xffff div 2 + 1 in
      if uint a - uint b = uint maxDist then b < a else ForwardDiff b a < maxDist)"

definition AheadOf_mod :: "'a::len word \<Rightarrow> 'a word \<Rightarrow> 'a word \<Rightarrow> bool" where
  "AheadOf_mod M a b \<longleftrightarrow> a \<noteq> b \<and> AheadOrAt_mod M a b"

definition AheadOf :: "uint16 \<Rightarrow> uint16 \<Rightarrow> bool" where
  "AheadOf a b \<longleftrightarrow> a \<noteq> b \<and> AheadOrAt a b"

section \<open>Unwrapping\<close>

record unwrapper =
  last_seq :: int

definition SequenceNumberUnwrapper_new :: unwrapper where
  "SequenceNumberUnwrapper_new = \<lparr>last_seq = - 1\<rparr>"

definition UnwrapWithoutUpdate :: "uint16 \<Rightarrow> unwrapper \<Rightarrow> int" where
  "UnwrapWithoutUpdate sequence_number u =
     (if last_seq u = - 1 then uint sequence_number
      else
        let cropped_last = (word_of_int (last_seq u) :: uint16);
            delta = uint sequence_number - uint cropped_last;
            delta = (if IsNewerSequenceNumber sequence_number cropped_last
                     then (if delta < 0 then delta + 65536 else delta)
                     else if delta > 0 \<and> last_seq u + delta - 65536 \<ge> 0 then delta - 65536
                     else delta)
        in last_seq u + delta)"

definition UpdateLast :: "int \<Rightarrow> unwrapper \<Rightarrow> unwrapper" where
  "UpdateLast last_sequence u = u\<lparr>last_seq := last_sequence\<rparr>"

definition Unwrap :: "uint16 \<Rightarrow> unwrapper \<Rightarrow> int \<times> unwrapper" where
  "Unwrap sequence_number u =
     (let unwrapped = UnwrapWithoutUpdate sequence_number u in (unwrapped, UpdateLast unwrapped u))"

section \<open>Word differences as integers\<close>

lemma uint16_diff: "uint (a - b :: uint16) = (uint a - uint b) mod 65536"
  by (simp add: uint_word_ariths)

lemma uint16_range: "0 \<le> uint (a :: uint16)" "uint a < 65536"
  using uint_lt2p [of a] by simp_all

text \<open>The comparison in plain integers: \<open>d\<close> is the forward distance.\<close>

lemma IsNewerSequenceNumber_int:
  "IsNewerSequenceNumber a b \<longleftrightarrow>
     (let d = (uint a - uint b) mod 65536 in (0 < d \<and> d < 32768) \<or> (d = 32768 \<and> uint a > uint b))"
proof -
  have eq: "a - b = 0x8000 \<longleftrightarrow> uint (a - b) = 32768" "a = b \<longleftrightarrow> uint a = uint b"
    by (simp_all add: word_uint_eq_iff)
  have "a \<noteq> b \<longleftrightarrow> 0 < (uint a - uint b) mod 65536"
  proof -
    have "a \<noteq> b \<longleftrightarrow> a - b \<noteq> 0" by simp
    also have "\<dots> \<longleftrightarrow> uint (a - b) \<noteq> 0" by (simp add: word_uint_eq_iff)
    also have "\<dots> \<longleftrightarrow> 0 < uint (a - b)" using uint16_range [of "a - b"] by linarith
    finally show ?thesis by (simp add: uint16_diff)
  qed
  then show ?thesis
    by (auto simp: IsNewerSequenceNumber_def eq word_less_def uint16_diff Let_def)
qed

lemma int16_diff_if:
  "(uint a - uint b) mod 65536 = (if uint b \<le> uint a then uint a - uint b else uint a - uint b + 65536)"
  for a b :: uint16
proof (cases "uint b \<le> uint a")
  case True
  then have "(uint a - uint b) mod 65536 = uint a - uint b"
    using uint16_range [of a] uint16_range [of b] by (intro mod_pos_pos_trivial) linarith+
  with True show ?thesis by simp
next
  case False
  have "(uint a - uint b) mod 65536 = (uint a - uint b + 65536) mod 65536" by simp
  also have "\<dots> = uint a - uint b + 65536"
    using False uint16_range [of a] uint16_range [of b] by (intro mod_pos_pos_trivial) linarith+
  finally show ?thesis using False by simp
qed

text \<open>The comparison without a remainder, on integers \<open>x\<close>, \<open>y\<close> in the range of \<open>uint16_t\<close>.\<close>

definition newer_int :: "int \<Rightarrow> int \<Rightarrow> bool" where
  "newer_int x y \<longleftrightarrow> (0 < x - y \<and> x - y \<le> 32768) \<or> x - y < - 32768"

lemma IsNewer_newer_int: "IsNewerSequenceNumber a b \<longleftrightarrow> newer_int (uint a) (uint b)"
proof -
  have "(let d = (if y \<le> x then x - y else x - y + 65536) in
      (0 < d \<and> d < 32768) \<or> (d = 32768 \<and> x > y)) \<longleftrightarrow> newer_int x y"
    if "0 \<le> x" "x < 65536" "0 \<le> y" "y < 65536" for x y :: int
    using that by (auto simp: newer_int_def Let_def)
  then show ?thesis
    using uint16_range [of a] uint16_range [of b]
    unfolding IsNewerSequenceNumber_int int16_diff_if by blast
qed

lemma IsNewer_total: "a \<noteq> b \<Longrightarrow> IsNewerSequenceNumber a b \<noteq> IsNewerSequenceNumber b a"
  by (auto simp: IsNewer_newer_int newer_int_def word_uint_eq_iff)

lemma IsNewer_irrefl [simp]: "\<not> IsNewerSequenceNumber a a"
  by (simp add: IsNewer_newer_int newer_int_def)

lemma AheadOf_IsNewer: "AheadOf a b \<longleftrightarrow> IsNewerSequenceNumber a b"
proof -
  have "AheadOf a b \<longleftrightarrow> uint a \<noteq> uint b \<and>
      (if uint a - uint b = 32768 then uint b < uint a else (uint a - uint b) mod 65536 < 32768)"
    by (simp add: AheadOf_def AheadOrAt_def ForwardDiff_def word_less_def uint16_diff word_uint_eq_iff)
  moreover have "(x \<noteq> y \<and> (if x - y = 32768 then y < x
      else (if y \<le> x then x - y else x - y + 65536) < 32768)) \<longleftrightarrow> newer_int x y"
    if "0 \<le> x" "x < 65536" "0 \<le> y" "y < 65536" for x y :: int
    using that by (auto simp: newer_int_def)
  ultimately show ?thesis
    using uint16_range [of a] uint16_range [of b] unfolding IsNewer_newer_int int16_diff_if by blast
qed

section \<open>Modular operations on words\<close>

lemma unat_minus: "b \<le> a \<Longrightarrow> unat (a - b) = unat a - unat b" for a b :: "'a::len word"
  by (rule unat_sub)

lemma Add_mod_unat:
  assumes "a < M"
  shows "unat (Add_mod M a b) = (unat a + unat b) mod unat M"
proof -
  have a: "unat a < unat M" using assms by (simp add: word_less_nat_alt)
  define r where "r = unat b mod unat M"
  have r: "r < unat M" unfolding r_def using a by (intro mod_less_divisor) linarith
  have t: "unat (M - b mod M) = unat M - r"
    using r by (subst unat_sub) (simp_all add: word_le_nat_alt unat_mod_distrib r_def)
  have sum: "(unat a + unat b) mod unat M = (unat a + r) mod unat M"
    by (simp add: mod_add_right_eq r_def)
  show ?thesis
  proof (cases "a < M - b mod M")
    case True
    then have lt: "unat a + r < unat M" using r by (simp add: word_less_nat_alt t)
    have "a - (M - b mod M) + M = a + b mod M" by simp
    moreover have "unat (a + b mod M) = unat a + r"
      using lt order.strict_trans [OF lt unsigned_less [of M]]
      by (subst unat_plus_if') (simp add: unat_mod_distrib r_def)
    ultimately show ?thesis using True lt by (simp add: Add_mod_def Let_def sum)
  next
    case False
    then have ge: "unat M \<le> unat a + r" using r by (simp add: word_less_nat_alt t)
    have "unat (a - (M - b mod M)) = unat a + r - unat M"
      using False r by (subst unat_sub) (simp_all add: word_le_nat_alt word_less_nat_alt t)
    moreover have "(unat a + r) mod unat M = unat a + r - unat M"
      using ge a r by (simp add: le_mod_geq)
    ultimately show ?thesis using False by (simp add: Add_mod_def Let_def sum)
  qed
qed

lemma Subtract_mod_unat:
  assumes "a < M"
  shows "(unat (Subtract_mod M a b) + unat b) mod unat M = unat a" "Subtract_mod M a b < M"
proof -
  have a: "unat a < unat M" using assms by (simp add: word_less_nat_alt)
  define r where "r = unat b mod unat M"
  have r: "r < unat M" unfolding r_def using a by (intro mod_less_divisor) linarith
  have u: "unat (b mod M) = r" by (simp add: unat_mod_distrib r_def)
  have v: "unat (Subtract_mod M a b) = (if unat a < r then unat M - (r - unat a) else unat a - r)"
    using r by (auto simp: Subtract_mod_def Let_def word_less_nat_alt word_le_nat_alt u unat_sub)
  show "(unat (Subtract_mod M a b) + unat b) mod unat M = unat a"
    unfolding v mod_add_right_eq [of _ "unat b", symmetric] r_def [symmetric] using a r by auto
  show "Subtract_mod M a b < M" using a r by (auto simp: word_less_nat_alt v)
qed

lemma ForwardDiff_mod_unat:
  assumes "a < M" "b < M"
  shows "(unat a + unat (ForwardDiff_mod M a b)) mod unat M = unat b" "ForwardDiff_mod M a b < M"
proof -
  have ab: "unat a < unat M" "unat b < unat M" using assms by (simp_all add: word_less_nat_alt)
  have v: "unat (ForwardDiff_mod M a b) = (if unat a \<le> unat b then unat b - unat a else unat M - (unat a - unat b))"
    using ab by (auto simp: ForwardDiff_mod_def word_le_nat_alt unat_sub)
  show "(unat a + unat (ForwardDiff_mod M a b)) mod unat M = unat b" "ForwardDiff_mod M a b < M"
    using ab by (auto simp: v word_less_nat_alt)
qed

lemma ReverseDiff_mod_Forward: "ReverseDiff_mod M a b = ForwardDiff_mod M b a"
  by (simp add: ReverseDiff_mod_def ForwardDiff_mod_def)

lemma MinDiff_mod_sym: "MinDiff_mod M a b = MinDiff_mod M b a"
  by (simp add: MinDiff_mod_def ReverseDiff_mod_Forward min.commute)

lemma MinDiff_sym: "MinDiff a b = MinDiff b a"
  by (simp add: MinDiff_def ForwardDiff_def ReverseDiff_def min.commute)

section \<open>Unwrapping is correct\<close>

text \<open>The body of \<open>UnwrapWithoutUpdate\<close> on the integers it computes with.\<close>

definition unwrap_int :: "int \<Rightarrow> int \<Rightarrow> int" where
  "unwrap_int l x =
     (let delta = x - l mod 65536 in
      l + (if newer_int x (l mod 65536) then (if delta < 0 then delta + 65536 else delta)
              else if delta > 0 \<and> l + delta - 65536 \<ge> 0 then delta - 65536 else delta))"

lemma UnwrapWithoutUpdate_int:
  "UnwrapWithoutUpdate s u = (if last_seq u = - 1 then uint s else unwrap_int (last_seq u) (uint s))"
  by (simp add: UnwrapWithoutUpdate_def unwrap_int_def IsNewer_newer_int uint_word_of_int Let_def)

lemma unwrap_int_congruent:
  assumes "0 \<le> x" "x < 65536"
  shows "unwrap_int l x mod 65536 = x"
proof -
  define q where "q = l div 65536"
  have l: "l - l mod 65536 = 65536 * q" by (simp add: q_def minus_mod_eq_mult_div)
  let ?delta = "x - l mod 65536"
  define k :: int where "k = (if newer_int x (l mod 65536) then (if ?delta < 0 then 1 else 0)
      else if ?delta > 0 \<and> l + ?delta - 65536 \<ge> 0 then - 1 else 0)"
  have "unwrap_int l x = (l - l mod 65536) + x + 65536 * k"
    by (simp add: unwrap_int_def Let_def k_def)
  then have "unwrap_int l x = x + 65536 * (q + k)" unfolding l by simp
  then have "unwrap_int l x mod 65536 = x mod 65536" by (simp only: mod_mult_self2)
  then show ?thesis using assms by simp
qed

lemma unwrap_int_nonneg:
  assumes "0 \<le> l" "0 \<le> x" "x < 65536"
  shows "0 \<le> unwrap_int l x"
proof -
  define c where "c = l mod 65536"
  have "0 \<le> c" "c < 65536" "c \<le> l" using assms(1) by (simp_all add: c_def zmod_le_nonneg_dividend)
  then show ?thesis
    using assms unfolding unwrap_int_def Let_def c_def [symmetric] newer_int_def by auto
qed

lemma unwrap_int_nearest:
  assumes "0 \<le> x" "\<bar>x - l\<bar> < 32768"
  shows "unwrap_int l (x mod 65536) = x"
proof -
  define c where "c = l mod 65536"
  define s where "s = x mod 65536"
  have range: "0 \<le> c" "c < 65536" "0 \<le> s" "s < 65536" by (simp_all add: c_def s_def)
  have "(s - c) mod 65536 = (x - l) mod 65536" by (simp add: s_def c_def mod_diff_eq)
  then obtain k where k: "s - c = (x - l) + 65536 * k"
    by (metis mod_eqE add.commute mult.commute)
  then have "k = - 1 \<or> k = 0 \<or> k = 1" using range assms(2) by auto
  then show ?thesis
    using k range assms
    unfolding unwrap_int_def Let_def c_def [symmetric] s_def [symmetric] newer_int_def by auto
qed

fun Unwrap_all :: "uint16 list \<Rightarrow> unwrapper \<Rightarrow> int list" where
  "Unwrap_all [] u = []"
| "Unwrap_all (s # ss) u = (case Unwrap s u of (x, u') \<Rightarrow> x # Unwrap_all ss u')"

lemma Unwrap_all_tracks:
  assumes "0 \<le> last_seq u" "list_all (\<lambda>x. 0 \<le> x) xs"
    "successively (\<lambda>x y. \<bar>y - x\<bar> < 32768) (last_seq u # xs)"
  shows "Unwrap_all (map word_of_int xs) u = xs"
  using assms
proof (induction xs arbitrary: u)
  case (Cons x xs)
  have "UnwrapWithoutUpdate (word_of_int x) u = x"
    using Cons.prems by (simp add: UnwrapWithoutUpdate_int uint_word_of_int unwrap_int_nearest)
  then show ?case
    using Cons.prems Cons.IH [of "u\<lparr>last_seq := x\<rparr>"] by (simp add: Unwrap_def UpdateLast_def)
qed simp

section \<open>Properties\<close>

text \<open>
  C35. Sequence number comparison is a tournament: of two different numbers exactly one is newer,
  no number is newer than itself, moving forward by less than half the range makes a number newer,
  and the two implementations in the code base agree.
\<close>

theorem IsNewerSequenceNumber_order:
  "(IsNewerSequenceNumber a b \<noteq> IsNewerSequenceNumber b a) = (a \<noteq> b) \<and>
   \<not> IsNewerSequenceNumber a a \<and>
   IsNewerSequenceNumber (a + d) a = (d \<noteq> 0 \<and> (d < 0x8000 \<or> d = 0x8000 \<and> a < 0x8000)) \<and>
   AheadOf a b = IsNewerSequenceNumber a b"
proof -
  have "a + d > a \<longleftrightarrow> a < 0x8000" if "d = 0x8000"
  proof -
    have "unat (a + 0x8000) = (if unat a < 0x8000 then unat a + 0x8000 else unat a - 0x8000)"
      using le_mod_geq [of 65536 "unat a + 0x8000"]
        mod_less [OF less_imp_diff_less [OF unat_lt_65536 [of a]], of "0x8000"]
      by (auto simp: unat_word_ariths)
    then show ?thesis using that by (auto simp: word_less_nat_alt)
  qed
  then have "IsNewerSequenceNumber (a + d) a = (d \<noteq> 0 \<and> (d < 0x8000 \<or> d = 0x8000 \<and> a < 0x8000))"
    by (auto simp: IsNewerSequenceNumber_def)
  then show ?thesis using IsNewer_total [of a b] by (auto simp: AheadOf_IsNewer)
qed



text \<open>
  Unwrapping never goes below zero and always returns a number with the residue it was given,
  whatever non-negative number came before.
\<close>

theorem Unwrap_residue:
  assumes "last_seq u = - 1 \<or> 0 \<le> last_seq u"
  shows "0 \<le> fst (Unwrap s u) \<and> fst (Unwrap s u) mod 65536 = uint s \<and>
     last_seq (snd (Unwrap s u)) = fst (Unwrap s u)"
  using assms unwrap_int_nonneg [of "last_seq u" "uint s"] unwrap_int_congruent [of "uint s" "last_seq u"]
    uint16_range [of s]
  by (auto simp: Unwrap_def UpdateLast_def UnwrapWithoutUpdate_int Let_def)

theorem Unwrap_residue_witness:
  "0 \<le> fst (Unwrap 0xffff \<lparr>last_seq = 3\<rparr>) \<and> fst (Unwrap 0xffff \<lparr>last_seq = 3\<rparr>) mod 65536 = 65535"
  using Unwrap_residue [of "\<lparr>last_seq = 3\<rparr>" "0xffff"] by simp



end
