(* ===== verification/TransportChunk.thy ===== *)
theory TransportChunk
  imports RtcpFeedback
begin

text \<open>
  The chunk encoder of \<open>rtcp_packet/transport_feedback.cc\<close> (\<open>TransportFeedback::LastChunk\<close>):
  delta sizes (0: not received, 1: small delta, 2: large delta) are collected as long as they fit
  one 16 bit chunk, as a run length, as fourteen one bit symbols or as seven two bit symbols.
  All checks of the class, debug checks included, are faults of the model.
\<close>

section \<open>State\<close>

text \<open>
  \<open>lc_delta_sizes\<close> is the array \<open>delta_sizes_[14]\<close>, uninitialised at first, and \<open>lc_size\<close> the
  counter \<open>size_\<close>, which never exceeds \<open>kMaxRunLengthCapacity\<close> and so does not wrap.
\<close>

record last_chunk =
  lc_delta_sizes :: "byte list"
  lc_size :: nat
  lc_all_same :: bool
  lc_has_large_delta :: bool

abbreviation (input) kMaxRunLengthCapacity :: nat where "kMaxRunLengthCapacity \<equiv> 0x1fff"
abbreviation (input) kMaxOneBitCapacity :: nat where "kMaxOneBitCapacity \<equiv> 14"
abbreviation (input) kMaxTwoBitCapacity :: nat where "kMaxTwoBitCapacity \<equiv> 7"
abbreviation (input) kMaxVectorCapacity :: nat where "kMaxVectorCapacity \<equiv> kMaxOneBitCapacity"
abbreviation (input) kLarge :: byte where "kLarge \<equiv> 2"

definition LastChunk_Clear :: "last_chunk \<Rightarrow> last_chunk" where
  "LastChunk_Clear lc = lc\<lparr>lc_size := 0, lc_all_same := True, lc_has_large_delta := False\<rparr>"

definition LastChunk_new :: "byte list \<Rightarrow> last_chunk" where
  "LastChunk_new mem = LastChunk_Clear
     \<lparr>lc_delta_sizes = mem, lc_size = 0, lc_all_same = False, lc_has_large_delta = False\<rparr>"

definition LastChunk_Empty :: "last_chunk \<Rightarrow> bool" where
  "LastChunk_Empty lc \<longleftrightarrow> lc_size lc = 0"

section \<open>Collecting\<close>

definition LastChunk_CanAdd :: "byte \<Rightarrow> last_chunk \<Rightarrow> bool option" where
  "LastChunk_CanAdd delta_size lc =
     (if delta_size > 2 then None
      else if lc_size lc < kMaxTwoBitCapacity then Some True
      else if lc_size lc < kMaxOneBitCapacity \<and> \<not> lc_has_large_delta lc \<and> delta_size \<noteq> kLarge then Some True
      else if lc_size lc < kMaxRunLengthCapacity \<and> lc_all_same lc
      then map_option (\<lambda>first. first = delta_size) (byte_at (lc_delta_sizes lc) 0)
      else Some False)"

definition LastChunk_Add :: "byte \<Rightarrow> last_chunk \<Rightarrow> last_chunk option" where
  "LastChunk_Add delta_size lc = do {
     can_add \<leftarrow> LastChunk_CanAdd delta_size lc;
     if \<not> can_add then None
     else do {
       let sizes = (if lc_size lc < kMaxVectorCapacity then (lc_delta_sizes lc)[lc_size lc := delta_size]
                    else lc_delta_sizes lc);
       first \<leftarrow> byte_at sizes 0;
       Some \<lparr>lc_delta_sizes = sizes, lc_size = lc_size lc + 1,
         lc_all_same = (lc_all_same lc \<and> delta_size = first),
         lc_has_large_delta = (lc_has_large_delta lc \<or> delta_size = kLarge)\<rparr> } }"

section \<open>Encoding\<close>

definition EncodeOneBit :: "last_chunk \<Rightarrow> uint16 option" where
  "EncodeOneBit lc =
     (if lc_has_large_delta lc \<or> lc_size lc > kMaxOneBitCapacity then None
      else for_each (\<lambda>i chunk. do {
        d \<leftarrow> byte_at (lc_delta_sizes lc) i;
        Some (chunk OR push_bit (kMaxOneBitCapacity - 1 - i) (ucast d)) }) [0..<lc_size lc] 0x8000)"

text \<open>A shift by \<open>2 * (kMaxTwoBitCapacity - 1 - i)\<close> is defined only for the first seven symbols.\<close>

definition EncodeTwoBit :: "nat \<Rightarrow> last_chunk \<Rightarrow> uint16 option" where
  "EncodeTwoBit sz lc =
     (if sz > lc_size lc then None
      else for_each (\<lambda>i chunk. do {
        d \<leftarrow> byte_at (lc_delta_sizes lc) i;
        if i < kMaxTwoBitCapacity
        then Some (chunk OR push_bit (2 * (kMaxTwoBitCapacity - 1 - i)) (ucast d)) else None })
        [0..<sz] 0xc000)"

definition EncodeRunLength :: "last_chunk \<Rightarrow> uint16 option" where
  "EncodeRunLength lc =
     (if \<not> lc_all_same lc \<or> lc_size lc > kMaxRunLengthCapacity then None
      else do {
        d \<leftarrow> byte_at (lc_delta_sizes lc) 0;
        Some (push_bit 13 (ucast d) OR of_nat (lc_size lc)) })"

text \<open>The loop of \<open>Emit\<close> that moves the remaining delta sizes to the front, from index \<open>i\<close> on.\<close>

definition Emit_shift :: "nat \<Rightarrow> last_chunk \<Rightarrow> last_chunk option" where
  "Emit_shift i lc = do {
     delta_size \<leftarrow> byte_at (lc_delta_sizes lc) (kMaxTwoBitCapacity + i);
     let sizes = (lc_delta_sizes lc)[i := delta_size];
     first \<leftarrow> byte_at sizes 0;
     Some (lc\<lparr>lc_delta_sizes := sizes,
       lc_all_same := (lc_all_same lc \<and> delta_size = first),
       lc_has_large_delta := (lc_has_large_delta lc \<or> delta_size = kLarge)\<rparr>) }"

definition LastChunk_Emit :: "last_chunk \<Rightarrow> (uint16 \<times> last_chunk) option" where
  "LastChunk_Emit lc = do {
     can_add0 \<leftarrow> LastChunk_CanAdd 0 lc;
     can_add1 \<leftarrow> LastChunk_CanAdd 1 lc;
     can_add2 \<leftarrow> LastChunk_CanAdd 2 lc;
     if can_add0 \<and> can_add1 \<and> can_add2 then None
     else if lc_all_same lc then do {
       chunk \<leftarrow> EncodeRunLength lc;
       Some (chunk, LastChunk_Clear lc) }
     else if lc_size lc = kMaxOneBitCapacity then do {
       chunk \<leftarrow> EncodeOneBit lc;
       Some (chunk, LastChunk_Clear lc) }
     else if lc_size lc < kMaxTwoBitCapacity then None
     else do {
       chunk \<leftarrow> EncodeTwoBit kMaxTwoBitCapacity lc;
       let lc = lc\<lparr>lc_size := lc_size lc - kMaxTwoBitCapacity, lc_all_same := True,
                  lc_has_large_delta := False\<rparr>;
       lc \<leftarrow> for_each Emit_shift [0..<lc_size lc] lc;
       Some (chunk, lc) } }"

definition EncodeLast :: "last_chunk \<Rightarrow> uint16 option" where
  "EncodeLast lc =
     (if lc_size lc = 0 then None
      else if lc_all_same lc then EncodeRunLength lc
      else if lc_size lc \<le> kMaxTwoBitCapacity then EncodeTwoBit (lc_size lc) lc
      else EncodeOneBit lc)"

section \<open>Decoding\<close>

definition LastChunk_AppendTo :: "last_chunk \<Rightarrow> byte list \<Rightarrow> byte list option" where
  "LastChunk_AppendTo lc deltas =
     (if lc_all_same lc then map_option (\<lambda>first. deltas @ replicate (lc_size lc) first) (byte_at (lc_delta_sizes lc) 0)
      else map_option (\<lambda>sizes. deltas @ sizes) (read_bytes (lc_size lc) (lc_delta_sizes lc)))"

text \<open>The loops that fill the first entries of the array.\<close>

definition fill_sizes :: "(nat \<Rightarrow> byte) \<Rightarrow> nat \<Rightarrow> byte list \<Rightarrow> byte list" where
  "fill_sizes f n sizes = foldl (\<lambda>sizes i. sizes[i := f i]) sizes [0..<n]"

definition DecodeOneBit :: "uint16 \<Rightarrow> nat \<Rightarrow> last_chunk \<Rightarrow> last_chunk" where
  "DecodeOneBit chunk max_size lc =
     (let sz = min kMaxOneBitCapacity max_size in
      \<lparr>lc_delta_sizes = fill_sizes (\<lambda>i. ucast (drop_bit (kMaxOneBitCapacity - 1 - i) chunk AND 0x01)) sz
          (lc_delta_sizes lc),
       lc_size = sz, lc_all_same = False, lc_has_large_delta = False\<rparr>)"

definition DecodeTwoBit :: "uint16 \<Rightarrow> nat \<Rightarrow> last_chunk \<Rightarrow> last_chunk" where
  "DecodeTwoBit chunk max_size lc =
     (let sz = min kMaxTwoBitCapacity max_size in
      \<lparr>lc_delta_sizes = fill_sizes (\<lambda>i. ucast (drop_bit (2 * (kMaxTwoBitCapacity - 1 - i)) chunk AND 0x03)) sz
          (lc_delta_sizes lc),
       lc_size = sz, lc_all_same = False, lc_has_large_delta = True\<rparr>)"

definition DecodeRunLength :: "uint16 \<Rightarrow> nat \<Rightarrow> last_chunk \<Rightarrow> last_chunk" where
  "DecodeRunLength chunk max_count lc =
     (let sz = min (unat (chunk AND 0x1fff)) max_count;
          delta_size = ucast (drop_bit 13 chunk AND 0x03)
      in \<lparr>lc_delta_sizes = fill_sizes (\<lambda>_. delta_size) (min sz kMaxVectorCapacity) (lc_delta_sizes lc),
          lc_size = sz, lc_all_same = True, lc_has_large_delta = (delta_size \<ge> kLarge)\<rparr>)"

definition LastChunk_Decode :: "uint16 \<Rightarrow> nat \<Rightarrow> last_chunk \<Rightarrow> last_chunk" where
  "LastChunk_Decode chunk max_size lc =
     (if chunk AND 0x8000 = 0 then DecodeRunLength chunk max_size lc
      else if chunk AND 0x4000 = 0 then DecodeOneBit chunk max_size lc
      else DecodeTwoBit chunk max_size lc)"

section \<open>What a chunk means\<close>

definition chunk_symbols :: "uint16 \<Rightarrow> byte list" where
  "chunk_symbols chunk =
     (if chunk AND 0x8000 = 0 then replicate (unat (chunk AND 0x1fff)) (ucast (drop_bit 13 chunk AND 0x03))
      else if chunk AND 0x4000 = 0 then map (\<lambda>i. ucast (drop_bit (13 - i) chunk AND 0x01)) [0..<14]
      else map (\<lambda>i. ucast (drop_bit (2 * (6 - i)) chunk AND 0x03)) [0..<7])"

definition lc_list :: "last_chunk \<Rightarrow> byte list" where
  "lc_list lc = (if lc_all_same lc then replicate (lc_size lc) (lc_delta_sizes lc ! 0)
     else take (lc_size lc) (lc_delta_sizes lc))"

definition lc_ok :: "last_chunk \<Rightarrow> bool" where
  "lc_ok lc \<longleftrightarrow> length (lc_delta_sizes lc) = 14 \<and>
     (if lc_all_same lc
      then lc_size lc \<le> 0x1fff \<and>
        take (lc_size lc) (lc_delta_sizes lc) = replicate (min (lc_size lc) 14) (lc_delta_sizes lc ! 0)
      else lc_size lc \<le> 14 \<and> (7 < lc_size lc \<longrightarrow> \<not> lc_has_large_delta lc)) \<and>
     (\<not> lc_has_large_delta lc \<longrightarrow> 2 \<notin> set (lc_list lc)) \<and>
     (\<forall>d \<in> set (lc_list lc). d \<le> 3)"

lemma length_lc_list: "lc_ok lc \<Longrightarrow> length (lc_list lc) = lc_size lc"
  unfolding lc_ok_def lc_list_def by (cases "lc_all_same lc") simp_all

lemma lc_list_take: "lc_ok lc \<Longrightarrow> lc_size lc \<le> 14 \<Longrightarrow> lc_list lc = take (lc_size lc) (lc_delta_sizes lc)"
  by (cases "lc_all_same lc") (simp_all add: lc_ok_def lc_list_def min_def)

lemma LastChunk_AppendTo_eq: "lc_ok lc \<Longrightarrow> LastChunk_AppendTo lc ds = Some (ds @ lc_list lc)"
  unfolding lc_ok_def lc_list_def LastChunk_AppendTo_def byte_at_def read_bytes_def
  by (cases "lc_all_same lc") simp_all

lemma fill_sizes_eq: "n \<le> length xs \<Longrightarrow> fill_sizes f n xs = map f [0..<n] @ drop n xs"
proof (induction n)
  case (Suc n)
  then have "drop n xs = xs ! n # drop (Suc n) xs" by (simp add: Cons_nth_drop_Suc)
  then show ?case using Suc by (simp add: fill_sizes_def list_update_append)
qed (simp add: fill_sizes_def)

lemma word_and_3_le: "ucast (c AND 3) \<le> (3 :: byte)" for c :: uint16
proof -
  have "unat (c AND 3) \<le> 3" using word_and_le1 [of c 3] by (simp add: word_le_nat_alt)
  then have "unat (ucast (c AND 3) :: byte) = unat (c AND 3)"
    by (simp add: unsigned_ucast_eq take_bit_nat_eq_self_iff)
  then show ?thesis using \<open>unat (c AND 3) \<le> 3\<close> by (simp add: word_le_nat_alt)
qed

section \<open>Adding\<close>

lemma LastChunk_Clear_ok: "length (lc_delta_sizes lc) = 14 \<Longrightarrow> lc_ok (LastChunk_Clear lc)"
  by (simp add: lc_ok_def lc_list_def LastChunk_Clear_def)

lemma LastChunk_Clear_list [simp]: "lc_list (LastChunk_Clear lc) = []" "lc_size (LastChunk_Clear lc) = 0"
  by (simp_all add: lc_list_def LastChunk_Clear_def)

lemma LastChunk_CanAdd_eq:
  assumes "lc_ok lc" "d \<le> 2"
  shows "LastChunk_CanAdd d lc = Some (lc_size lc < 7 \<or> lc_size lc < 14 \<and> \<not> lc_has_large_delta lc \<and> d \<noteq> 2 \<or>
     lc_size lc < 0x1fff \<and> lc_all_same lc \<and> lc_delta_sizes lc ! 0 = d)"
proof -
  have "byte_at (lc_delta_sizes lc) 0 = Some (lc_delta_sizes lc ! 0)" "\<not> 2 < d"
    using assms by (simp_all add: lc_ok_def byte_at_def)
  then show ?thesis unfolding LastChunk_CanAdd_def by auto
qed

lemma LastChunk_Add_ok:
  assumes ok: "lc_ok lc" and d: "d \<le> 2" and can: "LastChunk_CanAdd d lc = Some True"
  shows "\<exists>lc'. LastChunk_Add d lc = Some lc' \<and> lc_ok lc' \<and> lc_list lc' = lc_list lc @ [d] \<and>
     lc_size lc' = lc_size lc + 1"
proof -
  let ?xs = "lc_delta_sizes lc" and ?n = "lc_size lc"
  define ys where "ys = (if ?n < 14 then ?xs[?n := d] else ?xs)"
  let ?lc = "\<lparr>lc_delta_sizes = ys, lc_size = ?n + 1, lc_all_same = (lc_all_same lc \<and> d = ys ! 0),
      lc_has_large_delta = (lc_has_large_delta lc \<or> d = 2)\<rparr>"
  have len: "length ?xs = 14" "length ys = 14" using ok by (simp_all add: lc_ok_def ys_def)
  have le3: "d \<le> 3" using d by (simp add: word_le_nat_alt)
  have room: "?n < 7 \<or> ?n < 14 \<and> \<not> lc_has_large_delta lc \<and> d \<noteq> 2 \<or> ?n < 0x1fff \<and> lc_all_same lc \<and> ?xs ! 0 = d"
    using can LastChunk_CanAdd_eq [OF ok d] by simp
  have first: "ys ! 0 = (if ?n = 0 then d else ?xs ! 0)" using len by (auto simp: ys_def)
  have app: "take (?n + 1) ys = take ?n ?xs @ [d]" if "?n < 14"
    using that len by (simp add: ys_def take_Suc_conv_app_nth)
  have "lc_list ?lc = lc_list lc @ [d] \<and>
    (if lc_all_same ?lc then lc_size ?lc \<le> 0x1fff \<and> take (lc_size ?lc) ys = replicate (min (lc_size ?lc) 14) (ys ! 0)
      else lc_size ?lc \<le> 14 \<and> (7 < lc_size ?lc \<longrightarrow> \<not> lc_has_large_delta ?lc))"
  proof (cases "lc_all_same lc \<and> d = ys ! 0")
    case True
    then have list: "lc_list lc = replicate ?n d" and tk: "take ?n ?xs = replicate (min ?n 14) d"
      using first ok by (auto simp: lc_list_def lc_ok_def split: if_splits)
    have "take (?n + 1) ys = replicate (min (?n + 1) 14) d"
    proof (cases "?n < 14")
      case True
      then show ?thesis using app tk by (simp add: replicate_append_same min_def)
    next
      case False
      then show ?thesis using tk len by (simp add: ys_def)
    qed
    moreover have "lc_list ?lc = lc_list lc @ [d]"
      unfolding list using True by (simp add: lc_list_def replicate_append_same)
    ultimately show ?thesis using True room by auto
  next
    case False
    then have n: "?n < 14" and large: "7 \<le> ?n \<longrightarrow> \<not> lc_has_large_delta lc \<and> d \<noteq> 2"
      using room first by (auto split: if_splits)
    have "lc_list lc = take ?n ?xs" using lc_list_take [OF ok] n by simp
    moreover have "lc_list ?lc = take (?n + 1) ys" using False by (simp only: lc_list_def) simp
    ultimately show ?thesis using app [OF n] False n large by auto
  qed
  then have list: "lc_list ?lc = lc_list lc @ [d]" and "lc_ok ?lc"
    using ok len le3 by (auto simp: lc_ok_def)
  moreover have "LastChunk_Add d lc = Some ?lc"
    unfolding LastChunk_Add_def ys_def [symmetric] Let_def can using len by (simp add: byte_at_in_range)
  ultimately show ?thesis by (intro exI [of _ ?lc]) simp
qed

section \<open>Packed symbols\<close>

text \<open>Symbols of \<open>w\<close> bits, most significant first, in the low \<open>w * N\<close> bits of a chunk.\<close>

definition pack_symbols :: "nat \<Rightarrow> nat \<Rightarrow> byte list \<Rightarrow> uint16 \<Rightarrow> nat \<Rightarrow> uint16" where
  "pack_symbols w N xs c n = foldl (\<lambda>c i. c OR push_bit (w * (N - 1 - i)) (ucast (xs ! i))) c [0..<n]"

lemma bit_pack_symbols:
  "bit (pack_symbols w N xs c n) k \<longleftrightarrow> bit c k \<or>
     (k < 16 \<and> (\<exists>i < n. w * (N - 1 - i) \<le> k \<and> bit (xs ! i) (k - w * (N - 1 - i))))"
  unfolding pack_symbols_def bit_foldl_or by (auto simp: bit_simps)

lemma bit_pack_symbols_digit:
  assumes "\<forall>i < n. unat (xs ! i) < 2 ^ w" "n \<le> N" "j < n" "t < w" "w * N \<le> 14"
    and c: "\<forall>k. bit c k \<longrightarrow> 14 \<le> k"
  shows "bit (pack_symbols w N xs c n) (w * (N - 1 - j) + t) \<longleftrightarrow> bit (xs ! j) t"
proof -
  let ?k = "w * (N - 1 - j) + t"
  have "N - j = Suc (N - 1 - j)" using assms(2,3) by simp
  then have "w * (N - 1 - j) + w = w * (N - j)" by (metis add.commute mult_Suc_right)
  also have "\<dots> \<le> w * N" by simp
  finally have "w * (N - 1 - j) + w \<le> 14" using assms(5) by simp
  then have small: "?k < 14" using assms(4) by linarith
  have only: "i = j" if i: "i < n" "w * (N - 1 - i) \<le> ?k" "bit (xs ! i) (?k - w * (N - 1 - i))" for i
  proof -
    have lt: "?k - w * (N - 1 - i) < w" using bit_less_exp i assms(1) by blast
    have "w * (N - 1 - i) < w * Suc (N - 1 - j)" using i(2) assms(4) by simp
    then have "N - 1 - i < Suc (N - 1 - j)" by (rule mult_less_cancel1 [THEN iffD1, THEN conjunct2])
    moreover have "w * (N - 1 - j) < w * Suc (N - 1 - i)" using lt i(2) by simp
    then have "N - 1 - j < Suc (N - 1 - i)" by (rule mult_less_cancel1 [THEN iffD1, THEN conjunct2])
    ultimately show ?thesis using i(1) assms(2,3) by linarith
  qed
  have "\<not> bit c ?k" using c small by (meson not_less)
  then show ?thesis unfolding bit_pack_symbols using only assms(3) small by fastforce
qed

lemma pack_symbols_digit:
  assumes "\<forall>i < n. unat (xs ! i) < 2 ^ w" "n \<le> N" "j < n" "w * N \<le> 14" "w \<le> 8"
    and c: "\<forall>k. bit c k \<longrightarrow> 14 \<le> k"
  shows "ucast (drop_bit (w * (N - 1 - j)) (pack_symbols w N xs c n) AND mask w) = xs ! j"
proof (rule bit_word_eqI)
  fix t
  assume "t < LENGTH(8)"
  show "bit (ucast (drop_bit (w * (N - 1 - j)) (pack_symbols w N xs c n) AND mask w) :: byte) t = bit (xs ! j) t"
  proof (cases "t < w")
    case True
    then show ?thesis
      using bit_pack_symbols_digit [OF assms(1-3) True assms(4) c] assms(5) by (auto simp: bit_simps)
  next
    case False
    then have "\<not> bit (xs ! j) t" using bit_less_exp assms(1,3) by blast
    then show ?thesis using False by (simp add: bit_simps)
  qed
qed

lemma pack_symbols_high:
  assumes "\<forall>i < n. unat (xs ! i) < 2 ^ w" "n \<le> N" "w * N \<le> 14" "14 \<le> k"
  shows "bit (pack_symbols w N xs c n) k \<longleftrightarrow> bit c k"
proof -
  have "\<not> bit (xs ! i) (k - w * (N - 1 - i))" if "i < n" for i
  proof
    assume "bit (xs ! i) (k - w * (N - 1 - i))"
    then have "k - w * (N - 1 - i) < w" using bit_less_exp assms(1) that by blast
    then have "k < w * (N - 1 - i) + w" by linarith
    moreover have "N - i = Suc (N - 1 - i)" using that assms(2) by simp
    ultimately have "k < w * (N - i)" by (metis add.commute mult_Suc_right)
    also have "\<dots> \<le> w * N" by simp
    finally show False using assms(3,4) by simp
  qed
  then show ?thesis unfolding bit_pack_symbols by blast
qed

section \<open>Encoding and decoding agree\<close>

lemma chunk_flags: "c AND 0x8000 = 0 \<longleftrightarrow> \<not> bit c 15" "c AND 0x4000 = 0 \<longleftrightarrow> \<not> bit c 14" for c :: uint16
  using bit_iff_and_push_bit_not_eq_0 [of c 15] bit_iff_and_push_bit_not_eq_0 [of c 14] by simp_all

lemma bit_flag_constants:
  "bit (0x8000 :: uint16) k \<longleftrightarrow> k = 15" "bit (0xc000 :: uint16) k \<longleftrightarrow> k = 14 \<or> k = 15"
proof -
  have 8: "(0x8000 :: uint16) = push_bit 15 1" and c: "(0xc000 :: uint16) = push_bit 15 1 OR push_bit 14 1"
    by simp_all
  show "bit (0x8000 :: uint16) k \<longleftrightarrow> k = 15" unfolding 8 by (auto simp: bit_simps simp del: push_bit_of_1)
  show "bit (0xc000 :: uint16) k \<longleftrightarrow> k = 14 \<or> k = 15" unfolding c
    by (auto simp: bit_simps simp del: push_bit_of_1)
qed

lemma nth_take_bound:
  assumes "\<forall>d \<in> set (take n xs). d \<le> m" "n \<le> length xs" "i < n"
  shows "unat (xs ! i) \<le> unat (m :: byte)"
proof -
  have "take n xs ! i \<in> set (take n xs)" using assms(2,3) by (intro nth_mem) simp
  then show ?thesis using assms by (simp add: word_le_nat_alt)
qed

lemma bit_flags_high:
  "\<forall>k. bit (0x8000 :: uint16) k \<longrightarrow> 14 \<le> k" "\<forall>k. bit (0xc000 :: uint16) k \<longrightarrow> 14 \<le> k"
  unfolding bit_flag_constants by simp_all

lemma EncodeOneBit_ok:
  assumes "length (lc_delta_sizes lc) = 14" "lc_size lc \<le> 14" "\<not> lc_has_large_delta lc"
    and "\<forall>d \<in> set (take (lc_size lc) (lc_delta_sizes lc)). d \<le> 1"
  shows "\<exists>c. EncodeOneBit lc = Some c \<and> length (chunk_symbols c) = 14 \<and>
     take (lc_size lc) (chunk_symbols c) = take (lc_size lc) (lc_delta_sizes lc)"
proof -
  let ?xs = "lc_delta_sizes lc" and ?n = "lc_size lc"
  let ?c = "pack_symbols 1 14 ?xs 0x8000 ?n"
  have digit: "\<forall>i < ?n. unat (?xs ! i) < 2 ^ 1"
    using nth_take_bound [OF assms(4)] assms(1,2) by (fastforce simp: less_Suc_eq_le numeral_2_eq_2)
  have "EncodeOneBit lc = Some ?c"
    using assms by (simp add: EncodeOneBit_def for_each_or pack_symbols_def)
  moreover have flags: "\<not> ?c AND 0x8000 = 0" "?c AND 0x4000 = 0"
    unfolding chunk_flags using pack_symbols_high [OF digit assms(2)] by (simp_all add: bit_flag_constants)
  moreover have "ucast (drop_bit (13 - j) ?c AND 0x01) = ?xs ! j" if "j < ?n" for j
    using pack_symbols_digit [OF digit assms(2) that _ _ bit_flags_high(1)] by simp
  then have "take ?n (chunk_symbols ?c) = take ?n ?xs"
    using flags assms(1,2) by (intro nth_equalityI) (simp_all add: chunk_symbols_def)
  ultimately show ?thesis by (intro exI [of _ ?c]) (simp add: chunk_symbols_def)
qed

lemma EncodeTwoBit_ok:
  assumes "length (lc_delta_sizes lc) = 14" "n \<le> lc_size lc" "n \<le> 7"
    and "\<forall>d \<in> set (take n (lc_delta_sizes lc)). d \<le> 3"
  shows "\<exists>c. EncodeTwoBit n lc = Some c \<and> length (chunk_symbols c) = 7 \<and>
     take n (chunk_symbols c) = take n (lc_delta_sizes lc)"
proof -
  let ?xs = "lc_delta_sizes lc"
  let ?c = "pack_symbols 2 7 ?xs 0xc000 n"
  have digit: "\<forall>i < n. unat (?xs ! i) < 2 ^ 2"
  proof (intro allI impI)
    show "unat (?xs ! i) < 2 ^ 2" if "i < n" for i
      using nth_take_bound [OF assms(4) _ that] assms(1,3) by simp
  qed
  have "for_each (\<lambda>i chunk. do { d \<leftarrow> byte_at ?xs i;
          if i < 7 then Some (chunk OR push_bit (2 * (7 - 1 - i)) (ucast d)) else None }) [0..<n] (0xc000 :: uint16) =
      for_each (\<lambda>i chunk. do { d \<leftarrow> byte_at ?xs i; Some (chunk OR push_bit (2 * (7 - 1 - i)) (ucast d)) }) [0..<n] 0xc000"
    using assms(3) by (intro for_each_cong) auto
  then have "EncodeTwoBit n lc = Some ?c"
    using assms by (simp add: EncodeTwoBit_def for_each_or pack_symbols_def)
  moreover have flags: "\<not> ?c AND 0x8000 = 0" "\<not> ?c AND 0x4000 = 0"
    unfolding chunk_flags using pack_symbols_high [OF digit assms(3)] by (simp_all add: bit_flag_constants)
  moreover have "ucast (drop_bit (2 * (6 - j)) ?c AND 0x03) = ?xs ! j" if "j < n" for j
    using pack_symbols_digit [OF digit assms(3) that _ _ bit_flags_high(2)]
    by (simp add: mask_eq_exp_minus_1)
  then have "take n (chunk_symbols ?c) = take n ?xs"
    using flags assms(1,3) by (intro nth_equalityI) (simp_all add: chunk_symbols_def)
  ultimately show ?thesis by (intro exI [of _ ?c]) (simp add: chunk_symbols_def)
qed

lemma EncodeRunLength_ok:
  assumes "length (lc_delta_sizes lc) = 14" "lc_size lc \<le> 0x1fff" "lc_all_same lc"
    and "lc_size lc \<noteq> 0 \<Longrightarrow> lc_delta_sizes lc ! 0 \<le> 3"
  shows "lc_size lc \<noteq> 0 \<Longrightarrow> \<exists>c. EncodeRunLength lc = Some c \<and> chunk_symbols c = lc_list lc"
proof -
  assume ne: "lc_size lc \<noteq> 0"
  let ?d = "lc_delta_sizes lc ! 0"
  define n where "n = (of_nat (lc_size lc) :: uint16)"
  let ?c = "push_bit 13 (ucast ?d) OR n"
  have n: "unat n = lc_size lc" using assms(2) by (simp add: n_def unat_of_nat_small)
  have "unat ?d < 2 ^ 2" using assms(4) [OF ne] by (simp add: word_le_nat_alt)
  note dbits = bit_less_exp [OF this]
  have "unat n < 2 ^ 13" using n assms(2) by simp
  note nbits = bit_less_exp [OF this]
  have "?c AND 0x8000 = 0" unfolding chunk_flags by (auto simp: bit_simps dest: dbits nbits)
  moreover have "?c AND mask 13 = n" by (rule bit_word_eqI) (auto simp: bit_simps dest: nbits)
  moreover have "ucast (drop_bit 13 ?c AND mask 2) = ?d"
    by (rule bit_word_eqI) (auto simp: bit_simps dest: dbits nbits)
  ultimately have "chunk_symbols ?c = replicate (lc_size lc) ?d"
    by (simp add: chunk_symbols_def mask_eq_exp_minus_1 n)
  then show ?thesis
    using assms by (intro exI [of _ ?c]) (simp add: EncodeRunLength_def lc_list_def byte_at_in_range n_def)
qed

section \<open>Emitting\<close>

lemma Emit_shift_loop:
  assumes "length xs = 14" "k \<le> 7"
  shows "for_each Emit_shift [0..<k] \<lparr>lc_delta_sizes = xs, lc_size = n, lc_all_same = True, lc_has_large_delta = False\<rparr> =
     Some \<lparr>lc_delta_sizes = take k (drop 7 xs) @ drop k xs, lc_size = n,
       lc_all_same = (\<forall>d \<in> set (take k (drop 7 xs)). d = xs ! 7),
       lc_has_large_delta = (2 \<in> set (take k (drop 7 xs)))\<rparr>"
  using assms(2)
proof (induction k)
  case (Suc k)
  let ?ys = "take k (drop 7 xs)"
  have ys: "length ?ys = k" "take (Suc k) (drop 7 xs) = ?ys @ [xs ! (7 + k)]"
    using Suc.prems assms(1) by (simp_all add: take_Suc_conv_app_nth)
  have drop: "drop k xs = xs ! k # drop (Suc k) xs" using Suc.prems assms(1) by (simp add: Cons_nth_drop_Suc)
  have get: "byte_at (?ys @ drop k xs) (7 + k) = Some (xs ! (7 + k))"
    using Suc.prems assms(1) ys(1) by (simp add: byte_at_def nth_append add.commute)
  have first: "byte_at (?ys @ xs ! (7 + k) # drop (Suc k) xs) 0 = Some (xs ! 7)"
    using Suc.prems assms(1) by (cases k) (simp_all add: byte_at_def nth_append)
  have set: "(?ys @ drop k xs)[k := xs ! (7 + k)] = ?ys @ xs ! (7 + k) # drop (Suc k) xs"
    using list_update_length [of ?ys "xs ! k" "drop (Suc k) xs"] unfolding ys(1) drop .
  have "Emit_shift k \<lparr>lc_delta_sizes = ?ys @ drop k xs, lc_size = n,
      lc_all_same = (\<forall>d \<in> set ?ys. d = xs ! 7), lc_has_large_delta = (2 \<in> set ?ys)\<rparr> =
    Some \<lparr>lc_delta_sizes = ?ys @ xs ! (7 + k) # drop (Suc k) xs, lc_size = n,
       lc_all_same = ((\<forall>d \<in> set ?ys. d = xs ! 7) \<and> xs ! (7 + k) = xs ! 7),
       lc_has_large_delta = (2 \<in> set ?ys \<or> xs ! (7 + k) = 2)\<rparr>"
    unfolding Emit_shift_def last_chunk.simps get Option.bind.bind_lunit set Let_def first by simp
  then show ?case using Suc unfolding ys(2) by (auto simp: for_each_append)
qed simp

lemma LastChunk_Emit_shifted:
  assumes len: "length xs = 14" and n: "7 \<le> n" "n < 14"
    and le: "\<forall>d \<in> set (take n xs). d \<le> 3"
  shows "\<exists>lc'. for_each Emit_shift [0..<n - 7]
       \<lparr>lc_delta_sizes = xs, lc_size = n - 7, lc_all_same = True, lc_has_large_delta = False\<rparr> = Some lc' \<and>
     lc_ok lc' \<and> lc_list lc' = drop 7 (take n xs) \<and> lc_size lc' < 7"
proof -
  define ys where "ys = take (n - 7) (drop 7 xs)"
  define same where "same \<longleftrightarrow> (\<forall>d \<in> set ys. d = xs ! 7)"
  let ?lc = "\<lparr>lc_delta_sizes = ys @ drop (n - 7) xs, lc_size = n - 7, lc_all_same = same,
      lc_has_large_delta = (2 \<in> set ys)\<rparr>"
  have ys: "length ys = n - 7" "drop 7 (take n xs) = ys" using len n by (simp_all add: drop_take ys_def)
  have rep: "replicate (n - 7) ((ys @ drop (n - 7) xs) ! 0) = ys" if same
  proof -
    have "ys = replicate (n - 7) (xs ! 7)"
      using that ys(1) replicate_length_same [of ys "xs ! 7"] unfolding same_def by metis
    moreover have "(ys @ drop (n - 7) xs) ! 0 = xs ! 7" if "n \<noteq> 7"
      using that len n by (simp add: nth_append ys_def)
    ultimately show ?thesis by (cases "n = 7") simp_all
  qed
  have list: "lc_list \<lparr>lc_delta_sizes = ys @ drop (n - 7) xs, lc_size = n - 7, lc_all_same = same,
      lc_has_large_delta = b\<rparr> = ys" for b
    using rep ys(1) by (cases same) (simp_all add: lc_list_def)
  have small: "n - 7 \<le> 14" "\<not> 7 < n - 7" "n - 7 \<le> 0x1fff" using n by simp_all
  have "set ys \<subseteq> set (take n xs)" using ys(2) by (metis set_drop_subset)
  then have le': "\<forall>d \<in> set ys. d \<le> 3" using le by blast
  have "lc_ok ?lc"
    unfolding lc_ok_def list using rep len ys(1) small le' by (cases same) (simp_all add: min_def)
  moreover have "for_each Emit_shift [0..<n - 7]
      \<lparr>lc_delta_sizes = xs, lc_size = n - 7, lc_all_same = True, lc_has_large_delta = False\<rparr> = Some ?lc"
    using Emit_shift_loop [OF len, of "n - 7" "n - 7", folded ys_def, folded same_def] n by simp
  ultimately show ?thesis using n list ys(2) by (intro exI [of _ ?lc]) simp
qed

lemma LastChunk_Emit_ok:
  assumes ok: "lc_ok lc" and d: "d \<le> 2" and full: "LastChunk_CanAdd d lc = Some False"
    and le: "\<forall>x \<in> set (lc_list lc). x \<le> 2"
  shows "\<exists>c lc'. LastChunk_Emit lc = Some (c, lc') \<and> lc_ok lc' \<and>
     chunk_symbols c @ lc_list lc' = lc_list lc \<and> lc_size lc' < 7"
proof -
  let ?xs = "lc_delta_sizes lc" and ?n = "lc_size lc"
  have len: "length ?xs = 14" using ok by (simp add: lc_ok_def)
  have n: "7 \<le> ?n" using full LastChunk_CanAdd_eq [OF ok d] by auto
  obtain b0 b1 b2 where can: "LastChunk_CanAdd 0 lc = Some b0" "LastChunk_CanAdd 1 lc = Some b1"
    "LastChunk_CanAdd 2 lc = Some b2"
    using LastChunk_CanAdd_eq [OF ok] by simp
  have "unat d \<le> 2" using d by (simp add: word_le_nat_alt)
  then have "unat d = 0 \<or> unat d = 1 \<or> unat d = 2" by linarith
  then have "d = 0 \<or> d = 1 \<or> d = 2" by (simp add: word_unat_eq_iff)
  then have guard: "\<not> (b0 \<and> b1 \<and> b2)" using full can by auto
  note emit = LastChunk_Emit_def [of lc, unfolded can Option.bind.bind_lunit if_not_P [OF guard]]
  have le3: "\<forall>x \<in> set (lc_list lc). x \<le> 3" using ok by (simp add: lc_ok_def)
  have nle: "?n \<le> 14" if "\<not> lc_all_same lc" using ok that by (simp add: lc_ok_def)
  consider (same) "lc_all_same lc" | (one) "\<not> lc_all_same lc" "?n = 14" | (two) "\<not> lc_all_same lc" "?n < 14"
    using nle le_neq_implies_less by blast
  then show ?thesis
  proof cases
    case same
    then have "?xs ! 0 \<in> set (lc_list lc)" using n by (simp add: lc_list_def)
    then have first: "?xs ! 0 \<le> 3" using le3 by blast
    have "?n \<le> 0x1fff" using ok same by (simp add: lc_ok_def)
    from EncodeRunLength_ok [OF len this same first] n
    obtain c where "EncodeRunLength lc = Some c" "chunk_symbols c = lc_list lc" by auto
    then show ?thesis
      using same LastChunk_Clear_ok [OF len] by (intro exI [of _ c] exI [of _ "LastChunk_Clear lc"]) (simp add: emit)
  next
    case one
    have nl: "\<not> lc_has_large_delta lc" "2 \<notin> set (lc_list lc)" using ok one by (simp_all add: lc_ok_def)
    have "x \<le> 1" if "x \<in> set (lc_list lc)" for x
    proof -
      have "x \<noteq> 2" using nl(2) that by blast
      then have "unat x \<noteq> 2" by (simp add: word_unat_eq_iff)
      moreover have "unat x \<le> 2" using le that by (simp add: word_le_nat_alt)
      ultimately show ?thesis by (simp add: word_le_nat_alt)
    qed
    moreover have list: "lc_list lc = take 14 ?xs" using one by (simp add: lc_list_def)
    ultimately have "\<forall>d \<in> set (take ?n ?xs). d \<le> 1" using one(2) by simp
    from EncodeOneBit_ok [OF len _ nl(1) this] one(2) obtain c where
      c: "EncodeOneBit lc = Some c" "chunk_symbols c = lc_list lc"
      unfolding list by auto
    then show ?thesis
      using one LastChunk_Clear_ok [OF len]
      by (intro exI [of _ c] exI [of _ "LastChunk_Clear lc"]) (simp add: emit)
  next
    case two
    have list: "lc_list lc = take ?n ?xs" using two by (simp add: lc_list_def)
    have "set (take 7 ?xs) \<subseteq> set (lc_list lc)" unfolding list using n by (rule set_take_subset_set_take)
    then have "\<forall>d \<in> set (take 7 ?xs). d \<le> 3" using le3 by blast
    from EncodeTwoBit_ok [OF len n _ this] obtain c where
      c: "EncodeTwoBit 7 lc = Some c" "chunk_symbols c = take 7 ?xs" by auto
    have eq: "lc\<lparr>lc_size := ?n - 7, lc_all_same := True, lc_has_large_delta := False\<rparr> =
        \<lparr>lc_delta_sizes = ?xs, lc_size = ?n - 7, lc_all_same = True, lc_has_large_delta = False\<rparr>" by simp
    obtain lc' where lc': "for_each Emit_shift [0..<?n - 7]
        (lc\<lparr>lc_size := ?n - 7, lc_all_same := True, lc_has_large_delta := False\<rparr>) = Some lc'"
      "lc_ok lc'" "lc_list lc' = drop 7 (take ?n ?xs)" "lc_size lc' < 7"
      using LastChunk_Emit_shifted [OF len n two(2) le3 [unfolded list]] unfolding eq by blast
    have "chunk_symbols c @ lc_list lc' = lc_list lc"
      unfolding list c(2) lc'(3) using n append_take_drop_id [of 7 "take ?n ?xs"] by (simp add: min_def)
    then show ?thesis
      using two n c(1) lc' by (intro exI [of _ c] exI [of _ lc']) (simp add: emit)
  qed
qed

lemma EncodeLast_ok:
  assumes ok: "lc_ok lc" and ne: "lc_size lc \<noteq> 0" and le: "\<forall>x \<in> set (lc_list lc). x \<le> 2"
  shows "\<exists>c. EncodeLast lc = Some c \<and> take (lc_size lc) (chunk_symbols c) = lc_list lc \<and>
     lc_size lc \<le> length (chunk_symbols c)"
proof -
  let ?xs = "lc_delta_sizes lc" and ?n = "lc_size lc"
  have len: "length ?xs = 14" and le3: "\<forall>x \<in> set (lc_list lc). x \<le> 3" using ok by (simp_all add: lc_ok_def)
  have nle: "?n \<le> 14" if "\<not> lc_all_same lc" using ok that by (simp add: lc_ok_def)
  consider (same) "lc_all_same lc" | (two) "\<not> lc_all_same lc" "?n \<le> 7" | (one) "\<not> lc_all_same lc" "7 < ?n"
    by linarith
  then show ?thesis
  proof cases
    case same
    then have "?xs ! 0 \<in> set (lc_list lc)" using ne by (simp add: lc_list_def)
    then have first: "?xs ! 0 \<le> 3" using le3 by blast
    have "?n \<le> 0x1fff" using ok same by (simp add: lc_ok_def)
    from EncodeRunLength_ok [OF len this same first ne]
    show ?thesis using same ne length_lc_list [OF ok] by (auto simp: EncodeLast_def)
  next
    case two
    then have list: "lc_list lc = take ?n ?xs" by (simp add: lc_list_def)
    from EncodeTwoBit_ok [OF len order_refl two(2) le3 [unfolded list]]
    show ?thesis using two ne list by (auto simp: EncodeLast_def)
  next
    case one
    have nl: "\<not> lc_has_large_delta lc" "2 \<notin> set (lc_list lc)" using ok one by (simp_all add: lc_ok_def)
    have list: "lc_list lc = take ?n ?xs" using one by (simp add: lc_list_def)
    have "\<forall>x \<in> set (take ?n ?xs). x \<le> 1"
    proof
      fix x
      assume x: "x \<in> set (take ?n ?xs)"
      then have "x \<noteq> 2" using nl(2) list by metis
      then have "unat x \<noteq> 2" by (simp add: word_unat_eq_iff)
      moreover have "unat x \<le> 2" using le x list by (simp add: word_le_nat_alt)
      ultimately show "x \<le> 1" by (simp add: word_le_nat_alt)
    qed
    from EncodeOneBit_ok [OF len nle [OF one(1)] nl(1) this]
    show ?thesis using one ne list nle by (auto simp: EncodeLast_def)
  qed
qed

section \<open>Decoding\<close>

lemma take_fill_sizes:
  "n \<le> length xs \<Longrightarrow> take n (fill_sizes f n xs) = map f [0..<n]" "length (fill_sizes f n xs) = length xs"
proof -
  show "take n (fill_sizes f n xs) = map f [0..<n]" if "n \<le> length xs" using that by (simp add: fill_sizes_eq)
  show "length (fill_sizes f n xs) = length xs" by (induction n) (simp_all add: fill_sizes_def)
qed

lemma take_map_upt: "take m (map f [0..<n]) = map f [0..<min n m]"
  by (simp add: take_map min_def)

lemma DecodeRunLength_ok:
  assumes "length (lc_delta_sizes lc) = 14" "c AND 0x8000 = 0"
  shows "lc_ok (DecodeRunLength c m lc) \<and> lc_list (DecodeRunLength c m lc) = take m (chunk_symbols c)"
proof -
  define d :: byte where "d = ucast (drop_bit 13 c AND 0x03)"
  define n where "n = min (unat (c AND 0x1fff)) m"
  define xs where "xs = fill_sizes (\<lambda>_. d) (min n 14) (lc_delta_sizes lc)"
  have dec: "DecodeRunLength c m lc = \<lparr>lc_delta_sizes = xs, lc_size = n, lc_all_same = True,
      lc_has_large_delta = (d \<ge> 2)\<rparr>"
    by (simp add: DecodeRunLength_def Let_def d_def n_def xs_def)
  have xs: "length xs = 14" "take (min n 14) xs = replicate (min n 14) d"
    using take_fill_sizes(1) [of "min n 14" "lc_delta_sizes lc" "\<lambda>_. d"] assms(1)
    by (simp_all add: xs_def map_replicate_const take_fill_sizes(2))
  have first: "replicate n (xs ! 0) = replicate n d"
  proof (cases n)
    case (Suc k)
    then have "take (min n 14) xs ! 0 = d" using xs(2) by simp
    then show ?thesis using Suc by simp
  qed simp
  have list: "lc_list \<lparr>lc_delta_sizes = xs, lc_size = n, lc_all_same = True, lc_has_large_delta = b\<rparr> = replicate n d" for b
    by (simp add: lc_list_def first)
  have "c AND 0x1fff \<le> 0x1fff" by (rule word_and_le1)
  then have "unat (c AND 0x1fff) \<le> 0x1fff" by (simp add: word_le_nat_alt)
  then have n: "n \<le> 0x1fff" by (simp add: n_def)
  have "take n xs = replicate (min n 14) (xs ! 0)"
  proof (cases n)
    case (Suc k)
    have "take n xs = take (min n 14) xs" using xs(1) by (simp add: min_def)
    moreover have "xs ! 0 = d" using first Suc by simp
    ultimately show ?thesis using xs(2) by simp
  qed simp
  moreover have "d \<le> 3" unfolding d_def by (rule word_and_3_le)
  ultimately have "lc_ok (DecodeRunLength c m lc)"
    unfolding dec lc_ok_def list using xs(1) n by (auto simp: not_le)
  moreover have "replicate n d = take m (chunk_symbols c)"
    using assms(2) by (simp add: chunk_symbols_def n_def d_def min.commute)
  ultimately show ?thesis unfolding dec list by simp
qed

lemma LastChunk_Decode_ok:
  assumes len: "length (lc_delta_sizes lc) = 14"
  shows "lc_ok (LastChunk_Decode c m lc) \<and> lc_list (LastChunk_Decode c m lc) = take m (chunk_symbols c)"
proof -
  consider (run) "c AND 0x8000 = 0" | (one) "c AND 0x8000 \<noteq> 0" "c AND 0x4000 = 0"
    | (two) "c AND 0x8000 \<noteq> 0" "c AND 0x4000 \<noteq> 0" by blast
  then show ?thesis
  proof cases
    case run
    then show ?thesis using DecodeRunLength_ok [OF len run] by (simp add: LastChunk_Decode_def)
  next
    case one
    let ?f = "\<lambda>i. ucast (drop_bit (13 - i) c AND 0x01) :: byte"
    have "ucast (w AND 1) \<noteq> (2 :: byte) \<and> ucast (w AND 1) \<le> (3 :: byte)" for w :: uint16
      by (cases "even w") (simp_all add: and_one_eq even_iff_mod_2_eq_zero odd_iff_mod_2_eq_one)
    then have "2 \<notin> set (map ?f [0..<min 14 m])" "\<forall>d \<in> set (map ?f [0..<min 14 m]). d \<le> 3" by auto
    moreover have "lc_list (DecodeOneBit c m lc) = map ?f [0..<min 14 m]"
      using take_fill_sizes(1) [of "min 14 m" "lc_delta_sizes lc" ?f] len
      by (simp add: lc_list_def DecodeOneBit_def Let_def)
    moreover have "lc_size (DecodeOneBit c m lc) \<le> 14" "\<not> lc_all_same (DecodeOneBit c m lc)"
      "\<not> lc_has_large_delta (DecodeOneBit c m lc)" "length (lc_delta_sizes (DecodeOneBit c m lc)) = 14"
      using len by (simp_all add: DecodeOneBit_def Let_def take_fill_sizes(2))
    ultimately show ?thesis
      using one by (simp add: LastChunk_Decode_def lc_ok_def chunk_symbols_def take_map_upt)
  next
    case two
    let ?f = "\<lambda>i. ucast (drop_bit (2 * (6 - i)) c AND 0x03) :: byte"
    have "\<forall>d \<in> set (map ?f [0..<min 7 m]). d \<le> 3" by (auto simp: word_and_3_le)
    moreover have "lc_list (DecodeTwoBit c m lc) = map ?f [0..<min 7 m]"
      using take_fill_sizes(1) [of "min 7 m" "lc_delta_sizes lc" ?f] len
      by (simp add: lc_list_def DecodeTwoBit_def Let_def)
    moreover have "lc_size (DecodeTwoBit c m lc) \<le> 7" "\<not> lc_all_same (DecodeTwoBit c m lc)"
      "lc_has_large_delta (DecodeTwoBit c m lc)" "length (lc_delta_sizes (DecodeTwoBit c m lc)) = 14"
      using len by (simp_all add: DecodeTwoBit_def Let_def take_fill_sizes(2))
    ultimately show ?thesis
      using two by (simp add: LastChunk_Decode_def lc_ok_def chunk_symbols_def take_map_upt)
  qed
qed

section \<open>The contract of the encoder\<close>

text \<open>
  What \<open>TransportFeedback\<close> relies on: the encoder holds a list of symbols, and adding a symbol,
  after emitting a chunk when it does not fit, loses nothing.
\<close>

locale symbol_encoder =
  fixes invar :: "'e \<Rightarrow> bool" and symbols :: "'e \<Rightarrow> 's list" and valid :: "'s \<Rightarrow> bool"
    and count :: "'e \<Rightarrow> nat" and meaning :: "'c \<Rightarrow> 's list"
    and can_add :: "'s \<Rightarrow> 'e \<Rightarrow> bool option" and add :: "'s \<Rightarrow> 'e \<Rightarrow> 'e option"
    and emit_chunk :: "'e \<Rightarrow> ('c \<times> 'e) option" and encode_last :: "'e \<Rightarrow> 'c option"
  assumes count_symbols: "invar e \<Longrightarrow> length (symbols e) = count e"
    and can_add_total: "invar e \<Longrightarrow> valid s \<Longrightarrow> can_add s e \<noteq> None"
    and add_ok: "invar e \<Longrightarrow> valid s \<Longrightarrow> can_add s e = Some True \<Longrightarrow>
      \<exists>e'. add s e = Some e' \<and> invar e' \<and> symbols e' = symbols e @ [s]"
    and emit_ok: "invar e \<Longrightarrow> valid s \<Longrightarrow> list_all valid (symbols e) \<Longrightarrow> can_add s e = Some False \<Longrightarrow>
      \<exists>c e'. emit_chunk e = Some (c, e') \<and> invar e' \<and> meaning c @ symbols e' = symbols e \<and>
        can_add s e' = Some True"
    and encode_last_ok: "invar e \<Longrightarrow> symbols e \<noteq> [] \<Longrightarrow> list_all valid (symbols e) \<Longrightarrow>
      \<exists>c. encode_last e = Some c \<and> take (count e) (meaning c) = symbols e \<and> count e \<le> length (meaning c)"
begin

lemma emit_then_add:
  assumes "invar e" "valid s" "list_all valid (symbols e)" "can_add s e = Some False"
  shows "\<exists>c e1 e2. emit_chunk e = Some (c, e1) \<and> add s e1 = Some e2 \<and> invar e2 \<and>
     meaning c @ symbols e2 = symbols e @ [s]"
proof -
  obtain c e1 where "emit_chunk e = Some (c, e1)" "invar e1" "meaning c @ symbols e1 = symbols e"
    "can_add s e1 = Some True"
    using emit_ok [OF assms] by blast
  moreover obtain e2 where "add s e1 = Some e2" "invar e2" "symbols e2 = symbols e1 @ [s]"
    using add_ok [OF calculation(2) assms(2) calculation(4)] by blast
  ultimately show ?thesis by (metis append_assoc)
qed

lemma symbols_empty_iff: "invar e \<Longrightarrow> symbols e = [] \<longleftrightarrow> count e = 0"
  using count_symbols [of e] by auto

end

interpretation last_chunk: symbol_encoder lc_ok lc_list "\<lambda>d. d \<le> 2" lc_size chunk_symbols
  LastChunk_CanAdd LastChunk_Add LastChunk_Emit EncodeLast
proof unfold_locales
  fix e :: last_chunk and s :: byte
  assume ok: "lc_ok e"
  show "length (lc_list e) = lc_size e" using ok by (rule length_lc_list)
  show "\<exists>c. EncodeLast e = Some c \<and> take (lc_size e) (chunk_symbols c) = lc_list e \<and>
      lc_size e \<le> length (chunk_symbols c)" if "lc_list e \<noteq> []" "list_all (\<lambda>d. d \<le> 2) (lc_list e)"
  proof (rule EncodeLast_ok [OF ok])
    show "lc_size e \<noteq> 0" using length_lc_list [OF ok] that(1) by (metis length_0_conv)
    show "\<forall>x \<in> set (lc_list e). x \<le> 2" using that(2) by (simp add: list_all_iff)
  qed
  assume s: "s \<le> 2"
  show "LastChunk_CanAdd s e \<noteq> None" using LastChunk_CanAdd_eq [OF ok s] by simp
  show "\<exists>e'. LastChunk_Add s e = Some e' \<and> lc_ok e' \<and> lc_list e' = lc_list e @ [s]"
    if "LastChunk_CanAdd s e = Some True"
    using LastChunk_Add_ok [OF ok s that] by blast
  show "\<exists>c e'. LastChunk_Emit e = Some (c, e') \<and> lc_ok e' \<and> chunk_symbols c @ lc_list e' = lc_list e \<and>
      LastChunk_CanAdd s e' = Some True"
    if "list_all (\<lambda>d. d \<le> 2) (lc_list e)" "LastChunk_CanAdd s e = Some False"
    using LastChunk_Emit_ok [OF ok s that(2)] LastChunk_CanAdd_eq [OF _ s] that(1)
    by (fastforce simp: list_all_iff)
qed

end
