(* ===== verification/TransportFeedback.thy ===== *)
theory TransportFeedback
  imports TransportChunk SeqNum "HOL-Library.Signed_Division"
begin

text \<open>
  Transport-wide congestion control feedback, \<open>rtcp_packet/transport_feedback.cc\<close>: a builder that
  records arrival times as deltas of 250 microseconds, its consistency check, its parser and its
  serialiser. Debug checks, signed 64 bit overflow and reads outside the payload are faults.
\<close>

section \<open>State\<close>

record received_packet =
  rp_sequence_number :: uint16
  rp_delta_ticks :: int

record transport_feedback = common_feedback +
  tf_base_seq_no :: uint16
  tf_num_seq_no :: uint16
  tf_base_time_ticks :: int
  tf_feedback_seq :: byte
  tf_last_timestamp_us :: int
  tf_packets :: "received_packet list"
  tf_encoded_chunks :: "uint16 list"
  tf_last_chunk :: last_chunk
  tf_size_bytes :: nat

abbreviation (input) kTransportFeedbackHeaderSizeBytes :: nat where
  "kTransportFeedbackHeaderSizeBytes \<equiv> 20"
abbreviation (input) kChunkSizeBytes :: nat where "kChunkSizeBytes \<equiv> 2"
abbreviation (input) kMaxSizeBytes :: nat where "kMaxSizeBytes \<equiv> 262144"
abbreviation (input) kMinPayloadSizeBytes :: nat where "kMinPayloadSizeBytes \<equiv> 18"
abbreviation (input) kDeltaScaleFactor :: int where "kDeltaScaleFactor \<equiv> 250"
abbreviation (input) kBaseScaleFactor :: int where "kBaseScaleFactor \<equiv> 64000"
abbreviation (input) kTimeWrapPeriodUs :: int where "kTimeWrapPeriodUs \<equiv> 1073741824000"
abbreviation (input) kMaxReportedPackets :: nat where "kMaxReportedPackets \<equiv> 0xffff"

text \<open>Conversions to narrower and unsigned types wrap.\<close>

definition to_int16 :: "int \<Rightarrow> int" where
  "to_int16 x = sint (word_of_int x :: uint16)"

definition to_int32 :: "int \<Rightarrow> int" where
  "to_int32 x = sint (word_of_int x :: uint32)"

definition delta_us :: "received_packet \<Rightarrow> int" where
  "delta_us p = rp_delta_ticks p * kDeltaScaleFactor"

text \<open>\<open>kBaseScaleFactor\<close> is a \<open>size_t\<close>, so the product is computed unsigned and converted back.\<close>

definition GetBaseTimeUs :: "transport_feedback \<Rightarrow> int" where
  "GetBaseTimeUs s = sint (word_of_int (tf_base_time_ticks s) * word_of_int kBaseScaleFactor :: uint64)"

definition TransportFeedback_new :: "byte list \<Rightarrow> transport_feedback" where
  "TransportFeedback_new mem = \<lparr>fb_sender_ssrc = 0, fb_media_ssrc = 0, tf_base_seq_no = 0,
     tf_num_seq_no = 0, tf_base_time_ticks = 0, tf_feedback_seq = 0, tf_last_timestamp_us = 0,
     tf_packets = [], tf_encoded_chunks = [], tf_last_chunk = LastChunk_new mem,
     tf_size_bytes = kTransportFeedbackHeaderSizeBytes\<rparr>"

definition TransportFeedback_SetBase ::
  "uint16 \<Rightarrow> int \<Rightarrow> transport_feedback \<Rightarrow> transport_feedback option" where
  "TransportFeedback_SetBase base_sequence ref_timestamp_us s =
     (if tf_num_seq_no s \<noteq> 0 \<or> ref_timestamp_us < 0 then None
      else
        let ticks = to_int32 (uint (word_of_int (ref_timestamp_us smod kTimeWrapPeriodUs) div
                      word_of_int kBaseScaleFactor :: uint64));
            s = s\<lparr>tf_base_seq_no := base_sequence, tf_base_time_ticks := ticks\<rparr>
        in Some (s\<lparr>tf_last_timestamp_us := GetBaseTimeUs s\<rparr>))"

definition TransportFeedback_SetFeedbackSequenceNumber ::
  "byte \<Rightarrow> transport_feedback \<Rightarrow> transport_feedback" where
  "TransportFeedback_SetFeedbackSequenceNumber feedback_sequence s =
     s\<lparr>tf_feedback_seq := feedback_sequence\<rparr>"

section \<open>Adding packets\<close>

definition AddDeltaSize :: "byte \<Rightarrow> transport_feedback \<Rightarrow> (bool \<times> transport_feedback) option" where
  "AddDeltaSize delta_size s =
     (if unat (tf_num_seq_no s) = kMaxReportedPackets then Some (False, s)
      else
        let add_chunk_size = (if LastChunk_Empty (tf_last_chunk s) then kChunkSizeBytes else 0) in
        if tf_size_bytes s + unat delta_size + add_chunk_size > kMaxSizeBytes then Some (False, s)
        else do {
          can_add \<leftarrow> LastChunk_CanAdd delta_size (tf_last_chunk s);
          if can_add then do {
            lc \<leftarrow> LastChunk_Add delta_size (tf_last_chunk s);
            Some (True, s\<lparr>tf_size_bytes := tf_size_bytes s + add_chunk_size, tf_last_chunk := lc,
              tf_num_seq_no := tf_num_seq_no s + 1\<rparr>) }
          else if tf_size_bytes s + unat delta_size + kChunkSizeBytes > kMaxSizeBytes then Some (False, s)
          else do {
            (chunk, lc) \<leftarrow> LastChunk_Emit (tf_last_chunk s);
            lc \<leftarrow> LastChunk_Add delta_size lc;
            Some (True, s\<lparr>tf_encoded_chunks := tf_encoded_chunks s @ [chunk],
              tf_size_bytes := tf_size_bytes s + kChunkSizeBytes, tf_last_chunk := lc,
              tf_num_seq_no := tf_num_seq_no s + 1\<rparr>) } })"

text \<open>\<open>for (; next_seq_no != sequence_number; ++next_seq_no) if (!AddDeltaSize(0)) return false;\<close>\<close>

function AddMissing ::
  "uint16 \<Rightarrow> uint16 \<Rightarrow> transport_feedback \<Rightarrow> (bool \<times> transport_feedback) option" where
  "AddMissing next_seq_no sequence_number s =
     (if next_seq_no \<noteq> sequence_number then do {
        (ok, s) \<leftarrow> AddDeltaSize 0 s;
        if \<not> ok then Some (False, s) else AddMissing (next_seq_no + 1) sequence_number s }
      else Some (True, s))"
  by pat_completeness auto
termination
proof (relation "measure (\<lambda>(next, seq, _). unat (seq - next))", simp)
  fix next_seq_no sequence_number :: uint16 and s s' s'' :: transport_feedback and r ok
  assume ne: "next_seq_no \<noteq> sequence_number"
  then have "unat (sequence_number - next_seq_no - 1) < unat (sequence_number - next_seq_no)"
    by (intro measure_unat) simp
  then show "((next_seq_no + 1, sequence_number, s''), next_seq_no, sequence_number, s)
      \<in> measure (\<lambda>(next, seq, _). unat (seq - next))"
    by (simp add: diff_diff_eq)
qed

declare AddMissing.simps [simp del]

definition AddReceivedPacket ::
  "uint16 \<Rightarrow> int \<Rightarrow> transport_feedback \<Rightarrow> (bool \<times> transport_feedback) option" where
  "AddReceivedPacket sequence_number timestamp_us s = do {
     diff \<leftarrow> int64 (timestamp_us - tf_last_timestamp_us s);
     let delta_full = diff smod kTimeWrapPeriodUs;
     let delta_full = (if delta_full > kTimeWrapPeriodUs sdiv 2 then delta_full - kTimeWrapPeriodUs else delta_full);
     let delta_full = delta_full +
       (if delta_full < 0 then - (kDeltaScaleFactor sdiv 2) else kDeltaScaleFactor sdiv 2);
     let delta_full = delta_full sdiv kDeltaScaleFactor;
     let delta = to_int16 delta_full;
     if delta \<noteq> delta_full then Some (False, s)
     else do {
       let next_seq_no = tf_base_seq_no s + tf_num_seq_no s;
       (ok, s) \<leftarrow>
         (if sequence_number \<noteq> next_seq_no then
            (if \<not> IsNewerSequenceNumber sequence_number (next_seq_no - 1) then Some (False, s)
             else AddMissing next_seq_no sequence_number s)
          else Some (True, s));
       if \<not> ok then Some (False, s)
       else do {
         let delta_size = (if 0 \<le> delta \<and> delta \<le> 0xff then 1 else 2 :: byte);
         (ok, s) \<leftarrow> AddDeltaSize delta_size s;
         if \<not> ok then Some (False, s)
         else do {
           last_timestamp \<leftarrow> int64 (tf_last_timestamp_us s + delta * kDeltaScaleFactor);
           Some (True, s\<lparr>tf_packets := tf_packets s @
               [\<lparr>rp_sequence_number = sequence_number, rp_delta_ticks = delta\<rparr>],
             tf_last_timestamp_us := last_timestamp,
             tf_size_bytes := tf_size_bytes s + unat delta_size\<rparr>) } } } }"

section \<open>Queries\<close>

datatype status_symbol = kNotReceived | kReceivedSmallDelta | kReceivedLargeDelta

function StatusGap :: "uint16 \<Rightarrow> uint16 \<Rightarrow> status_symbol list" where
  "StatusGap seq_no sequence_number =
     (if seq_no \<noteq> sequence_number then kNotReceived # StatusGap (seq_no + 1) sequence_number else [])"
  by pat_completeness auto
termination
proof (relation "measure (\<lambda>(next, seq). unat (seq - next))", simp)
  fix seq_no sequence_number :: uint16
  assume "seq_no \<noteq> sequence_number"
  then have "unat (sequence_number - seq_no - 1) < unat (sequence_number - seq_no)"
    by (intro measure_unat) simp
  then show "((seq_no + 1, sequence_number), seq_no, sequence_number)
      \<in> measure (\<lambda>(next, seq). unat (seq - next))"
    by (simp add: diff_diff_eq)
qed

declare StatusGap.simps [simp del]

fun StatusVector_from :: "uint16 \<Rightarrow> received_packet list \<Rightarrow> status_symbol list" where
  "StatusVector_from seq_no [] = []"
| "StatusVector_from seq_no (p # ps) =
     StatusGap seq_no (rp_sequence_number p) @
     (if 0 \<le> rp_delta_ticks p \<and> rp_delta_ticks p \<le> 0xff then kReceivedSmallDelta else kReceivedLargeDelta) #
     StatusVector_from (rp_sequence_number p + 1) ps"

definition GetStatusVector :: "transport_feedback \<Rightarrow> status_symbol list" where
  "GetStatusVector s = StatusVector_from (tf_base_seq_no s) (tf_packets s)"

definition GetReceiveDeltas :: "transport_feedback \<Rightarrow> int list" where
  "GetReceiveDeltas s = map rp_delta_ticks (tf_packets s)"

definition GetReceiveDeltasUs :: "transport_feedback \<Rightarrow> int list" where
  "GetReceiveDeltasUs s = map delta_us (tf_packets s)"

section \<open>Parsing\<close>

definition TransportFeedback_Clear :: "transport_feedback \<Rightarrow> transport_feedback" where
  "TransportFeedback_Clear s = s\<lparr>tf_num_seq_no := 0, tf_last_timestamp_us := GetBaseTimeUs s,
     tf_packets := [], tf_encoded_chunks := [], tf_last_chunk := LastChunk_Clear (tf_last_chunk s),
     tf_size_bytes := kTransportFeedbackHeaderSizeBytes\<rparr>"

text \<open>The chunk loop: the result is a success flag, the read position and the delta sizes.\<close>

function ParseChunks ::
  "nat \<Rightarrow> byte list \<Rightarrow> nat \<Rightarrow> nat \<Rightarrow> byte list \<Rightarrow> transport_feedback \<Rightarrow>
   (bool \<times> nat \<times> byte list \<times> transport_feedback) option" where
  "ParseChunks status_count pl end_index idx delta_sizes s =
     (if length delta_sizes < status_count then
        if idx + kChunkSizeBytes > end_index
        then Some (False, idx, delta_sizes, TransportFeedback_Clear s)
        else do {
          chunk \<leftarrow> ReadBigEndian 2 (drop idx pl);
          let lc = LastChunk_Decode chunk (status_count - length delta_sizes) (tf_last_chunk s);
          delta_sizes \<leftarrow> LastChunk_AppendTo lc delta_sizes;
          ParseChunks status_count pl end_index (idx + kChunkSizeBytes) delta_sizes
            (s\<lparr>tf_encoded_chunks := tf_encoded_chunks s @ [chunk], tf_last_chunk := lc\<rparr>) }
      else Some (True, idx, delta_sizes, s))"
  by pat_completeness auto
termination
  by (relation "measure (\<lambda>(_, _, end_index, idx, _). end_index - idx)") auto

declare ParseChunks.simps [simp del]

definition ParseDelta :: "uint16 \<Rightarrow> int \<Rightarrow> transport_feedback \<Rightarrow> transport_feedback option" where
  "ParseDelta seq_no delta s = do {
     last_timestamp \<leftarrow> int64 (tf_last_timestamp_us s + delta * kDeltaScaleFactor);
     Some (s\<lparr>tf_packets := tf_packets s @ [\<lparr>rp_sequence_number = seq_no, rp_delta_ticks = delta\<rparr>],
       tf_last_timestamp_us := last_timestamp\<rparr>) }"

text \<open>The loop over the delta sizes; a size above three would reach \<open>RTC_NOTREACHED\<close>.\<close>

fun ParseDeltas ::
  "byte list \<Rightarrow> nat \<Rightarrow> byte list \<Rightarrow> nat \<Rightarrow> uint16 \<Rightarrow> transport_feedback \<Rightarrow>
   (bool \<times> nat \<times> transport_feedback) option" where
  "ParseDeltas pl end_index [] idx seq_no s = Some (True, idx, s)"
| "ParseDeltas pl end_index (delta_size # ds) idx seq_no s =
     (if idx + unat delta_size > end_index then Some (False, idx, TransportFeedback_Clear s)
      else if delta_size = 0 then ParseDeltas pl end_index ds idx (seq_no + 1) s
      else if delta_size = 1 then do {
        delta \<leftarrow> map_option uint (byte_at pl idx);
        s \<leftarrow> ParseDelta seq_no delta s;
        ParseDeltas pl end_index ds (idx + 1) (seq_no + 1) s }
      else if delta_size = 2 then do {
        delta \<leftarrow> ReadBigEndianSigned TYPE(16) 2 (drop idx pl);
        s \<leftarrow> ParseDelta seq_no delta s;
        ParseDeltas pl end_index ds (idx + 2) (seq_no + 1) s }
      else if delta_size = 3 then Some (False, idx, TransportFeedback_Clear s)
      else None)"

text \<open>The part of \<open>Parse\<close> after the fixed fields: the chunks, then the deltas.\<close>

definition ParseStatus ::
  "nat \<Rightarrow> byte list \<Rightarrow> nat \<Rightarrow> transport_feedback \<Rightarrow> (bool \<times> transport_feedback) option" where
  "ParseStatus status_count pl end_index s = do {
     (ok, idx, delta_sizes, s) \<leftarrow> ParseChunks status_count pl end_index 16 [] s;
     if \<not> ok then Some (False, s)
     else if tf_encoded_chunks s = [] \<or> length delta_sizes \<noteq> status_count then None
     else do {
       let s = s\<lparr>tf_encoded_chunks := butlast (tf_encoded_chunks s), tf_num_seq_no := of_nat status_count\<rparr>;
       (ok, idx, s) \<leftarrow> ParseDeltas pl end_index delta_sizes idx (tf_base_seq_no s) s;
       if \<not> ok then Some (False, s)
       else if idx > end_index then None
       else Some (True, s\<lparr>tf_size_bytes := kHeaderLength + idx\<rparr>) } }"

definition TransportFeedback_Parse ::
  "common_header \<Rightarrow> transport_feedback \<Rightarrow> (bool \<times> transport_feedback) option" where
  "TransportFeedback_Parse packet s =
     (if ch_packet_type packet \<noteq> 205 \<or> ch_count_or_format packet \<noteq> 15 then None
      else if ch_payload_size packet < kMinPayloadSizeBytes then Some (False, s)
      else do {
        let pl = payload packet;
        (sender_ssrc, media_ssrc) \<leftarrow> Rtpfb_ParseCommonFeedback pl;
        base_seq_no \<leftarrow> ReadBigEndian 2 (drop 8 pl);
        status_count \<leftarrow> map_option unat (ReadBigEndian 2 (drop 10 pl) :: uint16 option);
        base_time_ticks \<leftarrow> ReadBigEndianSigned TYPE(32) 3 (drop 12 pl);
        feedback_seq \<leftarrow> byte_at pl 15;
        let s = TransportFeedback_Clear (s\<lparr>fb_sender_ssrc := sender_ssrc, fb_media_ssrc := media_ssrc,
          tf_base_seq_no := base_seq_no, tf_base_time_ticks := base_time_ticks,
          tf_feedback_seq := feedback_seq\<rparr>);
        if status_count = 0 then Some (False, s)
        else ParseStatus status_count pl (ch_payload_size packet) s })"

definition TransportFeedback_ParseFrom ::
  "byte list \<Rightarrow> byte list \<Rightarrow> transport_feedback option option" where
  "TransportFeedback_ParseFrom mem buf = do {
     r \<leftarrow> CommonHeader_Parse buf;
     (case r of
        Inl _ \<Rightarrow> Some None
      | Inr header \<Rightarrow>
          if ch_packet_type header \<noteq> 205 \<or> ch_count_or_format header \<noteq> 15 then Some None
          else do {
            (ok, parsed) \<leftarrow> TransportFeedback_Parse header (TransportFeedback_new mem);
            Some (if ok then Some parsed else None) }) }"

section \<open>Consistency\<close>

definition DecodeAll :: "byte list \<Rightarrow> uint16 list \<Rightarrow> (last_chunk \<times> byte list) option" where
  "DecodeAll mem chunks = for_each (\<lambda>chunk (chunk_decoder, delta_sizes). do {
     let chunk_decoder = LastChunk_Decode chunk kMaxReportedPackets chunk_decoder;
     delta_sizes \<leftarrow> LastChunk_AppendTo chunk_decoder delta_sizes;
     Some (chunk_decoder, delta_sizes) }) chunks (LastChunk_new mem, [])"

text \<open>The loop over the delta sizes: the result is the time and size reached and the packets left.\<close>

fun CheckDeltas ::
  "byte list \<Rightarrow> uint16 \<Rightarrow> received_packet list \<Rightarrow> int \<Rightarrow> nat \<Rightarrow>
   (int \<times> nat \<times> received_packet list) option option" where
  "CheckDeltas [] seq_no packet_it timestamp_us packet_size =
     Some (Some (timestamp_us, packet_size, packet_it))"
| "CheckDeltas (delta_size # ds) seq_no packet_it timestamp_us packet_size =
     (if delta_size > 0 then
        (case packet_it of
           [] \<Rightarrow> Some None
         | p # ps \<Rightarrow>
             if rp_sequence_number p \<noteq> seq_no then Some None
             else if delta_size = 1 \<and> (rp_delta_ticks p < 0 \<or> rp_delta_ticks p > 0xff) then Some None
             else do {
               timestamp_us \<leftarrow> int64 (timestamp_us + delta_us p);
               CheckDeltas ds (seq_no + 1) ps timestamp_us (packet_size + unat delta_size) })
      else CheckDeltas ds (seq_no + 1) packet_it timestamp_us (packet_size + unat delta_size))"

definition IsConsistent :: "byte list \<Rightarrow> transport_feedback \<Rightarrow> bool option" where
  "IsConsistent mem s = do {
     (_, delta_sizes) \<leftarrow> DecodeAll mem (tf_encoded_chunks s);
     let packet_size = kTransportFeedbackHeaderSizeBytes + kChunkSizeBytes * length (tf_encoded_chunks s);
     (delta_sizes, packet_size) \<leftarrow>
       (if \<not> LastChunk_Empty (tf_last_chunk s) then do {
          delta_sizes \<leftarrow> LastChunk_AppendTo (tf_last_chunk s) delta_sizes;
          Some (delta_sizes, packet_size + kChunkSizeBytes) }
        else Some (delta_sizes, packet_size));
     if unat (tf_num_seq_no s) \<noteq> length delta_sizes then Some False
     else do {
       r \<leftarrow> CheckDeltas delta_sizes (tf_base_seq_no s) (tf_packets s)
         (sint (word_of_int (tf_base_time_ticks s) * word_of_int kBaseScaleFactor :: uint64)) packet_size;
       (case r of
          None \<Rightarrow> Some False
        | Some (timestamp_us, packet_size, packet_it) \<Rightarrow>
            Some (packet_it = [] \<and> timestamp_us = tf_last_timestamp_us s \<and> tf_size_bytes s = packet_size)) } }"

section \<open>Serialising\<close>

definition TransportFeedback_BlockLength :: "transport_feedback \<Rightarrow> nat" where
  "TransportFeedback_BlockLength s = (tf_size_bytes s + 3) div 4 * 4"

definition CreateChunk :: "uint16 \<Rightarrow> out \<Rightarrow> out option" where
  "CreateChunk chunk s = do {
     s \<leftarrow> put 0 (WriteBigEndian 2 chunk) s;
     advance 2 s }"

definition CreateDelta :: "received_packet \<Rightarrow> out \<Rightarrow> out option" where
  "CreateDelta p s =
     (let delta = rp_delta_ticks p in
      if 0 \<le> delta \<and> delta \<le> 0xFF then do {
        s \<leftarrow> put 0 [word_of_int delta] s;
        advance 1 s }
      else do {
        s \<leftarrow> put 0 (WriteBigEndianSigned TYPE(16) 2 delta) s;
        advance 2 s })"

text \<open>\<open>while ((*position % 4) != 0) packet[(*position)++] = 0;\<close>\<close>

function CreatePadding :: "out \<Rightarrow> out option" where
  "CreatePadding s =
     (if index s mod 4 \<noteq> 0 then
        (case put 0 [0] s of
           None \<Rightarrow> None
         | Some s' \<Rightarrow> CreatePadding (s'\<lparr>index := index s' + 1\<rparr>))
      else Some s)"
  by pat_completeness auto
termination
  by (relation "measure (\<lambda>s. (4 - index s mod 4) mod 4)") (auto simp: put_def mod_Suc split: if_splits)

declare CreatePadding.simps [simp del]

definition TransportFeedback_Create ::
  "transport_feedback \<Rightarrow> nat \<Rightarrow> out \<Rightarrow> (bool \<times> out) option" where
  "TransportFeedback_Create p max_length s =
     (if tf_num_seq_no p = 0 then Some (False, s)
      else with_room (TransportFeedback_BlockLength p) max_length (\<lambda>s. do {
        let position_end = index s + TransportFeedback_BlockLength p;
        s \<leftarrow> CreateHeader 15 205 (HeaderLength (TransportFeedback_BlockLength p)) s;
        s \<leftarrow> Rtpfb_CreateCommonFeedback p s;
        s \<leftarrow> advance kCommonFeedbackLength s;
        s \<leftarrow> put 0 (WriteBigEndian 2 (tf_base_seq_no p)) s;
        s \<leftarrow> advance 2 s;
        s \<leftarrow> put 0 (WriteBigEndian 2 (tf_num_seq_no p)) s;
        s \<leftarrow> advance 2 s;
        s \<leftarrow> put 0 (WriteBigEndianSigned TYPE(32) 3 (tf_base_time_ticks p)) s;
        s \<leftarrow> advance 3 s;
        s \<leftarrow> put 0 [tf_feedback_seq p] s;
        s \<leftarrow> advance 1 s;
        s \<leftarrow> for_each CreateChunk (tf_encoded_chunks p) s;
        s \<leftarrow> (if \<not> LastChunk_Empty (tf_last_chunk p) then do {
               chunk \<leftarrow> EncodeLast (tf_last_chunk p);
               CreateChunk chunk s } else Some s);
        s \<leftarrow> for_each CreateDelta (tf_packets p) s;
        s \<leftarrow> CreatePadding s;
        check_index position_end s }) s)"

end
