(* ===== verification/TransportInvariant.thy ===== *)
theory TransportInvariant
  imports TransportFeedback
begin

text \<open>
  The invariant of \<open>TransportFeedback\<close>: the status symbols held in the chunks account for the
  packets, the size and the time of the last packet. Every public method keeps it, and it implies
  that \<open>IsConsistent\<close> returns true.
\<close>

section \<open>Invariant\<close>

definition tf_symbols :: "transport_feedback \<Rightarrow> byte list" where
  "tf_symbols s = concat (map chunk_symbols (tf_encoded_chunks s)) @ lc_list (tf_last_chunk s)"

text \<open>
  \<open>matches R seq ds ps\<close>: the packets \<open>ps\<close> are those with a nonzero symbol in \<open>ds\<close>, numbered from
  \<open>seq\<close>, and symbol and delta are related by \<open>R\<close>.
\<close>

fun matches :: "(byte \<Rightarrow> int \<Rightarrow> bool) \<Rightarrow> uint16 \<Rightarrow> byte list \<Rightarrow> received_packet list \<Rightarrow> bool" where
  "matches R seq [] ps \<longleftrightarrow> ps = []"
| "matches R seq (d # ds) ps \<longleftrightarrow>
     (if d = 0 then matches R (seq + 1) ds ps
      else (case ps of [] \<Rightarrow> False
        | p # ps' \<Rightarrow> rp_sequence_number p = seq \<and> R d (rp_delta_ticks p) \<and> matches R (seq + 1) ds ps'))"

definition in_int16 :: "int \<Rightarrow> bool" where
  "in_int16 x \<longleftrightarrow> - 32768 \<le> x \<and> x < 32768"

text \<open>A symbol that can carry a delta, and the symbol the builder chooses for it.\<close>

definition carries :: "byte \<Rightarrow> int \<Rightarrow> bool" where
  "carries d x \<longleftrightarrow> in_int16 x \<and> (d = 1 \<longrightarrow> 0 \<le> x \<and> x \<le> 0xff)"

definition size_of_delta :: "int \<Rightarrow> byte" where
  "size_of_delta x = (if 0 \<le> x \<and> x \<le> 0xff then 1 else 2)"

definition chosen :: "byte \<Rightarrow> int \<Rightarrow> bool" where
  "chosen d x \<longleftrightarrow> in_int16 x \<and> d = size_of_delta x"

definition tf_time :: "transport_feedback \<Rightarrow> int" where
  "tf_time s = tf_base_time_ticks s * 64000 + 250 * sum_list (map rp_delta_ticks (tf_packets s))"

definition tf_chunk_bytes :: "transport_feedback \<Rightarrow> nat" where
  "tf_chunk_bytes s = 20 + 2 * (length (tf_encoded_chunks s) + (if lc_size (tf_last_chunk s) = 0 then 0 else 1))"

definition symbols_size :: "byte list \<Rightarrow> nat" where
  "symbols_size ds = sum_list (map unat ds)"

text \<open>The part of the invariant about the symbols, and the whole.\<close>

definition tf_frame :: "transport_feedback \<Rightarrow> bool" where
  "tf_frame s \<longleftrightarrow> lc_ok (tf_last_chunk s) \<and> list_all (\<lambda>d. d \<le> 2) (tf_symbols s) \<and>
     unat (tf_num_seq_no s) = length (tf_symbols s) \<and>
     (lc_size (tf_last_chunk s) = 0 \<longrightarrow> tf_encoded_chunks s = [])"

definition tf_inv :: "(byte \<Rightarrow> int \<Rightarrow> bool) \<Rightarrow> transport_feedback \<Rightarrow> bool" where
  "tf_inv R s \<longleftrightarrow> tf_frame s \<and> matches R (tf_base_seq_no s) (tf_symbols s) (tf_packets s) \<and>
     tf_last_timestamp_us s = tf_time s \<and>
     tf_size_bytes s = tf_chunk_bytes s + symbols_size (tf_symbols s) \<and> tf_size_bytes s \<le> 262144 \<and>
     - (2 ^ 31) \<le> tf_base_time_ticks s \<and> tf_base_time_ticks s < 2 ^ 31"

lemma tf_update_simps [simp]:
  "tf_symbols (s\<lparr>tf_packets := p\<rparr>) = tf_symbols s" "tf_symbols (s\<lparr>tf_last_timestamp_us := t\<rparr>) = tf_symbols s"
  "tf_symbols (s\<lparr>tf_size_bytes := z\<rparr>) = tf_symbols s" "tf_frame (s\<lparr>tf_packets := p\<rparr>) = tf_frame s"
  "tf_frame (s\<lparr>tf_last_timestamp_us := t\<rparr>) = tf_frame s" "tf_frame (s\<lparr>tf_size_bytes := z\<rparr>) = tf_frame s"
  "tf_chunk_bytes (s\<lparr>tf_packets := p\<rparr>) = tf_chunk_bytes s"
  "tf_chunk_bytes (s\<lparr>tf_last_timestamp_us := t\<rparr>) = tf_chunk_bytes s"
  "tf_chunk_bytes (s\<lparr>tf_size_bytes := z\<rparr>) = tf_chunk_bytes s"
  by (simp_all add: tf_symbols_def tf_frame_def tf_chunk_bytes_def)

section \<open>Matching packets and symbols\<close>

lemma matches_append:
  "matches R seq ds ps \<Longrightarrow> matches R (seq + of_nat (length ds)) ds' ps' \<Longrightarrow> matches R seq (ds @ ds') (ps @ ps')"
proof (induction ds arbitrary: seq ps)
  case (Cons d ds)
  have "matches R (seq + 1 + of_nat (length ds)) ds' ps'" using Cons.prems(2) by (simp add: ac_simps)
  note IH = Cons.IH [OF _ this]
  show ?case using Cons.prems(1) IH by (auto split: list.splits if_splits)
qed simp

lemma matches_zeros: "matches R seq (replicate k 0) []"
  by (induction k arbitrary: seq) simp_all

lemma matches_mono: "matches R seq ds ps \<Longrightarrow> (\<And>d x. R d x \<Longrightarrow> R' d x) \<Longrightarrow> matches R' seq ds ps"
  by (induction ds arbitrary: seq ps) (auto split: list.splits if_splits)

lemma matches_length: "matches R seq ds ps \<Longrightarrow> length ps \<le> length ds"
  by (induction ds arbitrary: seq ps) (fastforce split: list.splits if_splits)+

lemma matches_all: "matches R seq ds ps \<Longrightarrow> p \<in> set ps \<Longrightarrow> \<exists>d. R d (rp_delta_ticks p)"
  by (induction ds arbitrary: seq ps) (auto split: list.splits if_splits)

lemma chosen_carries: "chosen d x \<Longrightarrow> carries d x"
  by (auto simp: chosen_def carries_def size_of_delta_def split: if_splits)

lemma symbols_size_append [simp]: "symbols_size (xs @ ys) = symbols_size xs + symbols_size ys"
  by (simp add: symbols_size_def)

lemma symbols_size_simps [simp]: "symbols_size [] = 0" "symbols_size (d # ds) = unat d + symbols_size ds"
  "symbols_size (replicate k 0) = 0"
  by (simp_all add: symbols_size_def sum_list_replicate)

lemma abs_sum_bound:
  assumes "\<And>p. p \<in> set ps \<Longrightarrow> \<bar>f p\<bar> \<le> (B :: int)"
  shows "\<bar>sum_list (map f ps)\<bar> \<le> B * int (length ps)"
  using assms
proof (induction ps)
  case (Cons p ps)
  have "\<bar>f p\<bar> \<le> B" "\<bar>sum_list (map f ps)\<bar> \<le> B * int (length ps)" using Cons by auto
  then show ?case by (simp add: distrib_left)
qed simp

lemma delta_sum_bound:
  assumes "matches R seq ds ps" "\<And>d x. R d x \<Longrightarrow> in_int16 x" "length ds \<le> 65535"
  shows "\<bar>sum_list (map rp_delta_ticks ps)\<bar> \<le> 2147450880"
proof -
  have "\<bar>rp_delta_ticks p\<bar> \<le> 32768" if "p \<in> set ps" for p
    using matches_all [OF assms(1) that] assms(2) by (force simp: in_int16_def)
  then have "\<bar>sum_list (map rp_delta_ticks ps)\<bar> \<le> 32768 * int (length ps)" by (rule abs_sum_bound)
  moreover have "length ps \<le> 65535" using matches_length [OF assms(1)] assms(3) by simp
  ultimately show ?thesis by simp
qed

section \<open>Adding a symbol\<close>

text \<open>\<open>adds s s' d\<close>: one symbol was appended and only the fields that hold symbols changed.\<close>

definition adds :: "byte \<Rightarrow> transport_feedback \<Rightarrow> transport_feedback \<Rightarrow> bool" where
  "adds d s s' \<longleftrightarrow> tf_frame s' \<and> tf_symbols s' = tf_symbols s @ [d] \<and>
     tf_size_bytes s' + unat d \<le> 262144 \<and>
     tf_size_bytes s' + tf_chunk_bytes s = tf_size_bytes s + tf_chunk_bytes s' \<and>
     (\<exists>n c l z. s' = s\<lparr>tf_num_seq_no := n, tf_encoded_chunks := c, tf_last_chunk := l, tf_size_bytes := z\<rparr>)"

lemma unat_Suc_uint16: "unat n \<noteq> 65535 \<Longrightarrow> unat (n + 1) = unat n + 1" for n :: uint16
proof -
  assume "unat n \<noteq> 65535"
  then have "unat n + 1 < 65536" using unat_lt_65536 [of n] by linarith
  then show ?thesis by (simp add: unat_word_ariths)
qed

lemma lc_size_add: "LastChunk_Add d lc = Some lc' \<Longrightarrow> lc_size lc' = lc_size lc + 1"
  by (auto simp: LastChunk_Add_def Let_def split: Option.bind_splits if_splits)

lemma AddDeltaSize_adds:
  assumes frame: "tf_frame s" and d: "d \<le> 2"
  shows "\<exists>ok s'. AddDeltaSize d s = Some (ok, s') \<and> (if ok then adds d s s' else s' = s)"
proof -
  let ?lc = "tf_last_chunk s"
  let ?add = "if LastChunk_Empty ?lc then 2 else 0 :: nat"
  have ok: "lc_ok ?lc" and num: "unat (tf_num_seq_no s) = length (tf_symbols s)"
    and le: "list_all (\<lambda>d. d \<le> 2) (lc_list ?lc)" and le': "list_all (\<lambda>d. d \<le> 2) (tf_symbols s)"
    using frame by (auto simp: tf_frame_def tf_symbols_def)
  obtain can where can: "LastChunk_CanAdd d ?lc = Some can"
    using last_chunk.can_add_total [OF ok d] by blast
  have num': "unat (tf_num_seq_no s + 1) = length (tf_symbols s @ [d])" if "unat (tf_num_seq_no s) \<noteq> 65535"
    using unat_Suc_uint16 [OF that] num by simp
  consider (full) "unat (tf_num_seq_no s) = 65535 \<or> tf_size_bytes s + unat d + ?add > 262144"
    | (fits) "unat (tf_num_seq_no s) \<noteq> 65535" "tf_size_bytes s + unat d + ?add \<le> 262144" can
    | (emits) "unat (tf_num_seq_no s) \<noteq> 65535" "tf_size_bytes s + unat d + ?add \<le> 262144" "\<not> can"
    by linarith
  then show ?thesis
  proof cases
    case full
    then have "AddDeltaSize d s = Some (False, s)" by (auto simp: AddDeltaSize_def)
    then show ?thesis by auto
  next
    case fits
    from last_chunk.add_ok [OF ok d] can fits(3) obtain lc' where
      lc': "LastChunk_Add d ?lc = Some lc'" "lc_ok lc'" "lc_list lc' = lc_list ?lc @ [d]" by auto
    let ?s = "s\<lparr>tf_size_bytes := tf_size_bytes s + ?add, tf_last_chunk := lc', tf_num_seq_no := tf_num_seq_no s + 1\<rparr>"
    have "AddDeltaSize d s = Some (True, ?s)"
      using fits can lc'(1) by (simp add: AddDeltaSize_def)
    moreover have "tf_symbols ?s = tf_symbols s @ [d]" by (simp add: tf_symbols_def lc'(3))
    then have "tf_frame ?s"
      using num' [OF fits(1)] lc'(2) lc_size_add [OF lc'(1)] le' d by (simp add: tf_frame_def)
    moreover have "\<exists>n c l z. ?s = s\<lparr>tf_num_seq_no := n, tf_encoded_chunks := c, tf_last_chunk := l, tf_size_bytes := z\<rparr>"
      by (intro exI [of _ "tf_num_seq_no s + 1"] exI [of _ "tf_encoded_chunks s"] exI [of _ lc']
          exI [of _ "tf_size_bytes s + ?add"]) simp
    ultimately show ?thesis
      using \<open>tf_symbols ?s = _\<close> fits(2) lc_size_add [OF lc'(1)]
      by (intro exI [of _ True] exI [of _ ?s]) (simp add: adds_def tf_chunk_bytes_def LastChunk_Empty_def)
  next
    case emits
    from last_chunk.emit_then_add [OF ok d le] can emits(3) obtain c lc1 lc' where
      lc': "LastChunk_Emit ?lc = Some (c, lc1)" "LastChunk_Add d lc1 = Some lc'" "lc_ok lc'"
        "chunk_symbols c @ lc_list lc' = lc_list ?lc @ [d]" by auto
    let ?s = "s\<lparr>tf_encoded_chunks := tf_encoded_chunks s @ [c], tf_size_bytes := tf_size_bytes s + 2,
        tf_last_chunk := lc', tf_num_seq_no := tf_num_seq_no s + 1\<rparr>"
    have ne: "lc_size ?lc \<noteq> 0" using can emits(3) LastChunk_CanAdd_eq [OF ok d] by auto
    show ?thesis
    proof (cases "tf_size_bytes s + unat d + 2 > 262144")
      case True
      then have "AddDeltaSize d s = Some (False, s)" using can emits by (simp add: AddDeltaSize_def)
      then show ?thesis by auto
    next
      case False
      then have "AddDeltaSize d s = Some (True, ?s)" using can emits lc'(1,2) by (simp add: AddDeltaSize_def)
      moreover have sy: "tf_symbols ?s = tf_symbols s @ [d]" by (simp add: tf_symbols_def lc'(4))
      then have "tf_frame ?s"
        using num' [OF emits(1)] lc'(3) lc_size_add [OF lc'(2)] le' d by (simp add: tf_frame_def)
      moreover have "\<exists>n c l z. ?s = s\<lparr>tf_num_seq_no := n, tf_encoded_chunks := c, tf_last_chunk := l, tf_size_bytes := z\<rparr>"
        by (intro exI [of _ "tf_num_seq_no s + 1"] exI [of _ "tf_encoded_chunks s @ [c]"] exI [of _ lc']
            exI [of _ "tf_size_bytes s + 2"]) simp
      ultimately show ?thesis
        using sy False ne lc_size_add [OF lc'(2)]
        by (intro exI [of _ True] exI [of _ ?s]) (simp add: adds_def tf_chunk_bytes_def)
    qed
  qed
qed

section \<open>Adding a packet\<close>

definition same_head :: "transport_feedback \<Rightarrow> transport_feedback \<Rightarrow> bool" where
  "same_head s s' \<longleftrightarrow> fb_sender_ssrc s' = fb_sender_ssrc s \<and> fb_media_ssrc s' = fb_media_ssrc s \<and>
     tf_base_seq_no s' = tf_base_seq_no s \<and> tf_base_time_ticks s' = tf_base_time_ticks s \<and>
     tf_feedback_seq s' = tf_feedback_seq s \<and> tf_last_timestamp_us s' = tf_last_timestamp_us s \<and>
     tf_packets s' = tf_packets s"

lemma same_head_refl [simp]: "same_head s s"
  by (simp add: same_head_def)

lemma same_head_trans: "same_head s t \<Longrightarrow> same_head t u \<Longrightarrow> same_head s u"
  by (simp add: same_head_def)

lemma adds_same_head: "adds d s s' \<Longrightarrow> same_head s s'"
  by (auto simp: adds_def same_head_def)

lemma adds_zero_inv:
  assumes "tf_inv R s" "adds 0 s s'"
  shows "tf_inv R s'"
proof -
  have "matches R (tf_base_seq_no s) (tf_symbols s @ replicate 1 0) (tf_packets s @ [])"
    using assms(1) by (intro matches_append matches_zeros) (simp add: tf_inv_def)
  then show ?thesis
    using assms adds_same_head [OF assms(2)]
    by (simp add: tf_inv_def adds_def same_head_def tf_time_def)
qed

lemma AddMissing_inv:
  assumes "tf_inv R s"
  shows "\<exists>ok s'. AddMissing next seq s = Some (ok, s') \<and> tf_inv R s' \<and> same_head s s' \<and>
     (ok \<longrightarrow> tf_symbols s' = tf_symbols s @ replicate (unat (seq - next)) 0)"
  using assms
proof (induction "unat (seq - next)" arbitrary: "next" s)
  case 0
  then have "seq = next" by (simp add: unat_eq_0)
  then show ?case using 0 by (auto simp: AddMissing.simps)
next
  case (Suc k)
  then have ne: "next \<noteq> seq" by auto
  have dec: "k = unat (seq - (next + 1))"
  proof -
    have "seq - next \<noteq> 0" using ne by simp
    then have "unat (seq - next - 1) = unat (seq - next) - 1" by (rule unat_minus_one)
    then show ?thesis using Suc.hyps(2) by (simp add: diff_diff_eq)
  qed
  have frame: "tf_frame s" using Suc.prems by (simp add: tf_inv_def)
  obtain ok s1 where s1: "AddDeltaSize 0 s = Some (ok, s1)" "if ok then adds 0 s s1 else s1 = s"
    using AddDeltaSize_adds [OF frame, of 0] by auto
  show ?case
  proof (cases ok)
    case False
    then have "AddMissing next seq s = Some (False, s)"
      using ne s1 by (subst AddMissing.simps) simp
    then show ?thesis using Suc.prems by auto
  next
    case True
    then have a: "adds 0 s s1" using s1(2) by simp
    from Suc.hyps(1) [OF dec adds_zero_inv [OF Suc.prems a]] obtain ok' s' where
      s': "AddMissing (next + 1) seq s1 = Some (ok', s')" "tf_inv R s'" "same_head s1 s'"
        "ok' \<longrightarrow> tf_symbols s' = tf_symbols s1 @ replicate k 0" unfolding dec [symmetric] by blast
    have "AddMissing next seq s = Some (ok', s')" using ne s1(1) True s'(1) by (subst AddMissing.simps) simp
    moreover have "tf_symbols s1 @ replicate k 0 = tf_symbols s @ replicate (Suc k) 0"
      using a by (simp add: adds_def)
    ultimately show ?thesis
      using s' same_head_trans [OF adds_same_head [OF a] s'(3)] Suc.hyps(2) by (metis)
  qed
qed

lemma round_ticks:
  fixes x :: int
  shows "\<bar>x - 250 * ((x + (if x < 0 then - 125 else 125)) sdiv 250)\<bar> \<le> 125"
proof (cases "x < 0")
  case True
  have "(x - 125) sdiv 250 = - ((125 - x) div 250)" using True by (simp add: signed_divide_int_def sgn_if)
  then show ?thesis using True by simp
next
  case False
  have "(x + 125) sdiv 250 = (x + 125) div 250" using False by (simp add: signed_divide_int_def sgn_if)
  then show ?thesis using False by simp
qed

text \<open>The tick count the builder computes for a time difference.\<close>

definition ticks_of :: "int \<Rightarrow> int" where
  "ticks_of diff =
     (let x = diff smod 1073741824000; x = (if x > 536870912000 then x - 1073741824000 else x)
      in (x + (if x < 0 then - 125 else 125)) sdiv 250)"

lemma ticks_of_error: "\<exists>k. \<bar>diff - 250 * ticks_of diff - k * 1073741824000\<bar> \<le> 125"
proof -
  define r where "r = diff smod 1073741824000"
  define x where "x = (if r > 536870912000 then r - 1073741824000 else r)"
  have "diff = diff sdiv 1073741824000 * 1073741824000 + r"
    unfolding r_def by (rule sdiv_mult_smod_eq [symmetric])
  then have "diff = (diff sdiv 1073741824000 + (if r > 536870912000 then 1 else 0)) * 1073741824000 + x"
    by (simp add: x_def algebra_simps)
  then obtain k where k: "diff = k * 1073741824000 + x" by blast
  have "ticks_of diff = (x + (if x < 0 then - 125 else 125)) sdiv 250"
    by (simp add: ticks_of_def Let_def x_def r_def)
  then show ?thesis using round_ticks [of x] k by (intro exI [of _ k]) simp
qed

lemma to_int16_in_range: "in_int16 (to_int16 x)"
  using sint_ge [of "word_of_int x :: uint16"] sint_lt [of "word_of_int x :: uint16"]
  by (simp add: to_int16_def in_int16_def)

lemma AddReceivedPacket_eq:
  assumes "int64 (ts - tf_last_timestamp_us s) = Some (ts - tf_last_timestamp_us s)"
    and "ticks = ticks_of (ts - tf_last_timestamp_us s)" "nxt = tf_base_seq_no s + tf_num_seq_no s"
  shows "AddReceivedPacket seq ts s =
    (if to_int16 ticks \<noteq> ticks then Some (False, s)
     else Option.bind (if seq \<noteq> nxt then if \<not> IsNewerSequenceNumber seq (nxt - 1) then Some (False, s)
                         else AddMissing nxt seq s else Some (True, s))
       (\<lambda>(ok, s). if \<not> ok then Some (False, s)
          else Option.bind (AddDeltaSize (size_of_delta ticks) s)
            (\<lambda>(ok, s). if \<not> ok then Some (False, s)
               else Option.bind (int64 (tf_last_timestamp_us s + ticks * 250))
                 (\<lambda>t. Some (True, s\<lparr>tf_packets := tf_packets s @ [\<lparr>rp_sequence_number = seq, rp_delta_ticks = ticks\<rparr>],
                    tf_last_timestamp_us := t, tf_size_bytes := tf_size_bytes s + unat (size_of_delta ticks)\<rparr>)))))"
  unfolding AddReceivedPacket_def assms(1) Option.bind.bind_lunit
  by (simp add: assms(2,3) ticks_of_def size_of_delta_def Let_def cong: if_cong)

text \<open>
  The methods are proved once for any relation between symbols and deltas that keeps deltas in 16
  bits and admits the builder's choice, and used for two: \<open>carries\<close>, which parsed packets satisfy,
  and \<open>chosen\<close>, which packets built by \<open>AddReceivedPacket\<close> alone satisfy.
\<close>

locale delta_relation =
  fixes R :: "byte \<Rightarrow> int \<Rightarrow> bool"
  assumes in_range: "R d x \<Longrightarrow> in_int16 x"
    and choice: "in_int16 x \<Longrightarrow> R (size_of_delta x) x"
begin

lemma last_timestamp_bound:
  assumes "tf_inv R s"
  shows "\<bar>tf_last_timestamp_us s\<bar> < 2 ^ 60"
proof -
  have "length (tf_symbols s) \<le> 65535"
    using assms unat_lt_65536 [of "tf_num_seq_no s"] by (simp add: tf_inv_def tf_frame_def)
  then have "\<bar>sum_list (map rp_delta_ticks (tf_packets s))\<bar> \<le> 2147450880"
    using assms in_range delta_sum_bound [of R "tf_base_seq_no s" "tf_symbols s"] by (simp add: tf_inv_def)
  moreover have "\<bar>tf_base_time_ticks s\<bar> \<le> 2147483648" using assms by (simp add: tf_inv_def abs_le_iff)
  moreover have "tf_last_timestamp_us s = tf_time s" using assms by (simp add: tf_inv_def)
  moreover have "(2 :: int) ^ 60 = 1152921504606846976" by simp
  ultimately show ?thesis unfolding tf_time_def by linarith
qed

lemma int64_close: "\<bar>x\<bar> < 2 ^ 60 \<Longrightarrow> \<bar>y\<bar> \<le> 2 ^ 62 \<Longrightarrow> int64 (y - x) = Some (y - x)"
  by (simp add: int64_def abs_less_iff abs_le_iff)

lemma received_packet_inv:
  assumes inv: "tf_inv R s" and a: "adds (size_of_delta x) s s'" and x: "in_int16 x"
    and seq: "seq = tf_base_seq_no s + of_nat (length (tf_symbols s))"
    and t: "t = tf_last_timestamp_us s' + x * 250"
  shows "tf_inv R (s'\<lparr>tf_packets := tf_packets s' @ [\<lparr>rp_sequence_number = seq, rp_delta_ticks = x\<rparr>],
     tf_last_timestamp_us := t, tf_size_bytes := tf_size_bytes s' + unat (size_of_delta x)\<rparr>)"
proof -
  let ?p = "\<lparr>rp_sequence_number = seq, rp_delta_ticks = x\<rparr>"
  note head = adds_same_head [OF a]
  have "size_of_delta x \<noteq> 0" by (simp add: size_of_delta_def)
  then have "matches R (tf_base_seq_no s) (tf_symbols s @ [size_of_delta x]) (tf_packets s @ [?p])"
    using inv choice [OF x] seq by (intro matches_append) (simp_all add: tf_inv_def)
  then show ?thesis
    using inv a head by (simp add: tf_inv_def adds_def same_head_def tf_time_def t)
qed

lemma AddReceivedPacket_inv:
  assumes inv: "tf_inv R s" and ts: "\<bar>ts\<bar> \<le> 2 ^ 62"
  shows "\<exists>ok s'. AddReceivedPacket seq ts s = Some (ok, s') \<and> tf_inv R s' \<and>
     (if ok then \<exists>x. tf_packets s' = tf_packets s @ [\<lparr>rp_sequence_number = seq, rp_delta_ticks = x\<rparr>] \<and>
        (\<exists>k. \<bar>ts - tf_last_timestamp_us s' - k * 1073741824000\<bar> \<le> 125)
      else same_head s s')"
proof -
  let ?x = "ticks_of (ts - tf_last_timestamp_us s)" and ?nxt = "tf_base_seq_no s + tf_num_seq_no s"
  have "int64 (ts - tf_last_timestamp_us s) = Some (ts - tf_last_timestamp_us s)"
    using last_timestamp_bound [OF inv] ts by (rule int64_close)
  note eq = AddReceivedPacket_eq [OF this refl refl, of seq]
  let ?gap = "if seq \<noteq> ?nxt then if \<not> IsNewerSequenceNumber seq (?nxt - 1) then Some (False, s)
      else AddMissing ?nxt seq s else Some (True, s)"
  have num: "unat (tf_num_seq_no s) = length (tf_symbols s)" using inv by (simp add: tf_inv_def tf_frame_def)
  have num': "of_nat (length (tf_symbols s)) = tf_num_seq_no s" unfolding num [symmetric] by simp
  obtain ok1 s1 where s1: "?gap = Some (ok1, s1)" "tf_inv R s1" "same_head s s1"
    "ok1 \<longrightarrow> seq = tf_base_seq_no s + of_nat (length (tf_symbols s1))"
  proof (cases "seq \<noteq> ?nxt \<and> IsNewerSequenceNumber seq (?nxt - 1)")
    case True
    obtain ok1 s1 where am: "AddMissing ?nxt seq s = Some (ok1, s1)" "tf_inv R s1" "same_head s s1"
      "ok1 \<longrightarrow> tf_symbols s1 = tf_symbols s @ replicate (unat (seq - ?nxt)) 0"
      using AddMissing_inv [OF inv] by blast
    then have "ok1 \<longrightarrow> seq = tf_base_seq_no s + of_nat (length (tf_symbols s1))" by (simp add: num')
    then show thesis using that am True by simp
  next
    case False
    then show thesis using inv num' that [of "seq = ?nxt" s] by auto
  qed
  note eq' = eq [unfolded s1(1) Option.bind.bind_lunit prod.case]
  show ?thesis
  proof (cases "to_int16 ?x = ?x \<and> ok1")
    case False
    then have "AddReceivedPacket seq ts s = Some (False, if to_int16 ?x = ?x then s1 else s)"
      by (simp add: eq')
    then show ?thesis using inv s1(2,3) by (intro exI [of _ False]) simp
  next
    case True
    then have x: "in_int16 ?x" using to_int16_in_range [of ?x] by simp
    have frame: "tf_frame s1" using s1(2) by (simp add: tf_inv_def)
    have le: "size_of_delta ?x \<le> 2" by (simp add: size_of_delta_def)
    obtain ok2 s2 where s2: "AddDeltaSize (size_of_delta ?x) s1 = Some (ok2, s2)"
      "if ok2 then adds (size_of_delta ?x) s1 s2 else s2 = s1"
      using AddDeltaSize_adds [OF frame le] by blast
    show ?thesis
    proof (cases ok2)
      case False
      then have "AddReceivedPacket seq ts s = Some (False, s1)" using True s2 by (simp add: eq')
      then show ?thesis using s1(2,3) by (intro exI [of _ False]) simp
    next
      case True2: True
      then have a: "adds (size_of_delta ?x) s1 s2" using s2(2) by simp
      note h = s1(3) adds_same_head [OF a]
      let ?t = "tf_last_timestamp_us s2 + ?x * 250"
      let ?s = "s2\<lparr>tf_packets := tf_packets s2 @ [\<lparr>rp_sequence_number = seq, rp_delta_ticks = ?x\<rparr>],
          tf_last_timestamp_us := ?t, tf_size_bytes := tf_size_bytes s2 + unat (size_of_delta ?x)\<rparr>"
      have seq: "seq = tf_base_seq_no s1 + of_nat (length (tf_symbols s1))"
        using s1(3,4) True by (simp add: same_head_def)
      have "tf_inv R ?s" by (rule received_packet_inv [OF s1(2) a x seq refl])
      from last_timestamp_bound [OF this] have "int64 ?t = Some ?t" by (simp add: int64_def abs_less_iff)
      then have "AddReceivedPacket seq ts s = Some (True, ?s)"
        using True True2 s2(1) by (simp add: eq')
      moreover obtain k where "\<bar>ts - tf_last_timestamp_us s - 250 * ?x - k * 1073741824000\<bar> \<le> 125"
        using ticks_of_error by blast
      then have "\<bar>ts - ?t - k * 1073741824000\<bar> \<le> 125" using h by (simp add: same_head_def algebra_simps)
      ultimately show ?thesis using \<open>tf_inv R ?s\<close> h by (fastforce simp: same_head_def)
    qed
  qed
qed

end

interpretation carried: delta_relation carries
  by unfold_locales (auto simp: carries_def size_of_delta_def split: if_splits)

interpretation chosen: delta_relation chosen
  by unfold_locales (auto simp: chosen_def)

section \<open>Resetting\<close>

lemma GetBaseTimeUs_eq:
  assumes "- (2 ^ 31) \<le> tf_base_time_ticks s" "tf_base_time_ticks s < 2 ^ 31"
  shows "GetBaseTimeUs s = tf_base_time_ticks s * 64000"
proof -
  let ?x = "tf_base_time_ticks s * 64000"
  have eq: "(word_of_int (tf_base_time_ticks s) * word_of_int 64000 :: uint64) = word_of_int ?x"
    by (simp only: wi_hom_syms)
  have "signed_take_bit 63 ?x = ?x"
    using assms by (simp add: signed_take_bit_int_eq_self_iff)
  then have "sint (word_of_int ?x :: uint64) = ?x" by (simp only: sint_sbintrunc') simp
  then show ?thesis unfolding GetBaseTimeUs_def eq .
qed

lemma tf_inv_empty:
  assumes "lc_ok (tf_last_chunk s)" "lc_size (tf_last_chunk s) = 0" "tf_encoded_chunks s = []"
    "tf_packets s = []" "tf_num_seq_no s = 0" "tf_size_bytes s = 20"
    "tf_last_timestamp_us s = tf_base_time_ticks s * 64000"
    "- (2 ^ 31) \<le> tf_base_time_ticks s" "tf_base_time_ticks s < 2 ^ 31"
  shows "tf_inv R s"
  using assms length_lc_list [OF assms(1)]
  by (simp add: tf_inv_def tf_frame_def tf_symbols_def tf_time_def tf_chunk_bytes_def)

lemma new_inv: "length mem = 14 \<Longrightarrow> tf_inv R (TransportFeedback_new mem)"
  by (rule tf_inv_empty) (simp_all add: TransportFeedback_new_def LastChunk_new_def LastChunk_Clear_ok)

lemma Clear_inv:
  assumes "length (lc_delta_sizes (tf_last_chunk s)) = 14"
    "- (2 ^ 31) \<le> tf_base_time_ticks s" "tf_base_time_ticks s < 2 ^ 31"
  shows "tf_inv R (TransportFeedback_Clear s)"
  using assms GetBaseTimeUs_eq [OF assms(2,3)]
  by (intro tf_inv_empty) (simp_all add: TransportFeedback_Clear_def LastChunk_Clear_ok)

lemma base_ticks:
  assumes "0 \<le> ref"
  shows "to_int32 (uint (word_of_int (ref smod 1073741824000) div word_of_int 64000 :: uint64)) =
     ref mod 1073741824000 div 64000"
proof -
  define r where "r = ref mod 1073741824000"
  have r: "0 \<le> r" "r < 1073741824000" by (simp_all add: r_def)
  have "ref smod 1073741824000 = r"
    using assms by (cases "ref = 0") (simp_all add: signed_modulo_int_def r_def)
  moreover have "uint (word_of_int r div word_of_int 64000 :: uint64) = r div 64000"
    using r by (simp add: uint_div_distrib uint_word_of_int take_bit_int_eq_self)
  moreover have "- 2147483648 \<le> r div 64000" "r div 64000 < 2147483648" using r by auto
  then have "to_int32 (r div 64000) = r div 64000"
    by (simp add: to_int32_def sint_sbintrunc' signed_take_bit_int_eq_self_iff)
  ultimately show ?thesis by (simp add: r_def)
qed

lemma SetBase_inv:
  assumes "tf_inv R s" "TransportFeedback_SetBase b ref s = Some s'"
  shows "tf_inv R s'" "tf_base_time_ticks s' = ref mod 1073741824000 div 64000" "tf_base_seq_no s' = b"
proof -
  let ?t = "ref mod 1073741824000 div 64000"
  let ?s = "s\<lparr>tf_base_seq_no := b, tf_base_time_ticks := ?t\<rparr>"
  have num: "tf_num_seq_no s = 0" and ref: "0 \<le> ref"
    and s': "s' = ?s\<lparr>tf_last_timestamp_us := GetBaseTimeUs ?s\<rparr>"
    using assms(2) base_ticks [of ref] by (auto simp: TransportFeedback_SetBase_def Let_def split: if_splits)
  have t: "0 \<le> ?t" "?t < 16777216" by auto
  then have time: "GetBaseTimeUs ?s = ?t * 64000" by (subst GetBaseTimeUs_eq) simp_all
  have "tf_symbols s = []" using assms(1) num by (simp add: tf_inv_def tf_frame_def)
  then have "tf_packets s = []" "tf_encoded_chunks s = []" "lc_size (tf_last_chunk s) = 0" "lc_ok (tf_last_chunk s)"
    "tf_size_bytes s = 20"
    using assms(1) length_lc_list [of "tf_last_chunk s"]
    by (auto simp: tf_inv_def tf_frame_def tf_symbols_def tf_chunk_bytes_def)
  then show "tf_inv R s'" unfolding s' using t num time by (intro tf_inv_empty) simp_all
  show "tf_base_time_ticks s' = ?t" "tf_base_seq_no s' = b" by (simp_all add: s')
qed

section \<open>The consistency check\<close>

lemma length_chunk_symbols: "length (chunk_symbols c) \<le> 0x1fff"
proof -
  have "c AND 0x1fff \<le> 0x1fff" by (rule word_and_le1)
  then have "unat (c AND 0x1fff) \<le> 0x1fff" by (simp add: word_le_nat_alt)
  then show ?thesis by (simp add: chunk_symbols_def)
qed

lemma DecodeAll_eq:
  assumes "length mem = 14"
  shows "\<exists>lc. DecodeAll mem cs = Some (lc, concat (map chunk_symbols cs))"
proof -
  have "\<exists>lc'. for_each (\<lambda>chunk (chunk_decoder, delta_sizes). do {
      let chunk_decoder = LastChunk_Decode chunk 0xffff chunk_decoder;
      delta_sizes \<leftarrow> LastChunk_AppendTo chunk_decoder delta_sizes;
      Some (chunk_decoder, delta_sizes) }) cs (lc, ds) = Some (lc', ds @ concat (map chunk_symbols cs))"
    if "length (lc_delta_sizes lc) = 14" for lc ds
    using that
  proof (induction cs arbitrary: lc ds)
    case (Cons c cs)
    note ok = LastChunk_Decode_ok [OF Cons.prems, of c "0xffff"]
    have "take 65535 (chunk_symbols c) = chunk_symbols c" using length_chunk_symbols [of c] by simp
    moreover have "length (lc_delta_sizes (LastChunk_Decode c 0xffff lc)) = 14" using ok by (simp add: lc_ok_def)
    ultimately show ?case
      using Cons.IH [of "LastChunk_Decode c 0xffff lc" "ds @ chunk_symbols c"] ok
      by (simp add: Let_def LastChunk_AppendTo_eq)
  qed simp
  from this [of "LastChunk_new mem" "[]"] assms show ?thesis
    by (simp add: DecodeAll_def LastChunk_new_def LastChunk_Clear_def)
qed

lemma CheckDeltas_eq:
  assumes "matches carries seq ds ps" "\<bar>t\<bar> + 8192000 * int (length ds) < 2 ^ 62"
  shows "CheckDeltas ds seq ps t z =
     Some (Some (t + 250 * sum_list (map rp_delta_ticks ps), z + symbols_size ds, []))"
  using assms
proof (induction ds arbitrary: seq ps t z)
  case (Cons d ds)
  show ?case
  proof (cases "d = 0")
    case True
    then show ?thesis using Cons.prems Cons.IH [of "seq + 1" ps t] by simp
  next
    case False
    then obtain p ps' where ps: "ps = p # ps'" and p: "rp_sequence_number p = seq"
      "carries d (rp_delta_ticks p)" and m: "matches carries (seq + 1) ds ps'"
      using Cons.prems(1) by (auto split: list.splits)
    let ?t = "t + 250 * rp_delta_ticks p"
    have x: "- 32768 \<le> rp_delta_ticks p" "rp_delta_ticks p < 32768"
      using p(2) by (simp_all add: carries_def in_int16_def)
    have b: "\<bar>?t\<bar> + 8192000 * int (length ds) < 2 ^ 62" using Cons.prems(2) x by simp
    then have "int64 ?t = Some ?t" by (simp add: int64_def abs_if split: if_splits)
    moreover have "\<not> (d = 1 \<and> (rp_delta_ticks p < 0 \<or> rp_delta_ticks p > 0xff))"
      using p(2) by (auto simp: carries_def)
    moreover have "0 < d" using False by (simp add: word_neq_0_conv)
    ultimately show ?thesis
      using Cons.IH [OF m b] ps p(1) by (simp add: delta_us_def algebra_simps)
  qed
qed simp

lemma tf_inv_IsConsistent:
  assumes "tf_inv carries s" "length mem = 14"
  shows "IsConsistent mem s = Some True"
proof -
  let ?lc = "tf_last_chunk s" and ?t = "tf_base_time_ticks s * 64000"
  obtain lc where dec: "DecodeAll mem (tf_encoded_chunks s) = Some (lc, concat (map chunk_symbols (tf_encoded_chunks s)))"
    using DecodeAll_eq [OF assms(2)] by blast
  have ok: "lc_ok ?lc" and ticks: "- (2 ^ 31) \<le> tf_base_time_ticks s" "tf_base_time_ticks s < 2 ^ 31"
    and num: "unat (tf_num_seq_no s) = length (tf_symbols s)"
    and m: "matches carries (tf_base_seq_no s) (tf_symbols s) (tf_packets s)"
    using assms(1) by (simp_all add: tf_inv_def tf_frame_def)
  have last: "(if \<not> LastChunk_Empty ?lc then do {
        delta_sizes \<leftarrow> LastChunk_AppendTo ?lc (concat (map chunk_symbols (tf_encoded_chunks s)));
        Some (delta_sizes, 20 + 2 * length (tf_encoded_chunks s) + 2) }
      else Some (concat (map chunk_symbols (tf_encoded_chunks s)), 20 + 2 * length (tf_encoded_chunks s))) =
    Some (tf_symbols s, tf_chunk_bytes s)"
    using length_lc_list [OF ok]
    by (auto simp: LastChunk_Empty_def LastChunk_AppendTo_eq [OF ok] tf_symbols_def tf_chunk_bytes_def)
  have "length (tf_symbols s) < 65536" using num unat_lt_65536 [of "tf_num_seq_no s"] by simp
  then have "\<bar>?t\<bar> + 8192000 * int (length (tf_symbols s)) < 2 ^ 62"
    using ticks by (simp add: abs_if split: if_splits)
  note check = CheckDeltas_eq [OF m this]
  have "sint (word_of_int (tf_base_time_ticks s) * word_of_int 64000 :: uint64) = ?t"
    using GetBaseTimeUs_eq [OF ticks] by (simp add: GetBaseTimeUs_def)
  then show ?thesis
    unfolding IsConsistent_def dec Option.bind.bind_lunit prod.case Let_def last
    using assms(1) num check by (simp add: tf_inv_def tf_time_def)
qed

end
