(* ===== verification/TransportParse.thy ===== *)
theory TransportParse
  imports TransportInvariant
begin

text \<open>
  \<open>TransportFeedback::Parse\<close> on any payload: no read leaves the buffer, no assertion fails and no
  64 bit time overflows, and whatever the outcome the object satisfies its invariant.
\<close>

section \<open>The chunk loop\<close>

text \<open>The state of the loop: the chunks read, the decoded last one and the symbols so far.\<close>

definition chunks_read :: "nat \<Rightarrow> uint16 list \<Rightarrow> last_chunk \<Rightarrow> byte list \<Rightarrow> bool" where
  "chunks_read sc cs lc ds \<longleftrightarrow> length (lc_delta_sizes lc) = 14 \<and>
     ds = take sc (concat (map chunk_symbols cs)) \<and>
     (cs \<noteq> [] \<longrightarrow> lc_ok lc \<and> ds = concat (map chunk_symbols (butlast cs)) @ lc_list lc \<and>
       length (concat (map chunk_symbols (butlast cs))) < sc)"

lemma chunks_read_step:
  assumes "chunks_read sc cs lc ds" "length ds < sc"
  shows "chunks_read sc (cs @ [c]) (LastChunk_Decode c (sc - length ds) lc)
      (ds @ lc_list (LastChunk_Decode c (sc - length ds) lc))"
    "lc_ok (LastChunk_Decode c (sc - length ds) lc)"
proof -
  have ds: "ds = concat (map chunk_symbols cs)" "length (lc_delta_sizes lc) = 14"
    using assms by (auto simp: chunks_read_def min_def split: if_splits)
  note ok = LastChunk_Decode_ok [OF ds(2), of c "sc - length ds"]
  show "lc_ok (LastChunk_Decode c (sc - length ds) lc)" using ok by simp
  then have "length (lc_delta_sizes (LastChunk_Decode c (sc - length ds) lc)) = 14" by (simp add: lc_ok_def)
  then show "chunks_read sc (cs @ [c]) (LastChunk_Decode c (sc - length ds) lc)
      (ds @ lc_list (LastChunk_Decode c (sc - length ds) lc))"
    using ok assms(2) ds by (simp add: chunks_read_def)
qed

text \<open>The state in which the loop leaves the object.\<close>

abbreviation with_chunks :: "transport_feedback \<Rightarrow> uint16 list \<Rightarrow> last_chunk \<Rightarrow> transport_feedback" where
  "with_chunks s cs lc \<equiv> s\<lparr>tf_encoded_chunks := cs, tf_last_chunk := lc\<rparr>"

lemma ParseChunks_ok:
  assumes "chunks_read sc cs lc ds" "end_index \<le> length pl" "16 + 2 * length cs \<le> end_index"
  shows "\<exists>ok cs' lc' ds' s'. ParseChunks sc pl end_index (16 + 2 * length cs) ds (with_chunks s cs lc) =
      Some (ok, 16 + 2 * length cs', ds', s') \<and> chunks_read sc cs' lc' ds' \<and>
      (if ok then s' = with_chunks s cs' lc' \<and> length ds' = sc \<and> 16 + 2 * length cs' \<le> end_index
       else s' = TransportFeedback_Clear (with_chunks s cs' lc'))"
  using assms
proof (induction "end_index - (16 + 2 * length cs)" arbitrary: cs lc ds rule: less_induct)
  case less
  show ?case
  proof (cases "length ds < sc")
    case False
    then have "length ds = sc" using less.prems(1) by (simp add: chunks_read_def)
    then show ?thesis using False less.prems by (subst ParseChunks.simps) auto
  next
    case more: True
    show ?thesis
    proof (cases "16 + 2 * length cs + 2 > end_index")
      case True
      then show ?thesis using more less.prems by (subst ParseChunks.simps) auto
    next
      case False
      then have "2 \<le> length (drop (16 + 2 * length cs) pl)" using less.prems by simp
      then obtain c where c: "ReadBigEndian 2 (drop (16 + 2 * length cs) pl) = Some (c :: uint16)"
        unfolding ReadBigEndian_eq by simp
      let ?lc = "LastChunk_Decode c (sc - length ds) lc"
      note step = chunks_read_step [OF less.prems(1) more, of c]
      have "ParseChunks sc pl end_index (16 + 2 * length cs) ds (with_chunks s cs lc) =
          ParseChunks sc pl end_index (16 + 2 * length (cs @ [c])) (ds @ lc_list ?lc) (with_chunks s (cs @ [c]) ?lc)"
        using more False c step(2)
        by (subst ParseChunks.simps) (simp add: Let_def LastChunk_AppendTo_eq ac_simps)
      moreover have "end_index - (16 + 2 * length (cs @ [c])) < end_index - (16 + 2 * length cs)"
        "16 + 2 * length (cs @ [c]) \<le> end_index" using False by auto
      ultimately show ?thesis using less.hyps [OF _ step(1) less.prems(2)] by metis
    qed
  qed
qed

section \<open>The delta loop\<close>

lemma ReadBigEndianSigned_range:
  assumes "2 \<le> length data"
  obtains x where "ReadBigEndianSigned TYPE(16) 2 data = Some x" "in_int16 x"
proof
  let ?x = "sint (be_word 2 data :: uint16)"
  show "ReadBigEndianSigned TYPE(16) 2 data = Some ?x"
    using assms by (simp add: ReadBigEndianSigned_def ReadBigEndian_eq ReinterpretAsSigned_sint)
  show "in_int16 ?x" using sint_ge [of "be_word 2 data :: uint16"] sint_lt [of "be_word 2 data :: uint16"]
    by (simp add: in_int16_def)
qed

lemma ReadBigEndianSigned_ticks:
  assumes "3 \<le> length data"
  obtains x where "ReadBigEndianSigned TYPE(32) 3 data = Some x" "- (2 ^ 31) \<le> x" "x < 2 ^ 31"
proof -
  obtain w :: uint32 where w: "SignExtend 3 (be_word 3 data :: uint32) = Some w"
    by (cases "SignExtend 3 (be_word 3 data :: uint32)") (auto simp: SignExtend_def Let_def split: if_splits)
  show ?thesis
  proof
    show "ReadBigEndianSigned TYPE(32) 3 data = Some (sint w)"
      using assms w by (simp add: ReadBigEndianSigned_def ReadBigEndian_eq ReinterpretAsSigned_sint)
    show "- (2 ^ 31) \<le> sint w" "sint w < 2 ^ 31" using sint_ge [of w] sint_lt [of w] by simp_all
  qed
qed

text \<open>The packets read so far and their effect on the time.\<close>

abbreviation with_packets :: "transport_feedback \<Rightarrow> received_packet list \<Rightarrow> transport_feedback" where
  "with_packets s ps \<equiv> s\<lparr>tf_packets := tf_packets s @ ps,
     tf_last_timestamp_us := tf_last_timestamp_us s + 250 * sum_list (map rp_delta_ticks ps)\<rparr>"

lemma ParseDelta_eq:
  assumes "in_int16 x" "\<bar>tf_last_timestamp_us s\<bar> < 2 ^ 62"
  shows "ParseDelta seq x s = Some (with_packets s [\<lparr>rp_sequence_number = seq, rp_delta_ticks = x\<rparr>])"
proof -
  have "int64 (tf_last_timestamp_us s + x * 250) = Some (tf_last_timestamp_us s + x * 250)"
    using assms by (simp add: int64_def in_int16_def abs_less_iff)
  then show ?thesis by (simp add: ParseDelta_def algebra_simps)
qed

lemma ParseDeltas_Cons:
  assumes "d = 1 \<or> d = 2" "idx + unat d \<le> end_index" "end_index \<le> length pl" "\<bar>tf_last_timestamp_us s\<bar> < 2 ^ 62"
  obtains x where "carries d x" "in_int16 x"
    "ParseDeltas pl end_index (d # ds) idx seq s = ParseDeltas pl end_index ds (idx + unat d) (seq + 1)
       (with_packets s [\<lparr>rp_sequence_number = seq, rp_delta_ticks = x\<rparr>])"
proof (cases "d = 1")
  case True
  let ?x = "uint (pl ! idx)"
  have x: "0 \<le> ?x" "?x < 256" using uint_lt2p [of "pl ! idx"] by simp_all
  then have "in_int16 ?x" unfolding in_int16_def by linarith
  then show ?thesis using that [of ?x] True assms x ParseDelta_eq [of ?x s seq]
    by (simp add: carries_def byte_at_def)
next
  case False
  then have d: "d = 2" using assms(1) by simp
  then have "2 \<le> length (drop idx pl)" using assms(2,3) by simp
  then obtain x where x: "ReadBigEndianSigned TYPE(16) 2 (drop idx pl) = Some x" "in_int16 x"
    by (rule ReadBigEndianSigned_range)
  then show ?thesis using that [of x] d assms ParseDelta_eq [of x s seq] by (simp add: carries_def)
qed
lemma Clear_with_packets [simp]:
  "TransportFeedback_Clear (s\<lparr>tf_packets := ps, tf_last_timestamp_us := t\<rparr>) = TransportFeedback_Clear s"
  by (simp add: TransportFeedback_Clear_def GetBaseTimeUs_def)

lemma symbol_cases: "unat d \<le> 3 \<Longrightarrow> d = 0 \<or> d = 1 \<or> d = 2 \<or> d = 3" for d :: byte
proof -
  assume "unat d \<le> 3"
  then have "unat d = 0 \<or> unat d = 1 \<or> unat d = 2 \<or> unat d = 3" by linarith
  then show ?thesis by (simp add: word_unat_eq_iff)
qed

lemma ParseDeltas_ok:
  assumes "\<forall>d \<in> set ds. d \<le> 3" "end_index \<le> length pl" "idx \<le> end_index"
    "\<bar>tf_last_timestamp_us s\<bar> + 8192000 * int (length ds) < 2 ^ 62"
  shows "\<exists>ok idx' s'. ParseDeltas pl end_index ds idx seq s = Some (ok, idx', s') \<and>
     (if ok then idx' = idx + symbols_size ds \<and> idx' \<le> end_index \<and> list_all (\<lambda>d. d \<le> 2) ds \<and>
        (\<exists>ps. s' = with_packets s ps \<and> matches carries seq ds ps)
      else s' = TransportFeedback_Clear s)"
  using assms
proof (induction ds arbitrary: idx seq s)
  case (Cons d ds)
  have IH: "\<exists>ok idx' s'. ParseDeltas pl end_index ds i (seq + 1) t = Some (ok, idx', s') \<and>
     (if ok then idx' = i + symbols_size ds \<and> idx' \<le> end_index \<and> list_all (\<lambda>d. d \<le> 2) ds \<and>
        (\<exists>ps. s' = with_packets t ps \<and> matches carries (seq + 1) ds ps)
      else s' = TransportFeedback_Clear t)"
    if "i \<le> end_index" "\<bar>tf_last_timestamp_us t\<bar> \<le> \<bar>tf_last_timestamp_us s\<bar> + 8192000" for i t
    using Cons.IH [of i t "seq + 1"] that Cons.prems by simp
  have "unat d \<le> 3" using Cons.prems(1) by (simp add: word_le_nat_alt)
  then consider (short) "idx + unat d > end_index" | (zero) "idx \<le> end_index" "d = 0"
    | (packet) "d = 1 \<or> d = 2" "idx + unat d \<le> end_index" | (bad) "d = 3" "idx + unat d \<le> end_index"
    using symbol_cases Cons.prems(3) by (metis not_le)
  then show ?case
  proof cases
    case zero
    then have "ParseDeltas pl end_index (d # ds) idx seq s = ParseDeltas pl end_index ds idx (seq + 1) s" by simp
    then show ?thesis using IH [of idx s] zero by (simp cong: if_cong)
  next
    case packet
    have "\<bar>tf_last_timestamp_us s\<bar> < 2 ^ 62" using Cons.prems(4) by simp
    from ParseDeltas_Cons [OF packet Cons.prems(2) this] obtain x where x: "carries d x" "in_int16 x"
      and eq: "ParseDeltas pl end_index (d # ds) idx seq s = ParseDeltas pl end_index ds (idx + unat d) (seq + 1)
       (with_packets s [\<lparr>rp_sequence_number = seq, rp_delta_ticks = x\<rparr>])" (is "_ = ParseDeltas _ _ _ _ _ ?t")
      by blast
    have "\<bar>tf_last_timestamp_us ?t\<bar> \<le> \<bar>tf_last_timestamp_us s\<bar> + 8192000" using x(2) by (auto simp: in_int16_def)
    from IH [OF packet(2) this] obtain ok idx' s' where res:
      "ParseDeltas pl end_index ds (idx + unat d) (seq + 1) ?t = Some (ok, idx', s')"
      "if ok then idx' = idx + unat d + symbols_size ds \<and> idx' \<le> end_index \<and> list_all (\<lambda>d. d \<le> 2) ds \<and>
        (\<exists>ps. s' = with_packets ?t ps \<and> matches carries (seq + 1) ds ps)
      else s' = TransportFeedback_Clear ?t" by blast
    show ?thesis
    proof (cases ok)
      case True
      then obtain ps where ps: "s' = with_packets ?t ps" "matches carries (seq + 1) ds ps" using res(2) by auto
      let ?ps = "\<lparr>rp_sequence_number = seq, rp_delta_ticks = x\<rparr> # ps"
      have "s' = with_packets s ?ps" using ps(1) by (simp add: algebra_simps)
      moreover have "matches carries seq (d # ds) ?ps" using ps(2) x(1) packet(1) by auto
      ultimately have "\<exists>ps. s' = with_packets s ps \<and> matches carries seq (d # ds) ps" by blast
      moreover have "d \<le> 2" using packet(1) by auto
      ultimately have "if ok then idx' = idx + symbols_size (d # ds) \<and> idx' \<le> end_index \<and>
          list_all (\<lambda>d. d \<le> 2) (d # ds) \<and> (\<exists>ps. s' = with_packets s ps \<and> matches carries seq (d # ds) ps)
        else s' = TransportFeedback_Clear s"
        using True res(2) by (simp del: matches.simps)
      then show ?thesis unfolding eq res(1) by blast
    next
      case False
      then show ?thesis unfolding eq res(1) using res(2) by auto
    qed
  qed (auto intro: exI [of _ False])
qed auto

section \<open>The whole parser\<close>

lemma chunk_symbols_le:
  assumes "d \<in> set (chunk_symbols c)"
  shows "d \<le> 3"
proof -
  let ?lc = "LastChunk_Decode c 0xffff (LastChunk_new (replicate 14 0))"
  have "lc_ok ?lc" "lc_list ?lc = chunk_symbols c"
    using LastChunk_Decode_ok [of "LastChunk_new (replicate 14 0)" c "0xffff"] length_chunk_symbols [of c]
    by (simp_all add: LastChunk_new_def LastChunk_Clear_def)
  then show ?thesis using assms by (auto simp: lc_ok_def)
qed

lemma chunks_read_le: "chunks_read sc cs lc ds \<Longrightarrow> \<forall>d \<in> set ds. d \<le> 3"
  by (auto simp: chunks_read_def dest!: in_set_takeD intro: chunk_symbols_le)

text \<open>What the loops leave is an object that satisfies the invariant.\<close>

lemma parsed_inv:
  assumes read: "chunks_read sc cs lc ds" and "length ds = sc" "0 < sc" "sc < 65536"
    and "list_all (\<lambda>d. d \<le> 2) ds" "matches carries (tf_base_seq_no s) ds ps"
    and ticks: "- (2 ^ 31) \<le> tf_base_time_ticks s" "tf_base_time_ticks s < 2 ^ 31"
    and "20 + 2 * length cs + symbols_size ds \<le> 262144" "tf_packets s = []"
    and "tf_last_timestamp_us s = tf_base_time_ticks s * 64000"
  shows "tf_inv carries ((with_packets (s\<lparr>tf_last_chunk := lc, tf_encoded_chunks := butlast cs,
       tf_num_seq_no := of_nat sc\<rparr>) ps)\<lparr>tf_size_bytes := 20 + 2 * length cs + symbols_size ds\<rparr>)"
    (is "tf_inv carries ?s")
proof -
  have ne: "cs \<noteq> []" and ok: "lc_ok lc" and ds: "ds = concat (map chunk_symbols (butlast cs)) @ lc_list lc"
    "length (concat (map chunk_symbols (butlast cs))) < sc"
    using read assms(2,3) by (auto simp: chunks_read_def)
  have "0 < lc_size lc"
    using ds assms(2) length_lc_list [OF ok] by (metis add.right_neutral length_append less_irrefl not_gr0)
  moreover have "tf_symbols ?s = ds" using ds(1) by (simp add: tf_symbols_def)
  moreover have "unat (of_nat sc :: uint16) = sc" using assms(4) by (simp add: unat_of_nat)
  moreover have "tf_chunk_bytes ?s = 20 + 2 * length cs"
    using ne \<open>0 < lc_size lc\<close> by (cases cs rule: rev_cases) (simp_all add: tf_chunk_bytes_def)
  ultimately show ?thesis using ok assms by (simp add: tf_inv_def tf_frame_def tf_time_def)
qed

lemma ParseStatus_inv:
  assumes s: "tf_encoded_chunks s = []" "tf_packets s = []" "length (lc_delta_sizes (tf_last_chunk s)) = 14"
    "tf_last_timestamp_us s = tf_base_time_ticks s * 64000"
    and ticks: "- (2 ^ 31) \<le> tf_base_time_ticks s" "tf_base_time_ticks s < 2 ^ 31"
    and sc: "0 < sc" "sc < 65536" and e: "e \<le> length pl" "16 \<le> e" "e \<le> 262140"
  shows "\<exists>ok s'. ParseStatus sc pl e s = Some (ok, s') \<and> (ok \<longrightarrow> tf_num_seq_no s' \<noteq> 0) \<and> tf_inv carries s'"
proof -
  have start: "chunks_read sc [] (tf_last_chunk s) []" using s(3) by (simp add: chunks_read_def)
  have s_eq: "with_chunks s [] (tf_last_chunk s) = s" using s(1) by simp
  have "16 + 2 * length ([] :: uint16 list) \<le> e" using e by simp
  from ParseChunks_ok [OF start e(1) this, of s] obtain ok cs lc ds s1 where
    chunks: "ParseChunks sc pl e 16 [] s = Some (ok, 16 + 2 * length cs, ds, s1)"
    and read: "chunks_read sc cs lc ds"
    and s1: "if ok then s1 = with_chunks s cs lc \<and> length ds = sc \<and> 16 + 2 * length cs \<le> e
       else s1 = TransportFeedback_Clear (with_chunks s cs lc)"
    unfolding s_eq list.size mult_0_right add_0_right by blast
  have clear: "tf_inv carries (TransportFeedback_Clear (with_chunks s cs lc))"
    using s ticks read by (intro Clear_inv) (simp_all add: chunks_read_def)
  show ?thesis
  proof (cases ok)
    case False
    then show ?thesis using chunks s1 clear by (auto simp: ParseStatus_def)
  next
    case True
    then have s1: "s1 = with_chunks s cs lc" "length ds = sc" "16 + 2 * length cs \<le> e" using s1 by simp_all
    have cs: "cs \<noteq> []" using read s1(2) sc(1) by (auto simp: chunks_read_def)
    let ?s2 = "s\<lparr>tf_last_chunk := lc, tf_encoded_chunks := butlast cs, tf_num_seq_no := of_nat sc\<rparr>"
    have "\<bar>tf_last_timestamp_us ?s2\<bar> + 8192000 * int (length ds) < 2 ^ 62"
      using s(4) ticks s1(2) sc by (simp add: abs_if split: if_splits)
    from ParseDeltas_ok [OF chunks_read_le [OF read] e(1) s1(3) this, of "tf_base_seq_no s"]
    obtain ok2 idx s3 where deltas: "ParseDeltas pl e ds (16 + 2 * length cs) (tf_base_seq_no s) ?s2 = Some (ok2, idx, s3)"
      and s3: "if ok2 then idx = 16 + 2 * length cs + symbols_size ds \<and> idx \<le> e \<and> list_all (\<lambda>d. d \<le> 2) ds \<and>
        (\<exists>ps. s3 = with_packets ?s2 ps \<and> matches carries (tf_base_seq_no s) ds ps)
        else s3 = TransportFeedback_Clear ?s2" by blast
    have eq: "ParseStatus sc pl e s = (if \<not> ok2 then Some (False, s3) else if idx > e then None
        else Some (True, s3\<lparr>tf_size_bytes := 4 + idx\<rparr>))"
      unfolding ParseStatus_def chunks using True s1 cs deltas by (simp add: Let_def)
    have "TransportFeedback_Clear ?s2 = TransportFeedback_Clear (with_chunks s cs lc)"
      by (simp add: TransportFeedback_Clear_def GetBaseTimeUs_def)
    then have fail: ?thesis if "\<not> ok2" unfolding eq using that s3 clear by auto
    have "?thesis" if ok2: ok2
    proof -
      obtain ps where ps: "s3 = with_packets ?s2 ps" "matches carries (tf_base_seq_no s) ds ps"
        "idx = 16 + 2 * length cs + symbols_size ds" "idx \<le> e" "list_all (\<lambda>d. d \<le> 2) ds"
        using s3 ok2 by auto
      have "tf_inv carries (s3\<lparr>tf_size_bytes := 20 + 2 * length cs + symbols_size ds\<rparr>)"
        unfolding ps(1) by (rule parsed_inv [OF read s1(2) sc ps(5,2) ticks]) (use ps(3,4) e s in simp_all)
      moreover have "(of_nat sc :: uint16) \<noteq> 0" using sc unat_of_nat [of sc, where 'a = 16] by auto
      ultimately show ?thesis unfolding eq using ok2 ps by (auto simp: add.assoc)
    qed
    with fail show ?thesis by blast
  qed
qed

lemma Parse_inv:
  assumes "valid_header h" "ch_payload_size h \<le> 262140" "length (lc_delta_sizes (tf_last_chunk s)) = 14"
    and type: "ch_packet_type h = 205" "ch_count_or_format h = 15"
  obtains ok s' where "TransportFeedback_Parse h s = Some (ok, s')" "ok \<longrightarrow> tf_num_seq_no s' \<noteq> 0"
    "if ch_payload_size h < 18 then \<not> ok \<and> s' = s else tf_inv carries s'"
proof (cases "ch_payload_size h < 18")
  case True
  then show ?thesis using that [of False s] type by (simp add: TransportFeedback_Parse_def)
next
  case False
  define pl e where "pl = payload h" and "e = ch_payload_size h"
  have len: "length pl = e" "18 \<le> e" "e \<le> 262140" using assms(1,2) False by (simp_all add: pl_def e_def)
  obtain ss ms where ssrc: "Rtpfb_ParseCommonFeedback pl = Some (ss, ms)"
  proof -
    have "4 \<le> length pl" "4 \<le> length (drop 4 pl)" using len by auto
    then show ?thesis using that unfolding Rtpfb_ParseCommonFeedback_def ReadBigEndian_eq by simp
  qed
  have room: "2 \<le> e - 8" "2 \<le> e - 10" "15 < e" using len by auto
  have "3 \<le> length (drop 12 pl)" using len by simp
  then obtain ticks where ticks: "ReadBigEndianSigned TYPE(32) 3 (drop 12 pl) = Some ticks"
    "- (2 ^ 31) \<le> ticks" "ticks < 2 ^ 31" by (rule ReadBigEndianSigned_ticks)
  define sc where "sc = unat (be_word 2 (drop 10 pl) :: uint16)"
  have sc: "sc < 65536" unfolding sc_def by (rule unat_lt_65536)
  define s0 where "s0 = TransportFeedback_Clear (s\<lparr>fb_sender_ssrc := ss, fb_media_ssrc := ms,
     tf_base_seq_no := be_word 2 (drop 8 pl), tf_base_time_ticks := ticks, tf_feedback_seq := pl ! 15\<rparr>)"
  have s0: "tf_encoded_chunks s0 = []" "tf_packets s0 = []" "length (lc_delta_sizes (tf_last_chunk s0)) = 14"
    "tf_base_time_ticks s0 = ticks"
    using assms(3) by (simp_all add: s0_def TransportFeedback_Clear_def LastChunk_Clear_def)
  have "tf_last_timestamp_us s0 = tf_base_time_ticks s0 * 64000"
    using ticks by (simp add: s0_def TransportFeedback_Clear_def GetBaseTimeUs_eq)
  then have "\<exists>ok s'. ParseStatus sc pl e s0 = Some (ok, s') \<and> (ok \<longrightarrow> tf_num_seq_no s' \<noteq> 0) \<and> tf_inv carries s'"
    if "0 < sc" using that sc s0 ticks len by (intro ParseStatus_inv) simp_all
  moreover have "tf_inv carries s0" unfolding s0_def using assms(3) ticks by (intro Clear_inv) simp_all
  moreover have "TransportFeedback_Parse h s = (if sc = 0 then Some (False, s0) else ParseStatus sc pl e s0)"
    using type False len(1,2) room ssrc ticks(1) unfolding TransportFeedback_Parse_def pl_def [symmetric] e_def [symmetric]
    by (simp add: Let_def ReadBigEndian_eq byte_at_def s0_def sc_def)
  ultimately have "\<exists>ok s'. TransportFeedback_Parse h s = Some (ok, s') \<and> (ok \<longrightarrow> tf_num_seq_no s' \<noteq> 0) \<and>
    tf_inv carries s'" by (cases "sc = 0") (rule exI [of _ False], simp, simp)
  then obtain ok s' where "TransportFeedback_Parse h s = Some (ok, s')" "ok \<longrightarrow> tf_num_seq_no s' \<noteq> 0"
    "tf_inv carries s'" by blast
  with that [of ok s'] False show ?thesis by simp
qed

end
