(* ===== verification/TransportWire.thy ===== *)
theory TransportWire
  imports TransportParse
begin

text \<open>
  The wire format of \<open>TransportFeedback\<close>: \<open>Create\<close> writes it, within the room it asked for, and
  \<open>Parse\<close> reads back the packets, the symbols and the header fields.
\<close>

section \<open>Wire format\<close>

definition delta_wire :: "received_packet \<Rightarrow> byte list" where
  "delta_wire p = (if 0 \<le> rp_delta_ticks p \<and> rp_delta_ticks p \<le> 0xff then [word_of_int (rp_delta_ticks p)]
     else WriteBigEndianSigned TYPE(16) 2 (rp_delta_ticks p))"

definition tf_chunks :: "transport_feedback \<Rightarrow> uint16 list" where
  "tf_chunks p = tf_encoded_chunks p @ (case EncodeLast (tf_last_chunk p) of None \<Rightarrow> [] | Some c \<Rightarrow> [c])"

definition TransportFeedback_fields :: "transport_feedback \<Rightarrow> byte list" where
  "TransportFeedback_fields p = common_wire p @ WriteBigEndian 2 (tf_base_seq_no p) @
     WriteBigEndian 2 (tf_num_seq_no p) @ WriteBigEndianSigned TYPE(32) 3 (tf_base_time_ticks p) @
     [tf_feedback_seq p]"

definition TransportFeedback_pad :: "transport_feedback \<Rightarrow> nat" where
  "TransportFeedback_pad p = TransportFeedback_BlockLength p - tf_size_bytes p"

definition TransportFeedback_body :: "transport_feedback \<Rightarrow> byte list" where
  "TransportFeedback_body p = TransportFeedback_fields p @ concat (map (WriteBigEndian 2) (tf_chunks p)) @
     concat (map delta_wire (tf_packets p)) @ replicate (TransportFeedback_pad p) 0"

definition TransportFeedback_wire :: "transport_feedback \<Rightarrow> byte list" where
  "TransportFeedback_wire p =
     header_bytes 15 205 (HeaderLength (TransportFeedback_BlockLength p)) @ TransportFeedback_body p"

text \<open>The objects \<open>Create\<close> is meant for: built by the setters and not empty.\<close>

definition TransportFeedback_wf :: "transport_feedback \<Rightarrow> bool" where
  "TransportFeedback_wf p \<longleftrightarrow> tf_inv chosen p \<and> tf_num_seq_no p \<noteq> 0"

section \<open>Lengths\<close>

lemma length_WriteBigEndianSigned [simp]: "length (WriteBigEndianSigned T B v) = B"
  by (simp add: WriteBigEndianSigned_def)

lemma length_delta_wire: "length (delta_wire p) = unat (size_of_delta (rp_delta_ticks p))"
  by (simp add: delta_wire_def size_of_delta_def)

lemma length_fields [simp]: "length (TransportFeedback_fields p) = 16"
  by (simp add: TransportFeedback_fields_def)

lemma length_chunk_bytes [simp]: "length (concat (map (WriteBigEndian 2) cs)) = 2 * length cs"
  by (induction cs) simp_all

lemma length_deltas: "matches chosen seq ds ps \<Longrightarrow> length (concat (map delta_wire ps)) = symbols_size ds"
proof (induction ds arbitrary: seq ps)
  case (Cons d ds)
  show ?case
  proof (cases "d = 0")
    case True
    then show ?thesis using Cons.prems Cons.IH [of "seq + 1" ps] by simp
  next
    case False
    then obtain p ps' where ps: "ps = p # ps'" "chosen d (rp_delta_ticks p)" "matches chosen (seq + 1) ds ps'"
      using Cons.prems by (auto split: list.splits)
    have "unat d = length (delta_wire p)" using ps(2) by (simp add: length_delta_wire chosen_def)
    then show ?thesis using Cons.IH [OF ps(3)] ps(1) by simp
  qed
qed simp

lemma wf_last:
  assumes "TransportFeedback_wf p"
  obtains c where "EncodeLast (tf_last_chunk p) = Some c" "lc_size (tf_last_chunk p) \<noteq> 0"
    "take (lc_size (tf_last_chunk p)) (chunk_symbols c) = lc_list (tf_last_chunk p)"
    "lc_size (tf_last_chunk p) \<le> length (chunk_symbols c)" "tf_chunks p = tf_encoded_chunks p @ [c]"
proof -
  let ?lc = "tf_last_chunk p"
  have ok: "lc_ok ?lc" and le: "\<forall>x \<in> set (lc_list ?lc). x \<le> 2"
    using assms by (auto simp: TransportFeedback_wf_def tf_inv_def tf_frame_def tf_symbols_def list_all_iff)
  have "tf_symbols p \<noteq> []"
    using assms by (auto simp: TransportFeedback_wf_def tf_inv_def tf_frame_def unat_eq_zero)
  moreover have "lc_size ?lc = 0 \<longrightarrow> tf_encoded_chunks p = []"
    using assms by (simp add: TransportFeedback_wf_def tf_inv_def tf_frame_def)
  ultimately have ne: "lc_size ?lc \<noteq> 0" using length_lc_list [OF ok] by (cases "lc_list ?lc") (auto simp: tf_symbols_def)
  show ?thesis using EncodeLast_ok [OF ok ne le] ne that by (auto simp: tf_chunks_def)
qed

lemma TransportFeedback_lengths:
  assumes "TransportFeedback_wf p"
  shows "20 + 2 * length (tf_chunks p) + length (concat (map delta_wire (tf_packets p))) = tf_size_bytes p"
    "tf_size_bytes p + TransportFeedback_pad p = TransportFeedback_BlockLength p"
    "TransportFeedback_pad p < 4" "TransportFeedback_BlockLength p \<le> 262144"
    "4 dvd TransportFeedback_BlockLength p" "20 \<le> tf_size_bytes p"
proof -
  obtain c where c: "tf_chunks p = tf_encoded_chunks p @ [c]" "lc_size (tf_last_chunk p) \<noteq> 0"
    using wf_last [OF assms] by metis
  have "matches chosen (tf_base_seq_no p) (tf_symbols p) (tf_packets p)"
    "tf_size_bytes p = tf_chunk_bytes p + symbols_size (tf_symbols p)" and le: "tf_size_bytes p \<le> 262144"
    using assms by (simp_all add: TransportFeedback_wf_def tf_inv_def)
  then show "20 + 2 * length (tf_chunks p) + length (concat (map delta_wire (tf_packets p))) = tf_size_bytes p"
    using length_deltas c by (simp add: tf_chunk_bytes_def)
  then show "20 \<le> tf_size_bytes p" by simp
  show "tf_size_bytes p + TransportFeedback_pad p = TransportFeedback_BlockLength p" "TransportFeedback_pad p < 4"
    "TransportFeedback_BlockLength p \<le> 262144" "4 dvd TransportFeedback_BlockLength p"
    using le by (auto simp: TransportFeedback_pad_def TransportFeedback_BlockLength_def)
qed

section \<open>Create writes the wire format\<close>

lemma CreatePadding_emit:
  assumes "index s + k \<le> length (buffer s)" "(index s + k) mod 4 = 0" "k < 4"
  shows "CreatePadding s = emit (replicate k 0) s"
  using assms
proof (induction k arbitrary: s)
  case 0
  then show ?case by (subst CreatePadding.simps) (simp add: emit_Nil)
next
  case (Suc k)
  obtain s' where s': "emit [0] s = Some s'" "index s' = index s + 1" "length (buffer s') = length (buffer s)"
    using Suc.prems(1) by (simp add: emit_eq)
  have "index s mod 4 \<noteq> 0" using Suc.prems(2,3) by presburger
  then have "CreatePadding s = Option.bind (emit [0] s) CreatePadding"
    by (subst CreatePadding.simps) (simp add: emit_def advance_def split: option.splits)
  also have "\<dots> = Option.bind (emit [0] s) (emit (replicate k 0))"
    using Suc.IH [of s'] Suc.prems s' by simp
  finally show ?case by (simp add: emit_emit)
qed

lemma emit_padding:
  assumes "index s + length bs + k \<le> length (buffer s)" "(index s + length bs + k) mod 4 = 0" "k < 4"
    "n = index s + length bs + k"
  shows "Option.bind (emit bs s) (\<lambda>s. Option.bind (CreatePadding s) (check_index n)) = emit (bs @ replicate k 0) s"
proof -
  have "Option.bind (emit bs s) CreatePadding = Option.bind (emit bs s) (emit (replicate k 0))"
    using assms(1-3) by (intro emit_bind_cong CreatePadding_emit) simp_all
  then have "Option.bind (emit bs s) CreatePadding = emit (bs @ replicate k 0) s" by (simp add: emit_emit)
  then show ?thesis
    using emit_check_index [of n s "bs @ replicate k 0"] assms(4) by (simp flip: Option.bind_assoc)
qed

lemma CreateChunk_emit: "CreateChunk c s = emit (WriteBigEndian 2 c) s"
  by (simp add: CreateChunk_def out_simps)

lemma CreateDelta_emit: "CreateDelta p s = emit (delta_wire p) s"
  by (simp add: CreateDelta_def delta_wire_def Let_def out_simps)

interpretation transport: rtcp_packet TransportFeedback_wf TransportFeedback_BlockLength
  TransportFeedback_wire TransportFeedback_Create
proof unfold_locales
  fix p assume wf: "TransportFeedback_wf p"
  note len = TransportFeedback_lengths [OF wf]
  show "length (TransportFeedback_wire p) = TransportFeedback_BlockLength p"
    using len by (simp add: TransportFeedback_wire_def TransportFeedback_body_def)
  show "4 dvd TransportFeedback_BlockLength p" "4 \<le> TransportFeedback_BlockLength p" using len by simp_all
next
  fix p maxlen s assume wf: "TransportFeedback_wf p" and out: "out_ok maxlen s"
  note len = TransportFeedback_lengths [OF wf]
  obtain c where c: "EncodeLast (tf_last_chunk p) = Some c" "lc_size (tf_last_chunk p) \<noteq> 0"
    "tf_chunks p = tf_encoded_chunks p @ [c]" using wf_last [OF wf] by metis
  let ?bs = "header_bytes 15 205 (HeaderLength (TransportFeedback_BlockLength p)) @ TransportFeedback_fields p @
    concat (map (WriteBigEndian 2) (tf_chunks p)) @ concat (map delta_wire (tf_packets p))"
  have "tf_num_seq_no p \<noteq> 0" using wf by (simp add: TransportFeedback_wf_def)
  moreover have "Option.bind (emit ?bs s') (\<lambda>s. Option.bind (CreatePadding s)
      (check_index (index s' + TransportFeedback_BlockLength p))) = emit (TransportFeedback_wire p) s'"
    if "index s' + TransportFeedback_BlockLength p \<le> maxlen" "out_ok maxlen s'" for s'
  proof -
    have wire: "TransportFeedback_wire p = ?bs @ replicate (TransportFeedback_pad p) 0"
      by (simp add: TransportFeedback_wire_def TransportFeedback_body_def)
    have total: "index s' + length ?bs + TransportFeedback_pad p = index s' + TransportFeedback_BlockLength p"
      using len by simp
    have "(index s' + TransportFeedback_BlockLength p) mod 4 = 0"
      using that(2) len(5) by (simp add: out_ok_def flip: dvd_eq_mod_eq_0)
    moreover have "index s' + TransportFeedback_BlockLength p \<le> length (buffer s')"
      using that by (simp add: out_ok_def)
    ultimately show ?thesis unfolding wire by (intro emit_padding) (simp_all only: total len(3))
  qed
  ultimately show "TransportFeedback_Create p maxlen s =
      with_room (TransportFeedback_BlockLength p) maxlen (emit (TransportFeedback_wire p)) s"
    using c out unfolding TransportFeedback_Create_def TransportFeedback_fields_def
    by (auto intro!: with_room_cong_ok
        simp: Let_def out_simps CreateChunk_emit CreateDelta_emit LastChunk_Empty_def)
qed

section \<open>Parse reads it back\<close>

lemma drop_chunks:
  assumes "length pre = 16"
  shows "drop (16 + 2 * length cs) (pre @ concat (map (WriteBigEndian 2) (cs @ cs')) @ rest) =
     concat (map (WriteBigEndian 2) cs') @ rest"
  using assms by simp

lemma ParseChunks_wire:
  assumes "chunks_read sc cs lc ds" "length pre = 16"
    and "cs' \<noteq> [] \<longrightarrow> length (concat (map chunk_symbols (butlast (cs @ cs')))) < sc"
    and "sc \<le> length (concat (map chunk_symbols (cs @ cs')))"
    and "pl = pre @ concat (map (WriteBigEndian 2) (cs @ cs')) @ rest"
  shows "\<exists>lc'. ParseChunks sc pl (length pl) (16 + 2 * length cs) ds (with_chunks s cs lc) =
      Some (True, 16 + 2 * length (cs @ cs'), take sc (concat (map chunk_symbols (cs @ cs'))), with_chunks s (cs @ cs') lc') \<and>
      chunks_read sc (cs @ cs') lc' (take sc (concat (map chunk_symbols (cs @ cs'))))"
  using assms(1,3-5)
proof (induction cs' arbitrary: cs lc ds)
  case Nil
  then have ds: "ds = take sc (concat (map chunk_symbols cs))" "length ds = sc" by (simp_all add: chunks_read_def)
  then show ?case using Nil.prems(1) by (subst ParseChunks.simps) auto
next
  case (Cons c cs')
  have "length (concat (map chunk_symbols cs)) < sc"
    using Cons.prems(2) by (simp add: butlast_append split: if_splits)
  then have more: "length ds < sc" using Cons.prems(1) by (simp add: chunks_read_def)
  note step = chunks_read_step [OF Cons.prems(1) more, of c]
  have "drop (16 + 2 * length cs) pl = WriteBigEndian 2 c @ concat (map (WriteBigEndian 2) cs') @ rest"
    using drop_chunks [OF assms(2), of cs "c # cs'" rest] Cons.prems(4) by simp
  then have c: "ReadBigEndian 2 (drop (16 + 2 * length cs) pl) = Some c" by (simp add: wire_simps)
  have "\<not> 16 + 2 * length cs + 2 > length pl" using Cons.prems(4) assms(2) by simp
  then have "ParseChunks sc pl (length pl) (16 + 2 * length cs) ds (with_chunks s cs lc) =
      ParseChunks sc pl (length pl) (16 + 2 * length (cs @ [c])) (ds @ lc_list (LastChunk_Decode c (sc - length ds) lc))
        (with_chunks s (cs @ [c]) (LastChunk_Decode c (sc - length ds) lc))"
    using more c step(2)
    by (subst ParseChunks.simps) (simp add: Let_def LastChunk_AppendTo_eq ac_simps)
  then show ?case using Cons.IH [OF step(1)] Cons.prems(2-4) by simp
qed

lemma ParseDelta_wire:
  assumes "chosen d (rp_delta_ticks p)" "pl = pre @ delta_wire p @ rest" "rp_sequence_number p = seq"
    "\<bar>tf_last_timestamp_us s\<bar> < 2 ^ 62"
  shows "ParseDeltas pl (length pl) (d # ds) (length pre) seq s =
     ParseDeltas pl (length pl) ds (length pre + unat d) (seq + 1) (with_packets s [p])"
proof -
  let ?x = "rp_delta_ticks p"
  have x: "in_int16 ?x" and d: "d = size_of_delta ?x" using assms(1) by (simp_all add: chosen_def)
  have p: "p = \<lparr>rp_sequence_number = seq, rp_delta_ticks = ?x\<rparr>" using assms(3) by simp
  note delta = ParseDelta_eq [OF x assms(4), of seq, folded p]
  show ?thesis
  proof (cases "0 \<le> ?x \<and> ?x \<le> 0xff")
    case True
    then have "byte_at pl (length pre) = Some (word_of_int ?x)" "d = 1" "length pre + 1 \<le> length pl"
      using assms(2) d by (simp_all add: delta_wire_def size_of_delta_def byte_at_def)
    moreover have "uint (word_of_int ?x :: byte) = ?x" using True by (simp add: uint_word_of_int)
    ultimately show ?thesis using delta by simp
  next
    case False
    then have "drop (length pre) pl = WriteBigEndianSigned TYPE(16) 2 ?x @ rest" "d = 2" "length pre + 2 \<le> length pl"
      using assms(2) d by (auto simp: delta_wire_def size_of_delta_def)
    moreover have "ReadBigEndianSigned TYPE(16) 2 (WriteBigEndianSigned TYPE(16) 2 ?x @ rest) = Some ?x"
      using x by (intro ReadBigEndianSigned_WriteBigEndianSigned) (simp_all add: in_int16_def)
    ultimately show ?thesis using delta by simp
  qed
qed

lemma ParseDeltas_wire:
  assumes "matches chosen seq ds ps" "pl = pre @ concat (map delta_wire ps) @ rest"
    "\<bar>tf_last_timestamp_us s\<bar> + 8192000 * int (length ds) < 2 ^ 62"
  shows "ParseDeltas pl (length pl) ds (length pre) seq s =
     Some (True, length pre + symbols_size ds, with_packets s ps)"
  using assms
proof (induction ds arbitrary: seq ps pre s)
  case (Cons d ds)
  show ?case
  proof (cases "d = 0")
    case True
    then show ?thesis using Cons.prems Cons.IH [of "seq + 1" ps pre s] by simp
  next
    case False
    then obtain p ps' where ps: "ps = p # ps'" "chosen d (rp_delta_ticks p)" "matches chosen (seq + 1) ds ps'"
      "rp_sequence_number p = seq" using Cons.prems by (auto split: list.splits)
    have d: "unat d = length (delta_wire p)" using ps(2) by (simp add: length_delta_wire chosen_def)
    have "\<bar>tf_last_timestamp_us s\<bar> < 2 ^ 62" using Cons.prems(3) by simp
    note first = ParseDelta_wire [OF ps(2) _ ps(4) this, of pl pre "concat (map delta_wire ps') @ rest" ds]
    have "\<bar>tf_last_timestamp_us (with_packets s [p])\<bar> + 8192000 * int (length ds) < 2 ^ 62"
      using Cons.prems(3) ps(2) by (auto simp: chosen_def in_int16_def)
    from Cons.IH [OF ps(3) _ this, of "pre @ delta_wire p"] show ?thesis
      using first Cons.prems(2) ps(1) d by (simp add: algebra_simps)
  qed
qed simp

text \<open>The whole trip; a base time of 24 bits or more comes back as a signed 24 bit value.\<close>

lemma length_body:
  assumes "TransportFeedback_wf p"
  shows "length (TransportFeedback_body p) = TransportFeedback_BlockLength p - 4"
    "18 \<le> length (TransportFeedback_body p)" "4 dvd length (TransportFeedback_body p)"
proof -
  note len = TransportFeedback_lengths [OF assms]
  obtain c where c: "tf_chunks p = tf_encoded_chunks p @ [c]" using wf_last [OF assms] by metis
  show eq: "length (TransportFeedback_body p) = TransportFeedback_BlockLength p - 4"
    using len by (simp add: TransportFeedback_body_def)
  show "18 \<le> length (TransportFeedback_body p)" using c by (simp add: TransportFeedback_body_def)
  show "4 dvd length (TransportFeedback_body p)" unfolding eq using len(5) by (simp add: dvd_diff_nat)
qed

lemma ParseStatus_wire:
  assumes wf: "TransportFeedback_wf p" and pl: "pl = TransportFeedback_body p"
    and s: "tf_encoded_chunks s = []" "tf_packets s = []" "length (lc_delta_sizes (tf_last_chunk s)) = 14"
      "tf_base_seq_no s = tf_base_seq_no p" "\<bar>tf_last_timestamp_us s\<bar> < 2 ^ 60"
  shows "\<exists>lc. ParseStatus (unat (tf_num_seq_no p)) pl (length pl) s =
     Some (True, (with_packets (s\<lparr>tf_last_chunk := lc, tf_encoded_chunks := tf_encoded_chunks p,
       tf_num_seq_no := tf_num_seq_no p\<rparr>) (tf_packets p))\<lparr>tf_size_bytes := tf_size_bytes p\<rparr>) \<and>
     lc_list lc = lc_list (tf_last_chunk p)"
proof -
  let ?sc = "unat (tf_num_seq_no p)" and ?cs = "concat (map chunk_symbols (tf_encoded_chunks p))"
  obtain c where c: "take (lc_size (tf_last_chunk p)) (chunk_symbols c) = lc_list (tf_last_chunk p)"
    "lc_size (tf_last_chunk p) \<le> length (chunk_symbols c)" "tf_chunks p = tf_encoded_chunks p @ [c]"
    "lc_size (tf_last_chunk p) \<noteq> 0" using wf_last [OF wf] by metis
  have sym: "length (lc_list (tf_last_chunk p)) = lc_size (tf_last_chunk p)" "?sc = length (tf_symbols p)"
    "matches chosen (tf_base_seq_no p) (tf_symbols p) (tf_packets p)"
    using wf length_lc_list by (simp_all add: TransportFeedback_wf_def tf_inv_def tf_frame_def)
  then have sc: "?sc = length ?cs + lc_size (tf_last_chunk p)" by (simp add: tf_symbols_def)
  define pre where "pre = TransportFeedback_fields p"
  define rest where "rest = concat (map delta_wire (tf_packets p)) @ replicate (TransportFeedback_pad p) 0"
  have pl_eq: "pl = pre @ concat (map (WriteBigEndian 2) (tf_chunks p)) @ rest"
    by (simp add: pl TransportFeedback_body_def pre_def rest_def)
  have start: "chunks_read ?sc [] (tf_last_chunk s) []" using s(3) by (simp add: chunks_read_def)
  have s_eq: "with_chunks s [] (tf_last_chunk s) = s" using s(1) by simp
  have ds: "take ?sc (concat (map chunk_symbols (tf_chunks p))) = tf_symbols p"
    using c sc by (simp add: tf_symbols_def)
  obtain lc where chunks: "ParseChunks ?sc pl (length pl) 16 [] s =
      Some (True, 16 + 2 * length (tf_chunks p), tf_symbols p, with_chunks s (tf_chunks p) lc)"
    and read: "chunks_read ?sc (tf_chunks p) lc (tf_symbols p)"
    using ParseChunks_wire [OF start, of pre "tf_chunks p" pl rest s] c sc pl_eq
    unfolding append_Nil s_eq ds by (auto simp: pre_def)
  have lc: "lc_list lc = lc_list (tf_last_chunk p)" using read c(3) by (simp add: chunks_read_def tf_symbols_def)
  let ?s2 = "s\<lparr>tf_last_chunk := lc, tf_encoded_chunks := tf_encoded_chunks p, tf_num_seq_no := tf_num_seq_no p\<rparr>"
  have "length (tf_symbols p) < 65536" using sym(2) unat_lt_65536 [of "tf_num_seq_no p"] by simp
  then have "\<bar>tf_last_timestamp_us ?s2\<bar> + 8192000 * int (length (tf_symbols p)) < 2 ^ 62" using s(5) by simp
  from ParseDeltas_wire [OF sym(3) _ this, of pl "pre @ concat (map (WriteBigEndian 2) (tf_chunks p))"]
  have deltas: "ParseDeltas pl (length pl) (tf_symbols p) (16 + 2 * length (tf_chunks p)) (tf_base_seq_no p) ?s2 =
      Some (True, 16 + 2 * length (tf_chunks p) + symbols_size (tf_symbols p), with_packets ?s2 (tf_packets p))"
    using pl_eq by (simp add: pre_def rest_def)
  have size: "16 + 2 * length (tf_chunks p) + symbols_size (tf_symbols p) + 4 = tf_size_bytes p"
    "16 + 2 * length (tf_chunks p) + symbols_size (tf_symbols p) \<le> length pl"
    using TransportFeedback_lengths(1) [OF wf] length_deltas [OF sym(3)] pl_eq by (simp_all add: pre_def rest_def)
  have ne: "tf_chunks p \<noteq> []" "butlast (tf_chunks p) = tf_encoded_chunks p" using c(3) by simp_all
  show ?thesis
    unfolding ParseStatus_def chunks using deltas size ne sym(2) [symmetric] s(4) lc
    by (intro exI [of _ lc]) (simp add: Let_def add.commute [of 4])
qed

text \<open>What the accessors of two objects show.\<close>

definition same_report :: "transport_feedback \<Rightarrow> transport_feedback \<Rightarrow> bool" where
  "same_report p q \<longleftrightarrow> fb_sender_ssrc p = fb_sender_ssrc q \<and> fb_media_ssrc p = fb_media_ssrc q \<and>
     tf_base_seq_no p = tf_base_seq_no q \<and> tf_num_seq_no p = tf_num_seq_no q \<and>
     tf_feedback_seq p = tf_feedback_seq q \<and> tf_packets p = tf_packets q \<and> tf_symbols p = tf_symbols q \<and>
     tf_size_bytes p = tf_size_bytes q"

lemma Parse_wire:
  assumes wf: "TransportFeedback_wf p" and h: "payload h = TransportFeedback_body p"
    "ch_payload_size h = length (TransportFeedback_body p)" "ch_packet_type h = 205" "ch_count_or_format h = 15"
    and s: "length (lc_delta_sizes (tf_last_chunk s)) = 14"
  shows "\<exists>s'. TransportFeedback_Parse h s = Some (True, s') \<and> same_report s' p \<and>
     tf_base_time_ticks s' = signed_take_bit 23 (tf_base_time_ticks p)"
proof -
  let ?t = "signed_take_bit 23 (tf_base_time_ticks p)"
  define pl where "pl = TransportFeedback_body p"
  define s0 where "s0 = TransportFeedback_Clear (s\<lparr>fb_sender_ssrc := fb_sender_ssrc p,
     fb_media_ssrc := fb_media_ssrc p, tf_base_seq_no := tf_base_seq_no p, tf_base_time_ticks := ?t,
     tf_feedback_seq := tf_feedback_seq p\<rparr>)"
  have t: "- (2 ^ 31) \<le> ?t" "?t < 2 ^ 31"
    using signed_take_bit_int_greater_eq_minus_exp [of 23 "tf_base_time_ticks p"]
      signed_take_bit_int_less_exp [of 23 "tf_base_time_ticks p"] by simp_all
  have "tf_last_timestamp_us s0 = ?t * 64000"
    unfolding s0_def TransportFeedback_Clear_def using t by (simp add: GetBaseTimeUs_eq)
  then have "\<bar>tf_last_timestamp_us s0\<bar> < 2 ^ 60" using t by simp
  moreover have s0: "tf_encoded_chunks s0 = []" "tf_packets s0 = []" "length (lc_delta_sizes (tf_last_chunk s0)) = 14"
    "tf_base_seq_no s0 = tf_base_seq_no p"
    using s by (simp_all add: s0_def TransportFeedback_Clear_def LastChunk_Clear_def)
  ultimately obtain lc where status: "ParseStatus (unat (tf_num_seq_no p)) pl (length pl) s0 =
     Some (True, (with_packets (s0\<lparr>tf_last_chunk := lc, tf_encoded_chunks := tf_encoded_chunks p,
       tf_num_seq_no := tf_num_seq_no p\<rparr>) (tf_packets p))\<lparr>tf_size_bytes := tf_size_bytes p\<rparr>)"
     "lc_list lc = lc_list (tf_last_chunk p)"
    using ParseStatus_wire [OF wf pl_def] by blast
  have nz: "unat (tf_num_seq_no p) \<noteq> 0" using wf by (simp add: TransportFeedback_wf_def unat_eq_zero)
  have "ReadBigEndianSigned TYPE(32) 3 (WriteBigEndianSigned TYPE(32) 3 (tf_base_time_ticks p) @ rest) = Some ?t" for rest
    by (subst ReadBigEndianSigned_WriteBigEndianSigned_wrap) simp_all
  then have "TransportFeedback_Parse h s = ParseStatus (unat (tf_num_seq_no p)) pl (length pl) s0"
    using nz length_body(2) [OF wf] h
    by (simp add: TransportFeedback_Parse_def pl_def [symmetric] Let_def s0_def)
      (simp add: pl_def TransportFeedback_body_def TransportFeedback_fields_def wire_simps byte_at_def nth_append)
  then show ?thesis using status s0
    by (simp add: same_report_def tf_symbols_def) (simp add: s0_def TransportFeedback_Clear_def)
qed

lemma ParseFrom_wire:
  assumes wf: "TransportFeedback_wf p" and mem: "length mem = 14"
  shows "\<exists>s'. TransportFeedback_ParseFrom mem (TransportFeedback_wire p) = Some (Some s') \<and> same_report s' p \<and>
     tf_base_time_ticks s' = signed_take_bit 23 (tf_base_time_ticks p)"
proof -
  note len = length_body [OF wf] TransportFeedback_lengths(4) [OF wf]
  obtain k where k: "length (TransportFeedback_body p) = 4 * k" using len(3) by (auto simp: dvd_def)
  have "HeaderLength (TransportFeedback_BlockLength p) = k"
    using len k by (simp add: HeaderLength_def)
  then have "CommonHeader_Parse (TransportFeedback_wire p) = Some (Inr \<lparr>ch_packet_type = 205,
      ch_count_or_format = 15, ch_padding_size = 0, ch_payload_size = 4 * k,
      ch_payload_ptr = TransportFeedback_body p\<rparr>)" (is "_ = Some (Inr ?h)")
    using CommonHeader_Parse_header_bytes [of 15 k "TransportFeedback_body p" 205 "[]"] len k
    by (simp add: TransportFeedback_wire_def)
  moreover have "\<exists>s'. TransportFeedback_Parse ?h (TransportFeedback_new mem) = Some (True, s') \<and> same_report s' p \<and>
     tf_base_time_ticks s' = signed_take_bit 23 (tf_base_time_ticks p)"
    using mem k by (intro Parse_wire [OF wf])
      (simp_all add: payload_def TransportFeedback_new_def LastChunk_new_def LastChunk_Clear_def)
  ultimately show ?thesis by (auto simp: TransportFeedback_ParseFrom_def)
qed

section \<open>The status vector\<close>

definition symbol_of :: "byte \<Rightarrow> status_symbol" where
  "symbol_of d = (if d = 0 then kNotReceived else if d = 1 then kReceivedSmallDelta else kReceivedLargeDelta)"

lemma symbol_of_simps [simp]:
  "symbol_of 0 = kNotReceived"
  "symbol_of (size_of_delta x) = (if 0 \<le> x \<and> x \<le> 0xff then kReceivedSmallDelta else kReceivedLargeDelta)"
  by (simp_all add: symbol_of_def size_of_delta_def)

lemma matches_first:
  "matches R seq ds (p # ps) \<Longrightarrow> \<exists>j < length ds. rp_sequence_number p = seq + of_nat j"
proof (induction ds arbitrary: seq)
  case (Cons d ds)
  show ?case
  proof (cases "d = 0")
    case True
    then obtain j where "j < length ds" "rp_sequence_number p = seq + 1 + of_nat j"
      using Cons.prems Cons.IH [of "seq + 1"] by auto
    then show ?thesis by (intro exI [of _ "Suc j"]) (simp add: ac_simps)
  qed (use Cons.prems in auto)
qed simp

lemma StatusGap_next:
  assumes "seq' = seq + 1 + of_nat j" "j < 65535"
  shows "StatusGap seq seq' = kNotReceived # StatusGap (seq + 1) seq'"
proof -
  have "unat (of_nat (Suc j) :: uint16) = Suc j" using assms(2) by (subst unat_of_nat) simp
  then have "(of_nat (Suc j) :: uint16) \<noteq> 0" by (metis nat.distinct(1) unat_0)
  then have "seq \<noteq> seq'" using assms(1) by (simp add: add.assoc)
  then show ?thesis by (subst StatusGap.simps) simp
qed

lemma StatusVector_symbols:
  assumes "matches chosen seq ds ps" "length ds < 65536"
  shows "\<exists>k. map symbol_of ds = StatusVector_from seq ps @ replicate k kNotReceived"
  using assms
proof (induction ds arbitrary: seq ps)
  case (Cons d ds)
  have small: "length ds < 65535" using Cons.prems(2) by simp
  show ?case
  proof (cases "d = 0")
    case True
    then have m: "matches chosen (seq + 1) ds ps" using Cons.prems(1) by simp
    then obtain k where k: "map symbol_of ds = StatusVector_from (seq + 1) ps @ replicate k kNotReceived"
      using Cons.IH [of "seq + 1" ps] Cons.prems(2) by auto
    show ?thesis
    proof (cases ps)
      case Nil
      then show ?thesis using k True by (intro exI [of _ "Suc k"]) simp
    next
      case (Cons p ps')
      then obtain j where j: "j < length ds" "rp_sequence_number p = seq + 1 + of_nat j"
        using matches_first m by blast
      then have "StatusVector_from seq ps = kNotReceived # StatusVector_from (seq + 1) ps"
        using StatusGap_next [OF j(2)] small Cons by simp
      then show ?thesis using k True by (intro exI [of _ k]) simp
    qed
  next
    case False
    then obtain p ps' where ps: "ps = p # ps'" "rp_sequence_number p = seq" "chosen d (rp_delta_ticks p)"
      "matches chosen (seq + 1) ds ps'" using Cons.prems(1) by (auto split: list.splits)
    then obtain k where k: "map symbol_of ds = StatusVector_from (seq + 1) ps' @ replicate k kNotReceived"
      using Cons.IH [of "seq + 1" ps'] Cons.prems(2) by auto
    have "StatusGap seq seq = []" by (subst StatusGap.simps) simp
    moreover have "symbol_of d = (if 0 \<le> rp_delta_ticks p \<and> rp_delta_ticks p \<le> 0xff then kReceivedSmallDelta
      else kReceivedLargeDelta)" using ps(3) by (simp add: chosen_def)
    ultimately show ?thesis using k ps by (intro exI [of _ k]) simp
  qed
qed simp

end
