(* ===== verification/TransportReach.thy ===== *)
theory TransportReach
  imports TransportWire
begin

text \<open>
  The life of a \<open>TransportFeedback\<close> object as a transition system: construction, the setters,
  \<open>AddReceivedPacket\<close> and \<open>Parse\<close> in any order. Reachable objects satisfy the invariant, so the
  theorems about single calls hold for every use of the class.
\<close>

section \<open>Transitions\<close>

text \<open>The calls that build a packet; time stamps stay within \<open>2 ^ 62\<close> microseconds.\<close>

inductive tf_step :: "transport_feedback \<Rightarrow> transport_feedback \<Rightarrow> bool" where
  set_base: "TransportFeedback_SetBase b ref s = Some s' \<Longrightarrow> tf_step s s'"
| set_feedback: "tf_step s (TransportFeedback_SetFeedbackSequenceNumber n s)"
| set_sender: "tf_step s (Rtpfb_SetSenderSsrc ssrc s)"
| set_media: "tf_step s (Rtpfb_SetMediaSsrc ssrc s)"
| add_packet: "\<bar>ts\<bar> \<le> 2 ^ 62 \<Longrightarrow> AddReceivedPacket seq ts s = Some (ok, s') \<Longrightarrow> tf_step s s'"

text \<open>Objects on the sending side, and objects that may also have been filled by \<open>Parse\<close>.\<close>

inductive tf_built :: "transport_feedback \<Rightarrow> bool" where
  built_new: "length mem = 14 \<Longrightarrow> tf_built (TransportFeedback_new mem)"
| built_step: "tf_built s \<Longrightarrow> tf_step s s' \<Longrightarrow> tf_built s'"

inductive tf_reachable :: "transport_feedback \<Rightarrow> bool" where
  reach_new: "length mem = 14 \<Longrightarrow> tf_reachable (TransportFeedback_new mem)"
| reach_step: "tf_reachable s \<Longrightarrow> tf_step s s' \<Longrightarrow> tf_reachable s'"
| reach_parse: "tf_reachable s \<Longrightarrow> valid_header h \<Longrightarrow> ch_payload_size h \<le> 262140 \<Longrightarrow>
    TransportFeedback_Parse h s = Some (ok, s') \<Longrightarrow> tf_reachable s'"

section \<open>The invariant of reachable objects\<close>

lemma tf_inv_fields [simp]:
  "tf_inv R (s\<lparr>tf_feedback_seq := n\<rparr>) = tf_inv R s" "tf_inv R (s\<lparr>fb_sender_ssrc := a\<rparr>) = tf_inv R s"
  "tf_inv R (s\<lparr>fb_media_ssrc := b\<rparr>) = tf_inv R s"
  by (simp_all add: tf_inv_def tf_frame_def tf_symbols_def tf_time_def tf_chunk_bytes_def)

context delta_relation
begin

lemma step_inv:
  assumes "tf_step s s'" "tf_inv R s"
  shows "tf_inv R s'"
  using assms
proof cases
  case (add_packet ts seq ok)
  then show ?thesis using AddReceivedPacket_inv [OF assms(2), of ts seq] by auto
qed (simp_all add: SetBase_inv(1) [OF assms(2)] TransportFeedback_SetFeedbackSequenceNumber_def
    Rtpfb_SetSenderSsrc_def Rtpfb_SetMediaSsrc_def assms(2))

end

lemma built_inv: "tf_built s \<Longrightarrow> tf_inv chosen s"
  by (induction rule: tf_built.induct) (auto intro: new_inv chosen.step_inv)

lemma tf_inv_array: "tf_inv R s \<Longrightarrow> length (lc_delta_sizes (tf_last_chunk s)) = 14"
  by (simp add: tf_inv_def tf_frame_def lc_ok_def)

lemma reachable_inv: "tf_reachable s \<Longrightarrow> tf_inv carries s"
proof (induction rule: tf_reachable.induct)
  case (reach_parse s h ok s')
  then have "ch_packet_type h = 205" "ch_count_or_format h = 15"
    by (auto simp: TransportFeedback_Parse_def split: if_splits)
  then show ?case using Parse_inv [OF reach_parse(2,3) tf_inv_array [OF reach_parse.IH]] reach_parse
    by (metis option.inject prod.inject)
qed (auto intro: new_inv carried.step_inv)

lemma built_wf: "tf_built s \<Longrightarrow> tf_num_seq_no s \<noteq> 0 \<Longrightarrow> TransportFeedback_wf s"
  by (simp add: TransportFeedback_wf_def built_inv)

section \<open>An in-order packet is accepted\<close>

lemma AddDeltaSize_accepts:
  assumes "tf_frame s" "d \<le> 2" "tf_num_seq_no s \<noteq> 0xffff" "tf_size_bytes s \<le> 262140"
  obtains s' where "AddDeltaSize d s = Some (True, s')" "adds d s s'"
proof -
  obtain ok s' where add: "AddDeltaSize d s = Some (ok, s')" "if ok then adds d s s' else s' = s"
    using AddDeltaSize_adds [OF assms(1,2)] by blast
  have "unat (tf_num_seq_no s) \<noteq> 65535" using assms(3) by (simp add: word_unat_eq_iff)
  moreover have "unat d \<le> 2" using assms(2) by (simp add: word_le_nat_alt)
  ultimately have ok using add(1) assms(4)
    by (auto simp: AddDeltaSize_def Let_def split: if_splits Option.bind_splits)
  then show ?thesis using add that by simp
qed

lemma to_int16_id: "in_int16 x \<Longrightarrow> to_int16 x = x"
  by (simp add: to_int16_def in_int16_def sint_sbintrunc' signed_take_bit_int_eq_self_iff)

lemma AddReceivedPacket_in_order:
  assumes inv: "tf_inv chosen s" and ts: "\<bar>ts\<bar> \<le> 2 ^ 62"
    and room: "tf_num_seq_no s \<noteq> 0xffff" "tf_size_bytes s \<le> 262140"
    and ticks: "in_int16 (ticks_of (ts - tf_last_timestamp_us s))"
  shows "\<exists>s'. AddReceivedPacket (tf_base_seq_no s + tf_num_seq_no s) ts s = Some (True, s')"
proof -
  let ?x = "ticks_of (ts - tf_last_timestamp_us s)" and ?seq = "tf_base_seq_no s + tf_num_seq_no s"
  have "int64 (ts - tf_last_timestamp_us s) = Some (ts - tf_last_timestamp_us s)"
    using chosen.last_timestamp_bound [OF inv] ts by (rule chosen.int64_close)
  note eq = AddReceivedPacket_eq [OF this refl refl, of ?seq]
  obtain ok s' where res: "AddReceivedPacket ?seq ts s = Some (ok, s')"
    using chosen.AddReceivedPacket_inv [OF inv ts] by blast
  have "size_of_delta ?x \<le> 2" by (simp add: size_of_delta_def)
  then obtain t where "AddDeltaSize (size_of_delta ?x) s = Some (True, t)"
    using AddDeltaSize_accepts room inv by (metis tf_inv_def)
  then have ok using res eq to_int16_id [OF ticks] by (auto split: Option.bind_splits if_splits)
  then show ?thesis using res by auto
qed

section \<open>Examples\<close>

definition zeros14 :: "byte list" where
  "zeros14 = [0, 0, 0, 0, 0, 0, 0, 0, 0, 0, 0, 0, 0, 0]"

lemma length_zeros14 [simp]: "length zeros14 = 14"
  by (simp add: zeros14_def)

text \<open>Packet 2 arrives 900 ms after the base time; packets 0 and 1 are missing.\<close>

definition example_feedback :: transport_feedback where
  "example_feedback = \<lparr>fb_sender_ssrc = 0, fb_media_ssrc = 0, tf_base_seq_no = 0,
     tf_num_seq_no = 3, tf_base_time_ticks = 0, tf_feedback_seq = 0, tf_last_timestamp_us = 900000,
     tf_packets = [\<lparr>rp_sequence_number = 2, rp_delta_ticks = 3600\<rparr>], tf_encoded_chunks = [],
     tf_last_chunk = \<lparr>lc_delta_sizes = [0, 0, 2, 0, 0, 0, 0, 0, 0, 0, 0, 0, 0, 0], lc_size = 3,
       lc_all_same = False, lc_has_large_delta = True\<rparr>, tf_size_bytes = 24\<rparr>"

lemma example_added:
  "AddReceivedPacket 2 900000 (TransportFeedback_new zeros14) = Some (True, example_feedback)"
  by (simp add: AddReceivedPacket_def TransportFeedback_new_def int64_def to_int16_def AddMissing.simps
      IsNewerSequenceNumber_def AddDeltaSize_def LastChunk_new_def LastChunk_Clear_def LastChunk_Empty_def
      LastChunk_CanAdd_def LastChunk_Add_def byte_at_def example_feedback_def zeros14_def)

lemma example_built: "tf_built example_feedback"
  by (rule built_step [OF built_new [of zeros14] add_packet [OF _ example_added]]) simp_all

lemma example_reachable: "tf_reachable example_feedback"
  by (rule reach_step [OF reach_new [of zeros14] add_packet [OF _ example_added]]) simp_all

text \<open>Received packets whose deltas would fit in one byte but are sent in two.\<close>

definition large_delta_packet :: "byte list" where
  "large_delta_packet = [0x8f, 205, 0, 5, 0, 0, 0, 1, 0, 0, 0, 2, 0, 7, 0, 1, 0, 0, 0, 9, 0x40, 1, 0, 5]"

definition large_delta_packets :: "byte list" where
  "large_delta_packets = [0x8f, 205, 0, 7, 0, 0, 0, 1, 0, 0, 0, 2, 0, 7, 0, 4, 0, 0, 0, 9, 0x40, 4,
     0, 5, 0, 5, 0, 5, 0, 5, 0, 0]"

section \<open>Properties\<close>

text \<open>
  C2. Whatever sequence of setters, \<open>AddReceivedPacket\<close> and \<open>Parse\<close> calls an object has been
  through, successful or not, \<open>IsConsistent\<close> returns true: the chunks decode to as many symbols as
  \<open>num_seq_no_\<close>, they account for the packets, the size and the time of the last packet.
\<close>

theorem TransportFeedback_always_consistent:
  assumes "tf_reachable s" "length mem = 14"
  shows "IsConsistent mem s = Some True"
  using reachable_inv [OF assms(1)] assms(2) by (rule tf_inv_IsConsistent)

theorem TransportFeedback_always_consistent_witness:
  "tf_reachable example_feedback \<and> IsConsistent zeros14 example_feedback = Some True"
  using TransportFeedback_always_consistent [OF example_reachable length_zeros14] example_reachable by simp





text \<open>
  C18. The next packet in order is always accepted while the feedback holds fewer than 65535
  symbols and four bytes of room, provided its delta fits in 16 bits.
\<close>

theorem AddReceivedPacket_accepts:
  assumes "tf_built s" "\<bar>ts\<bar> \<le> 2 ^ 62" "tf_num_seq_no s \<noteq> 0xffff" "tf_size_bytes s \<le> 262140"
    "in_int16 (ticks_of (ts - tf_last_timestamp_us s))"
  shows "\<exists>s'. AddReceivedPacket (tf_base_seq_no s + tf_num_seq_no s) ts s = Some (True, s')"
  using built_inv [OF assms(1)] assms(2-5) by (rule AddReceivedPacket_in_order)

theorem AddReceivedPacket_accepts_witness: "\<exists>s'. AddReceivedPacket 3 905000 example_feedback = Some (True, s')"
  using AddReceivedPacket_accepts [OF example_built, of 905000]
  by (simp add: example_feedback_def in_int16_def ticks_of_def)

text \<open>
  C4. Every non-empty feedback packet that was built with the setters survives \<open>Build\<close> and
  \<open>ParseFrom\<close>: the SSRCs, the base sequence number, the feedback sequence number, the packets with
  their deltas, the status symbols and the size come back; the base time comes back as a signed 24 bit value.
\<close>

theorem TransportFeedback_round_trip:
  assumes "tf_built s" "tf_num_seq_no s \<noteq> 0" "length mem = TransportFeedback_BlockLength s" "length mem' = 14"
  shows "\<exists>bs s'. Build (TransportFeedback_Create s) mem = Some bs \<and> TransportFeedback_ParseFrom mem' bs = Some (Some s') \<and>
     same_report s' s \<and> tf_base_time_ticks s' = signed_take_bit 23 (tf_base_time_ticks s)"
  using transport.Build_wire [OF built_wf [OF assms(1,2)] assms(3)]
    ParseFrom_wire [OF built_wf [OF assms(1,2)] assms(4)] by blast

theorem TransportFeedback_round_trip_witness:
  "\<exists>bs s'. Build (TransportFeedback_Create example_feedback) (replicate 24 0) = Some bs \<and>
     TransportFeedback_ParseFrom zeros14 bs = Some (Some s') \<and> same_report s' example_feedback \<and>
     tf_base_time_ticks s' = signed_take_bit 23 (tf_base_time_ticks example_feedback)"
  using TransportFeedback_round_trip [OF example_built, of "replicate 24 0" zeros14]
  by (simp add: example_feedback_def TransportFeedback_BlockLength_def)

text \<open>
  C19. \<open>Create\<close> implements the abstract append: it adds the wire format to the output, after
  flushing the filled part to the callback when it does not fit, fails only when an empty buffer is
  too small, and its final assertion on the position never fails.
\<close>

theorem TransportFeedback_Create_refines:
  assumes "tf_built p" "tf_num_seq_no p \<noteq> 0" "out_ok maxlen s"
  shows "map_option (map_prod id out_abs) (TransportFeedback_Create p maxlen s) =
     spec_append (TransportFeedback_wire p) maxlen (callback s) (out_abs s)"
  using built_wf [OF assms(1,2)] assms(3) by (rule transport.Create_refines)

theorem TransportFeedback_Create_refines_witness:
  "map_option (map_prod id out_abs) (TransportFeedback_Create example_feedback 40
      \<lparr>buffer = replicate 40 0, index = 20, callback = True, ready = []\<rparr>) =
     spec_append (TransportFeedback_wire example_feedback) 40 True
      (out_abs \<lparr>buffer = replicate 40 0, index = 20, callback = True, ready = []\<rparr>)"
  using TransportFeedback_Create_refines [OF example_built, of 40
      "\<lparr>buffer = replicate 40 0, index = 20, callback = True, ready = []\<rparr>"]
  by (simp add: example_feedback_def out_ok_def)

text \<open>
  C20. \<open>GetStatusVector\<close> recovers the status symbols from the packet list alone: one entry per
  symbol that was encoded, up to trailing packets that were not received.
\<close>

theorem GetStatusVector_symbols:
  assumes "tf_built s"
  shows "\<exists>k. map symbol_of (tf_symbols s) = GetStatusVector s @ replicate k kNotReceived"
proof -
  have inv: "tf_inv chosen s" using assms by (rule built_inv)
  then have "length (tf_symbols s) < 65536"
    using unat_lt_65536 [of "tf_num_seq_no s"] by (simp add: tf_inv_def tf_frame_def)
  then show ?thesis using inv StatusVector_symbols by (simp add: tf_inv_def GetStatusVector_def)
qed

theorem GetStatusVector_symbols_witness:
  "\<exists>k. map symbol_of [0, 0, 2] = GetStatusVector example_feedback @ replicate k kNotReceived"
  using GetStatusVector_symbols [OF example_built]
  by (simp add: example_feedback_def tf_symbols_def lc_list_def)

text \<open>
  C21. \<open>ParseFrom\<close> is total on every received buffer, and what it accepts is a consistent feedback
  packet that reports at least one status.
\<close>

theorem TransportFeedback_ParseFrom_total:
  assumes "length mem = 14"
  shows "case TransportFeedback_ParseFrom mem buf of None \<Rightarrow> False | Some None \<Rightarrow> True
     | Some (Some s) \<Rightarrow> IsConsistent mem s = Some True \<and> tf_num_seq_no s \<noteq> 0"
proof -
  obtain r where r: "CommonHeader_Parse buf = Some r" using CommonHeader_Parse_no_fault by blast
  consider (error) e where "r = Inl e" | (other) h where "r = Inr h" "ch_packet_type h \<noteq> 205 \<or> ch_count_or_format h \<noteq> 15"
    | (feedback) h where "r = Inr h" "ch_packet_type h = 205" "ch_count_or_format h = 15" by (cases r) auto
  then show ?thesis
  proof cases
    case (feedback h)
    have "valid_header h" "ch_payload_size h \<le> 262140"
      using CommonHeader_Parse_valid(1) CommonHeader_Parse_payload_bound r feedback(1) by simp_all
    then obtain ok s where s: "TransportFeedback_Parse h (TransportFeedback_new mem) = Some (ok, s)"
      "ok \<longrightarrow> tf_num_seq_no s \<noteq> 0" "if ch_payload_size h < 18 then \<not> ok \<and> s = TransportFeedback_new mem else tf_inv carries s"
      using Parse_inv [of h "TransportFeedback_new mem"] tf_inv_array [OF new_inv [OF assms]] feedback(2,3) by metis
    then have "ok \<Longrightarrow> IsConsistent mem s = Some True" using assms
      by (intro tf_inv_IsConsistent) (auto split: if_splits)
    then show ?thesis using r feedback s by (simp add: TransportFeedback_ParseFrom_def)
  qed (use r in \<open>auto simp: TransportFeedback_ParseFrom_def\<close>)
qed

theorem TransportFeedback_ParseFrom_total_witness:
  "case TransportFeedback_ParseFrom zeros14 large_delta_packet of None \<Rightarrow> False | Some None \<Rightarrow> True
     | Some (Some s) \<Rightarrow> IsConsistent zeros14 s = Some True \<and> tf_num_seq_no s \<noteq> 0"
  by (rule TransportFeedback_ParseFrom_total) simp


end
