(* ===== verification/RtcBuffer.thy ===== *)
theory RtcBuffer
  imports Prelude
begin

text \<open>
  \<open>rtc::Buffer\<close> of \<open>base/buffer.h\<close>, for bytes: an allocated array of \<open>capacity_\<close> elements of which
  the first \<open>size_\<close> are in use. Memory fresh from \<open>new T[n]\<close> has unspecified contents; the
  allocator is a parameter \<open>fresh\<close>, of which only the number of elements is known.
\<close>

section \<open>Model\<close>

text \<open>\<open>rb_data\<close> is the whole allocation, so that \<open>capacity_\<close> is its length.\<close>

record rtc_buffer =
  rb_size :: nat
  rb_data :: "byte list"

type_synonym allocator = "nat \<Rightarrow> byte list"

definition Buffer_capacity :: "rtc_buffer \<Rightarrow> nat" where
  "Buffer_capacity b = length (rb_data b)"

definition Buffer_IsConsistent :: "rtc_buffer \<Rightarrow> bool" where
  "Buffer_IsConsistent b \<longleftrightarrow> Buffer_capacity b \<ge> rb_size b"

definition Buffer_new :: "allocator \<Rightarrow> nat \<Rightarrow> nat \<Rightarrow> rtc_buffer" where
  "Buffer_new fresh sz capacity = \<lparr>rb_size = sz, rb_data = fresh (max sz capacity)\<rparr>"

text \<open>A pointer and a size that are copied from are the list of the bytes they denote.\<close>

definition Buffer_copy :: "allocator \<Rightarrow> byte list \<Rightarrow> nat \<Rightarrow> rtc_buffer" where
  "Buffer_copy fresh bs capacity =
     (let b = Buffer_new fresh (length bs) capacity in b\<lparr>rb_data := splice_at 0 bs (rb_data b)\<rparr>)"

definition EnsureCapacityWithHeadroom :: "allocator \<Rightarrow> nat \<Rightarrow> bool \<Rightarrow> rtc_buffer \<Rightarrow> rtc_buffer" where
  "EnsureCapacityWithHeadroom fresh capacity extra_headroom b =
     (if capacity \<le> Buffer_capacity b then b
      else
        let new_capacity = (if extra_headroom then max capacity (Buffer_capacity b + Buffer_capacity b div 2)
                            else capacity)
        in b\<lparr>rb_data := splice_at 0 (take (rb_size b) (rb_data b)) (fresh new_capacity)\<rparr>)"

definition Buffer_AppendData :: "allocator \<Rightarrow> byte list \<Rightarrow> rtc_buffer \<Rightarrow> rtc_buffer" where
  "Buffer_AppendData fresh bs b =
     (let new_size = rb_size b + length bs;
          b = EnsureCapacityWithHeadroom fresh new_size True b
      in b\<lparr>rb_data := splice_at (rb_size b) bs (rb_data b), rb_size := new_size\<rparr>)"

definition Buffer_SetData :: "allocator \<Rightarrow> byte list \<Rightarrow> rtc_buffer \<Rightarrow> rtc_buffer" where
  "Buffer_SetData fresh bs b = Buffer_AppendData fresh bs (b\<lparr>rb_size := 0\<rparr>)"

definition Buffer_SetSize :: "allocator \<Rightarrow> nat \<Rightarrow> rtc_buffer \<Rightarrow> rtc_buffer" where
  "Buffer_SetSize fresh sz b = (EnsureCapacityWithHeadroom fresh sz True b)\<lparr>rb_size := sz\<rparr>"

definition Buffer_EnsureCapacity :: "allocator \<Rightarrow> nat \<Rightarrow> rtc_buffer \<Rightarrow> rtc_buffer" where
  "Buffer_EnsureCapacity fresh capacity b = EnsureCapacityWithHeadroom fresh capacity False b"

definition Buffer_Clear :: "rtc_buffer \<Rightarrow> rtc_buffer" where
  "Buffer_Clear b = b\<lparr>rb_size := 0\<rparr>"

definition Buffer_equals :: "rtc_buffer \<Rightarrow> rtc_buffer \<Rightarrow> bool" where
  "Buffer_equals b c \<longleftrightarrow> rb_size b = rb_size c \<and>
     take (rb_size b) (rb_data b) = take (rb_size b) (rb_data c)"

definition Buffer_at :: "rtc_buffer \<Rightarrow> nat \<Rightarrow> byte option" where
  "Buffer_at b index = (if index < rb_size b then byte_at (rb_data b) index else None)"

text \<open>
  \<open>AppendData\<close> with a callback: \<open>setter\<close> gets the uninitialised area and returns it as it left it
  together with the number of elements it wrote.
\<close>

definition Buffer_AppendData_setter ::
  "allocator \<Rightarrow> nat \<Rightarrow> (byte list \<Rightarrow> nat \<times> byte list) \<Rightarrow> rtc_buffer \<Rightarrow> (nat \<times> rtc_buffer) option" where
  "Buffer_AppendData_setter fresh max_elements setter b =
     (let old_size = rb_size b;
          b = Buffer_SetSize fresh (old_size + max_elements) b;
          (written_elements, area) = setter (take max_elements (drop old_size (rb_data b)));
          b = b\<lparr>rb_data := splice_at old_size area (rb_data b)\<rparr>
      in if written_elements \<le> max_elements
         then Some (written_elements, b\<lparr>rb_size := old_size + written_elements\<rparr>) else None)"

text \<open>A write through \<open>data()\<close>; it may lie behind \<open>size_\<close> but not behind the allocation.\<close>

definition Buffer_write :: "nat \<Rightarrow> byte list \<Rightarrow> rtc_buffer \<Rightarrow> rtc_buffer option" where
  "Buffer_write offset bs b =
     (if offset + length bs \<le> Buffer_capacity b
      then Some (b\<lparr>rb_data := splice_at offset bs (rb_data b)\<rparr>) else None)"

section \<open>Contents\<close>

definition allocates :: "allocator \<Rightarrow> bool" where
  "allocates fresh \<longleftrightarrow> (\<forall>n. length (fresh n) = n)"

lemma length_fresh: "allocates fresh \<Longrightarrow> length (fresh n) = n"
  by (simp add: allocates_def)

lemma allocates_zeros: "allocates (\<lambda>n. replicate n 0)"
  by (simp add: allocates_def)

text \<open>The value a buffer stands for.\<close>

definition contents :: "rtc_buffer \<Rightarrow> byte list" where
  "contents b = take (rb_size b) (rb_data b)"

lemmas buffer_defs = Buffer_capacity_def Buffer_IsConsistent_def contents_def Let_def

lemma length_contents: "Buffer_IsConsistent b \<Longrightarrow> length (contents b) = rb_size b"
  by (simp add: buffer_defs)

lemma take_splice_0: "length bs \<le> length xs \<Longrightarrow> take (length bs) (splice_at 0 bs xs) = bs"
  by (simp add: splice_at_def)

lemma Buffer_new_ok:
  assumes "allocates fresh"
  shows "Buffer_IsConsistent (Buffer_new fresh sz capacity)"
    "Buffer_capacity (Buffer_new fresh sz capacity) = max sz capacity"
  using length_fresh [OF assms] by (simp_all add: buffer_defs Buffer_new_def)

lemma Buffer_copy_ok:
  assumes "allocates fresh"
  shows "Buffer_IsConsistent (Buffer_copy fresh bs capacity)" "contents (Buffer_copy fresh bs capacity) = bs"
    "Buffer_capacity (Buffer_copy fresh bs capacity) = max (length bs) capacity"
  using length_fresh [OF assms] by (simp_all add: buffer_defs Buffer_copy_def Buffer_new_def take_splice_0)

lemma EnsureCapacity_ok:
  assumes "allocates fresh" "Buffer_IsConsistent b"
  shows "Buffer_IsConsistent (EnsureCapacityWithHeadroom fresh n e b)"
    "contents (EnsureCapacityWithHeadroom fresh n e b) = contents b"
    "rb_size (EnsureCapacityWithHeadroom fresh n e b) = rb_size b"
    "n \<le> Buffer_capacity (EnsureCapacityWithHeadroom fresh n e b)"
    "Buffer_capacity b \<le> Buffer_capacity (EnsureCapacityWithHeadroom fresh n e b)"
  using assms(2) length_fresh [OF assms(1)]
  by (auto simp: buffer_defs EnsureCapacityWithHeadroom_def splice_at_def)

lemma Buffer_AppendData_ok:
  assumes "allocates fresh" "Buffer_IsConsistent b"
  shows "Buffer_IsConsistent (Buffer_AppendData fresh bs b)"
    "contents (Buffer_AppendData fresh bs b) = contents b @ bs"
    "length (contents b @ bs) \<le> Buffer_capacity (Buffer_AppendData fresh bs b)"
    "Buffer_capacity b \<le> Buffer_capacity (Buffer_AppendData fresh bs b)"
proof -
  let ?c = "EnsureCapacityWithHeadroom fresh (rb_size b + length bs) True b"
  note ok = EnsureCapacity_ok [OF assms, of "rb_size b + length bs" True]
  have len: "rb_size b + length bs \<le> length (rb_data ?c)" using ok(4) by (simp add: Buffer_capacity_def)
  have "contents (Buffer_AppendData fresh bs b) = take (rb_size b) (rb_data ?c) @ bs"
    using take_splice_at [OF len] ok(3) by (simp add: Buffer_AppendData_def contents_def Let_def)
  then show "contents (Buffer_AppendData fresh bs b) = contents b @ bs"
    using ok(2,3) by (simp add: contents_def)
  show "Buffer_IsConsistent (Buffer_AppendData fresh bs b)"
    "Buffer_capacity b \<le> Buffer_capacity (Buffer_AppendData fresh bs b)"
    "length (contents b @ bs) \<le> Buffer_capacity (Buffer_AppendData fresh bs b)"
    using len ok(3,5) assms(2) by (simp_all add: Buffer_AppendData_def buffer_defs)
qed

lemma Buffer_SetData_ok:
  assumes "allocates fresh"
  shows "Buffer_IsConsistent (Buffer_SetData fresh bs b)" "contents (Buffer_SetData fresh bs b) = bs"
    "Buffer_capacity b \<le> Buffer_capacity (Buffer_SetData fresh bs b)"
  using Buffer_AppendData_ok [OF assms, of "b\<lparr>rb_size := 0\<rparr>" bs]
  by (simp_all add: Buffer_SetData_def buffer_defs)

lemma Buffer_SetSize_ok:
  assumes "allocates fresh" "Buffer_IsConsistent b"
  shows "Buffer_IsConsistent (Buffer_SetSize fresh n b)" "length (contents (Buffer_SetSize fresh n b)) = n"
    "take (rb_size b) (contents (Buffer_SetSize fresh n b)) = take n (contents b)"
    "Buffer_capacity b \<le> Buffer_capacity (Buffer_SetSize fresh n b)"
proof -
  let ?c = "EnsureCapacityWithHeadroom fresh n True b"
  note ok = EnsureCapacity_ok [OF assms, of n True]
  have "take (rb_size b) (rb_data ?c) = contents b" using ok(2,3) by (simp add: contents_def)
  then have "take n (take (rb_size b) (rb_data ?c)) = take n (contents b)" by simp
  then show "take (rb_size b) (contents (Buffer_SetSize fresh n b)) = take n (contents b)"
    by (simp add: Buffer_SetSize_def contents_def min.commute)
  show "Buffer_IsConsistent (Buffer_SetSize fresh n b)" "length (contents (Buffer_SetSize fresh n b)) = n"
    "Buffer_capacity b \<le> Buffer_capacity (Buffer_SetSize fresh n b)"
    using ok(4,5) by (simp_all add: Buffer_SetSize_def buffer_defs)
qed

lemma Buffer_write_ok:
  assumes "Buffer_IsConsistent b" "offset + length bs \<le> rb_size b"
  shows "\<exists>c. Buffer_write offset bs b = Some c \<and> Buffer_IsConsistent c \<and>
     contents c = splice_at offset bs (contents b) \<and> Buffer_capacity c = Buffer_capacity b"
  using assms by (simp add: Buffer_write_def buffer_defs take_splice_at_after)

end
