(* ===== verification/CowBuffer.thy ===== *)
theory CowBuffer
  imports RtcBuffer
begin

text \<open>
  \<open>rtc::CopyOnWriteBuffer\<close> of \<open>base/copyonwritebuffer.h\<close>: handles that share reference counted
  buffers and copy them before a write. The store holds the buffer objects with their counts and,
  for every handle, the object it points to. The refinement lemmas show that the handles behave as
  independent values: a call on one handle never changes what another one holds.
\<close>

section \<open>Objects and reference counts\<close>

text \<open>Handles and objects are named by their position; a deleted object keeps its place with count 0.\<close>

record cow_store =
  co_objs :: "(rtc_buffer \<times> nat) list"
  co_refs :: "nat option list"

definition object :: "cow_store \<Rightarrow> nat \<Rightarrow> rtc_buffer" where
  "object s a = fst (co_objs s ! a)"

definition AddRef :: "nat \<Rightarrow> cow_store \<Rightarrow> cow_store" where
  "AddRef a s = s\<lparr>co_objs := (co_objs s)[a := (object s a, snd (co_objs s ! a) + 1)]\<rparr>"

definition Release :: "nat \<Rightarrow> cow_store \<Rightarrow> cow_store" where
  "Release a s = s\<lparr>co_objs := (co_objs s)[a := (object s a, snd (co_objs s ! a) - 1)]\<rparr>"

definition HasOneRef :: "nat \<Rightarrow> cow_store \<Rightarrow> bool" where
  "HasOneRef a s \<longleftrightarrow> snd (co_objs s ! a) = 1"

text \<open>\<open>scoped_refptr::operator=(T* p)\<close>, and the move assignment through \<open>release\<close> and \<open>swap\<close>.\<close>

definition assign_ptr :: "nat \<Rightarrow> nat option \<Rightarrow> cow_store \<Rightarrow> cow_store" where
  "assign_ptr h p s =
     (let s = (case p of None \<Rightarrow> s | Some a \<Rightarrow> AddRef a s);
          s = (case co_refs s ! h of None \<Rightarrow> s | Some a \<Rightarrow> Release a s)
      in s\<lparr>co_refs := (co_refs s)[h := p]\<rparr>)"

definition move_ptr :: "nat \<Rightarrow> nat \<Rightarrow> cow_store \<Rightarrow> cow_store" where
  "move_ptr h g s =
     (let p = co_refs s ! g;
          s = s\<lparr>co_refs := (co_refs s)[g := None]\<rparr>;
          q = co_refs s ! h;
          s = s\<lparr>co_refs := (co_refs s)[h := p]\<rparr>
      in (case q of None \<Rightarrow> s | Some a \<Rightarrow> Release a s))"

text \<open>\<open>buffer_ = new RefCountedObject<Buffer>(...)\<close>\<close>

definition assign_new :: "nat \<Rightarrow> rtc_buffer \<Rightarrow> cow_store \<Rightarrow> cow_store" where
  "assign_new h b s = assign_ptr h (Some (length (co_objs s))) (s\<lparr>co_objs := co_objs s @ [(b, 0)]\<rparr>)"

text \<open>A call of a method of the buffer that \<open>a\<close> points to.\<close>

definition update_object :: "nat \<Rightarrow> (rtc_buffer \<Rightarrow> rtc_buffer) \<Rightarrow> cow_store \<Rightarrow> cow_store" where
  "update_object a f s = s\<lparr>co_objs := (co_objs s)[a := (f (object s a), snd (co_objs s ! a))]\<rparr>"

section \<open>CopyOnWriteBuffer\<close>

definition Cow_IsConsistent :: "nat \<Rightarrow> cow_store \<Rightarrow> bool" where
  "Cow_IsConsistent h s \<longleftrightarrow> (case co_refs s ! h of None \<Rightarrow> True | Some a \<Rightarrow> Buffer_capacity (object s a) > 0)"

definition dcheck :: "nat \<Rightarrow> cow_store \<Rightarrow> cow_store option" where
  "dcheck h s = (if Cow_IsConsistent h s then Some s else None)"

definition Cow_size :: "nat \<Rightarrow> cow_store \<Rightarrow> nat" where
  "Cow_size h s = (case co_refs s ! h of None \<Rightarrow> 0 | Some a \<Rightarrow> rb_size (object s a))"

definition Cow_capacity :: "nat \<Rightarrow> cow_store \<Rightarrow> nat" where
  "Cow_capacity h s = (case co_refs s ! h of None \<Rightarrow> 0 | Some a \<Rightarrow> Buffer_capacity (object s a))"

text \<open>The constructors add a handle behind the others.\<close>

definition Cow_empty :: "cow_store \<Rightarrow> cow_store" where
  "Cow_empty s = s\<lparr>co_refs := co_refs s @ [None]\<rparr>"

definition Cow_sized :: "allocator \<Rightarrow> nat \<Rightarrow> nat \<Rightarrow> cow_store \<Rightarrow> cow_store option" where
  "Cow_sized fresh sz capacity s =
     (let h = length (co_refs s); s = Cow_empty s
      in dcheck h (if sz > 0 \<or> capacity > 0 then assign_new h (Buffer_new fresh sz capacity) s else s))"

definition Cow_copied :: "nat \<Rightarrow> cow_store \<Rightarrow> cow_store" where
  "Cow_copied g s = assign_ptr (length (co_refs s)) (co_refs s ! g) (Cow_empty s)"

definition Cow_moved :: "nat \<Rightarrow> cow_store \<Rightarrow> cow_store" where
  "Cow_moved g s = move_ptr (length (co_refs s)) g (Cow_empty s)"

definition Cow_assign :: "nat \<Rightarrow> nat \<Rightarrow> cow_store \<Rightarrow> cow_store option" where
  "Cow_assign h g s = do {
     s \<leftarrow> dcheck h s;
     s \<leftarrow> dcheck g s;
     Some (if g \<noteq> h then assign_ptr h (co_refs s ! g) s else s) }"

definition Cow_move_assign :: "nat \<Rightarrow> nat \<Rightarrow> cow_store \<Rightarrow> cow_store option" where
  "Cow_move_assign h g s = do {
     s \<leftarrow> dcheck h s;
     s \<leftarrow> dcheck g s;
     Some (move_ptr h g s) }"

definition CloneDataIfReferenced :: "allocator \<Rightarrow> nat \<Rightarrow> nat \<Rightarrow> cow_store \<Rightarrow> cow_store option" where
  "CloneDataIfReferenced fresh new_capacity h s =
     (case co_refs s ! h of
        None \<Rightarrow> None
      | Some a \<Rightarrow>
          if HasOneRef a s then Some s
          else dcheck h (assign_new h (Buffer_copy fresh (contents (object s a)) new_capacity) s))"

definition Cow_SetData :: "allocator \<Rightarrow> byte list \<Rightarrow> nat \<Rightarrow> cow_store \<Rightarrow> cow_store option" where
  "Cow_SetData fresh bs h s = do {
     s \<leftarrow> dcheck h s;
     dcheck h (case co_refs s ! h of
        None \<Rightarrow> if length bs > 0 then assign_new h (Buffer_copy fresh bs (length bs)) s
                else assign_ptr h None s
      | Some a \<Rightarrow>
          if \<not> HasOneRef a s then assign_new h (Buffer_copy fresh bs (Buffer_capacity (object s a))) s
          else update_object a (Buffer_SetData fresh bs) s) }"

definition Cow_AppendData :: "allocator \<Rightarrow> byte list \<Rightarrow> nat \<Rightarrow> cow_store \<Rightarrow> cow_store option" where
  "Cow_AppendData fresh bs h s = do {
     s \<leftarrow> dcheck h s;
     (case co_refs s ! h of
        None \<Rightarrow> dcheck h (assign_new h (Buffer_copy fresh bs (length bs)) s)
      | Some a \<Rightarrow> do {
          s \<leftarrow> CloneDataIfReferenced fresh
                (max (Buffer_capacity (object s a)) (rb_size (object s a) + length bs)) h s;
          (case co_refs s ! h of
             None \<Rightarrow> None
           | Some a \<Rightarrow> dcheck h (update_object a (Buffer_AppendData fresh bs) s)) }) }"

definition Cow_SetSize :: "allocator \<Rightarrow> nat \<Rightarrow> nat \<Rightarrow> cow_store \<Rightarrow> cow_store option" where
  "Cow_SetSize fresh sz h s = do {
     s \<leftarrow> dcheck h s;
     (case co_refs s ! h of
        None \<Rightarrow> dcheck h (if sz > 0 then assign_new h (Buffer_new fresh sz sz) s else s)
      | Some a \<Rightarrow>
          let b = object s a;
              s = (if \<not> HasOneRef a s
                   then assign_new h (Buffer_copy fresh (take (min (rb_size b) sz) (rb_data b))
                          (max (Buffer_capacity b) sz)) s
                   else s)
          in (case co_refs s ! h of
                None \<Rightarrow> None
              | Some a \<Rightarrow> dcheck h (update_object a (Buffer_SetSize fresh sz) s))) }"

definition Cow_EnsureCapacity :: "allocator \<Rightarrow> nat \<Rightarrow> nat \<Rightarrow> cow_store \<Rightarrow> cow_store option" where
  "Cow_EnsureCapacity fresh capacity h s = do {
     s \<leftarrow> dcheck h s;
     (case co_refs s ! h of
        None \<Rightarrow> dcheck h (if capacity > 0 then assign_new h (Buffer_new fresh 0 capacity) s else s)
      | Some a \<Rightarrow>
          if capacity \<le> Buffer_capacity (object s a) then Some s
          else do {
            s \<leftarrow> CloneDataIfReferenced fresh (max (Buffer_capacity (object s a)) capacity) h s;
            (case co_refs s ! h of
               None \<Rightarrow> None
             | Some a \<Rightarrow> dcheck h (update_object a (Buffer_EnsureCapacity fresh capacity) s)) }) }"

definition Cow_Clear :: "allocator \<Rightarrow> nat \<Rightarrow> cow_store \<Rightarrow> cow_store option" where
  "Cow_Clear fresh h s =
     (case co_refs s ! h of
        None \<Rightarrow> Some s
      | Some a \<Rightarrow> dcheck h (if HasOneRef a s then update_object a Buffer_Clear s
          else assign_new h (Buffer_new fresh 0 (Buffer_capacity (object s a))) s))"

text \<open>A write through the pointer that \<open>data()\<close> returns; \<open>operator[]\<close> asserts the index first.\<close>

definition Cow_write :: "allocator \<Rightarrow> nat \<Rightarrow> byte list \<Rightarrow> nat \<Rightarrow> cow_store \<Rightarrow> cow_store option" where
  "Cow_write fresh offset bs h s = do {
     s \<leftarrow> dcheck h s;
     (case co_refs s ! h of
        None \<Rightarrow> None
      | Some a \<Rightarrow> do {
          s \<leftarrow> CloneDataIfReferenced fresh (Buffer_capacity (object s a)) h s;
          (case co_refs s ! h of
             None \<Rightarrow> None
           | Some a \<Rightarrow> do {
               b \<leftarrow> Buffer_write offset bs (object s a);
               Some (update_object a (\<lambda>_. b) s) }) }) }"

definition Cow_at :: "nat \<Rightarrow> nat \<Rightarrow> cow_store \<Rightarrow> byte option" where
  "Cow_at index h s =
     (if index < Cow_size h s then (case co_refs s ! h of None \<Rightarrow> None | Some a \<Rightarrow> byte_at (rb_data (object s a)) index)
      else None)"

definition Cow_equals :: "nat \<Rightarrow> nat \<Rightarrow> cow_store \<Rightarrow> bool" where
  "Cow_equals h g s \<longleftrightarrow> co_refs s ! h = co_refs s ! g \<or>
     (case (co_refs s ! h, co_refs s ! g) of
        (Some a, Some b) \<Rightarrow> Buffer_equals (object s a) (object s b)
      | _ \<Rightarrow> False)"

section \<open>Invariant and abstraction\<close>

text \<open>Counts are exact, and handles point to live, consistent, allocated buffers.\<close>

definition cow_inv :: "cow_store \<Rightarrow> bool" where
  "cow_inv s \<longleftrightarrow> (\<forall>a < length (co_objs s). snd (co_objs s ! a) = count_list (co_refs s) (Some a)) \<and>
     (\<forall>a. Some a \<in> set (co_refs s) \<longrightarrow> a < length (co_objs s) \<and> Buffer_IsConsistent (object s a) \<and>
       0 < Buffer_capacity (object s a))"

text \<open>The value of a handle.\<close>

definition holds :: "nat \<Rightarrow> cow_store \<Rightarrow> byte list" where
  "holds h s = (case co_refs s ! h of None \<Rightarrow> [] | Some a \<Rightarrow> contents (object s a))"

text \<open>The call leaves the value \<open>v\<close> in \<open>h\<close> and every other handle alone.\<close>

definition sets :: "nat \<Rightarrow> byte list \<Rightarrow> cow_store \<Rightarrow> cow_store \<Rightarrow> bool" where
  "sets h v s t \<longleftrightarrow> cow_inv t \<and> length (co_refs t) = length (co_refs s) \<and> holds h t = v \<and>
     (\<forall>g < length (co_refs s). g \<noteq> h \<longrightarrow> holds g t = holds g s)"

lemma sets_trans: "sets h v s t \<Longrightarrow> sets h w t u \<Longrightarrow> sets h w s u"
  by (simp add: sets_def)

lemma sets_refl: "cow_inv s \<Longrightarrow> sets h (holds h s) s s"
  by (simp add: sets_def)

lemma cow_inv_ref:
  assumes "cow_inv s" "co_refs s ! h = Some a" "h < length (co_refs s)"
  shows "a < length (co_objs s)" "Buffer_IsConsistent (object s a)" "0 < Buffer_capacity (object s a)"
    "snd (co_objs s ! a) = count_list (co_refs s) (Some a)"
  using assms by (auto simp: cow_inv_def in_set_conv_nth)

lemma dcheck_ok: "cow_inv s \<Longrightarrow> h < length (co_refs s) \<Longrightarrow> dcheck h s = Some s"
  by (auto simp: dcheck_def Cow_IsConsistent_def cow_inv_ref split: option.splits)

lemma count_list_update:
  assumes "i < length xs"
  shows "count_list (xs[i := y]) x + (if xs ! i = x then 1 else 0) = count_list xs x + (if y = x then 1 else 0)"
  using assms
proof (induction xs arbitrary: i)
  case (Cons z xs)
  show ?case
  proof (cases i)
    case (Suc k)
    then show ?thesis using Cons.prems Cons.IH [of k] by (cases "y = x") simp_all
  qed simp
qed simp

lemma count_list_eq_1:
  assumes "count_list xs x = 1" "i < length xs" "j < length xs" "xs ! i = x" "xs ! j = x"
  shows "i = j"
  using assms
proof (induction xs arbitrary: i j)
  case (Cons z xs)
  then show ?case by (cases i; cases j) (auto simp: count_list_0_iff dest: nth_mem split: if_splits)
qed simp

lemma holds_indep:
  assumes "co_refs t ! g = co_refs s ! g" "\<And>a. co_refs s ! g = Some a \<Longrightarrow> object t a = object s a"
  shows "holds g t = holds g s"
  using assms by (auto simp: holds_def split: option.splits)

section \<open>Pointers\<close>

lemma object_AddRef [simp]: "object (AddRef a s) b = object s b"
  by (cases "a < length (co_objs s)") (simp_all add: object_def AddRef_def nth_list_update not_less list_update_beyond)

lemma object_Release [simp]: "object (Release a s) b = object s b"
  by (cases "a < length (co_objs s)") (simp_all add: object_def Release_def nth_list_update not_less list_update_beyond)

lemma object_assign_ptr [simp]: "object (assign_ptr h p s) b = object s b"
  by (auto simp: assign_ptr_def Let_def object_def [of "_\<lparr>co_refs := _\<rparr>"] object_def [symmetric] split: option.splits)

lemma refs_ptr [simp]:
  "co_refs (AddRef a s) = co_refs s" "co_refs (Release a s) = co_refs s"
  "co_refs (assign_ptr h p s) = (co_refs s)[h := p]"
  "length (co_objs (AddRef a s)) = length (co_objs s)" "length (co_objs (Release a s)) = length (co_objs s)"
  "length (co_objs (assign_ptr h p s)) = length (co_objs s)"
  by (auto simp: AddRef_def Release_def assign_ptr_def Let_def split: option.splits)

lemma assign_ptr_count:
  assumes "a < length (co_objs s)" "\<forall>b. p = Some b \<longrightarrow> b < length (co_objs s)"
    "\<forall>b. co_refs s ! h = Some b \<longrightarrow> b < length (co_objs s)"
  shows "snd (co_objs (assign_ptr h p s) ! a) =
     snd (co_objs s ! a) + (if p = Some a then 1 else 0) - (if co_refs s ! h = Some a then 1 else 0)"
  using assms by (auto simp: assign_ptr_def Let_def AddRef_def Release_def nth_list_update split: option.splits)

lemma assign_ptr_inv:
  assumes inv: "cow_inv s" and h: "h < length (co_refs s)"
    and p: "\<And>a. p = Some a \<Longrightarrow> a < length (co_objs s) \<and> Buffer_IsConsistent (object s a) \<and> 0 < Buffer_capacity (object s a)"
  shows "cow_inv (assign_ptr h p s)"
  unfolding cow_inv_def
proof (intro conjI allI impI)
  fix a assume a: "a < length (co_objs (assign_ptr h p s))"
  have "snd (co_objs (assign_ptr h p s) ! a) =
     snd (co_objs s ! a) + (if p = Some a then 1 else 0) - (if co_refs s ! h = Some a then 1 else 0)"
    using a p cow_inv_ref(1) [OF inv _ h] by (intro assign_ptr_count) auto
  moreover have "snd (co_objs s ! a) = count_list (co_refs s) (Some a)" using inv a by (simp add: cow_inv_def)
  ultimately show "snd (co_objs (assign_ptr h p s) ! a) = count_list (co_refs (assign_ptr h p s)) (Some a)"
    using count_list_update [OF h, of p "Some a"] by simp
next
  fix a assume "Some a \<in> set (co_refs (assign_ptr h p s))"
  then have "p = Some a \<or> Some a \<in> set (co_refs s)"
    using set_update_subset_insert [of "co_refs s" h p] by auto
  then show "a < length (co_objs (assign_ptr h p s))" "Buffer_IsConsistent (object (assign_ptr h p s) a)"
    "0 < Buffer_capacity (object (assign_ptr h p s) a)"
    using p inv by (auto simp: cow_inv_def)
qed

lemma assign_ptr_sets:
  assumes "cow_inv s" "h < length (co_refs s)"
    and "\<And>a. p = Some a \<Longrightarrow> a < length (co_objs s) \<and> Buffer_IsConsistent (object s a) \<and> 0 < Buffer_capacity (object s a)"
  shows "sets h (case p of None \<Rightarrow> [] | Some a \<Rightarrow> contents (object s a)) s (assign_ptr h p s)"
  using assign_ptr_inv [OF assms] assms(2) by (auto simp: sets_def holds_def nth_list_update split: option.splits)

lemma objects_append:
  assumes "cow_inv s"
  shows "cow_inv (s\<lparr>co_objs := co_objs s @ [(b, 0)]\<rparr>)"
    "a < length (co_objs s) \<Longrightarrow> object (s\<lparr>co_objs := co_objs s @ [(b, 0)]\<rparr>) a = object s a"
    "object (s\<lparr>co_objs := co_objs s @ [(b, 0)]\<rparr>) (length (co_objs s)) = b"
proof -
  have "count_list (co_refs s) (Some (length (co_objs s))) = 0"
    using assms by (auto simp: count_list_0_iff cow_inv_def)
  then show "cow_inv (s\<lparr>co_objs := co_objs s @ [(b, 0)]\<rparr>)"
    using assms by (auto simp: cow_inv_def object_def nth_append less_Suc_eq)
qed (simp_all add: object_def nth_append)

lemma assign_new_sets:
  assumes "cow_inv s" "h < length (co_refs s)" "Buffer_IsConsistent b" "0 < Buffer_capacity b"
  shows "sets h (contents b) s (assign_new h b s)" "co_refs (assign_new h b s) ! h = Some (length (co_objs s))"
    "object (assign_new h b s) (length (co_objs s)) = b"
    "snd (co_objs (assign_new h b s) ! length (co_objs s)) = 1"
proof -
  let ?s = "s\<lparr>co_objs := co_objs s @ [(b, 0)]\<rparr>" and ?a = "length (co_objs s)"
  note app = objects_append [OF assms(1), where b = b]
  have valid: "?a < length (co_objs ?s) \<and> Buffer_IsConsistent (object ?s ?a) \<and> 0 < Buffer_capacity (object ?s ?a)"
    using app(3) assms(3,4) by simp
  have "sets h (contents (object ?s ?a)) ?s (assign_new h b s)"
    using assign_ptr_sets [OF app(1), of h "Some ?a"] valid assms(2) by (simp add: assign_new_def)
  moreover have "holds g ?s = holds g s" if "g < length (co_refs s)" for g
    using that app(2) cow_inv_ref(1) [OF assms(1) _ that] by (intro holds_indep) simp_all
  ultimately show "sets h (contents b) s (assign_new h b s)" using app(3) by (simp add: sets_def)
  show "co_refs (assign_new h b s) ! h = Some ?a" "object (assign_new h b s) ?a = b"
    using assms(2) app(3) by (simp_all add: assign_new_def)
  have "co_refs s ! h \<noteq> Some ?a" using cow_inv_ref(1) [OF assms(1) _ assms(2)] by auto
  then show "snd (co_objs (assign_new h b s) ! ?a) = 1"
    using assign_ptr_count [of ?a ?s "Some ?a" h] cow_inv_ref(1) [OF assms(1) _ assms(2)]
    by (auto simp: assign_new_def less_Suc_eq nth_append)
qed

text \<open>A write in place is invisible to the others because the count is exact.\<close>

lemma update_object_sets:
  assumes inv: "cow_inv s" and h: "h < length (co_refs s)" "co_refs s ! h = Some a" "HasOneRef a s"
    and f: "Buffer_IsConsistent (f (object s a))" "0 < Buffer_capacity (f (object s a))"
  shows "sets h (contents (f (object s a))) s (update_object a f s)"
proof -
  note ref = cow_inv_ref [OF inv h(2,1)]
  have obj: "object (update_object a f s) b = (if b = a then f (object s a) else object s b)" for b
    using ref(1) by (simp add: update_object_def object_def nth_list_update)
  have refs: "co_refs (update_object a f s) = co_refs s" by (simp add: update_object_def)
  have "cow_inv (update_object a f s)"
    using inv f obj ref(1) unfolding cow_inv_def by (auto simp: update_object_def nth_list_update)
  moreover have "holds g (update_object a f s) = holds g s" if g: "g < length (co_refs s)" "g \<noteq> h" for g
  proof (rule holds_indep)
    have "count_list (co_refs s) (Some a) = 1" using h(3) ref(4) by (simp add: HasOneRef_def)
    then have "co_refs s ! g \<noteq> Some a" using count_list_eq_1 [OF _ g(1) h(1) _ h(2)] g(2) by blast
    then show "object (update_object a f s) b = object s b" if "co_refs s ! g = Some b" for b
      using that obj by auto
  qed (simp add: refs)
  ultimately show ?thesis using h obj by (simp add: sets_def refs holds_def)
qed

section \<open>The calls\<close>

text \<open>After \<open>CloneDataIfReferenced\<close> the handle owns its object alone and holds the same value.\<close>

lemma Clone_ok:
  assumes inv: "cow_inv s" and h: "h < length (co_refs s)" "co_refs s ! h = Some a"
    and "allocates fresh" "rb_size (object s a) \<le> n" "0 < n"
  obtains t b where "CloneDataIfReferenced fresh n h s = Some t" "sets h (holds h s) s t"
    "co_refs t ! h = Some b" "HasOneRef b t" "contents (object t b) = contents (object s a)"
    "HasOneRef a s \<or> Buffer_capacity (object t b) = n"
proof (cases "HasOneRef a s")
  case True
  then show ?thesis using that [of s a] h sets_refl [OF inv] by (simp add: CloneDataIfReferenced_def)
next
  case False
  let ?b = "Buffer_copy fresh (contents (object s a)) n"
  note copy = Buffer_copy_ok [OF assms(4), of "contents (object s a)" n]
  have "0 < Buffer_capacity ?b" using copy(3) assms(6) by simp
  note new = assign_new_sets [OF inv h(1) copy(1) this]
  have "length (contents (object s a)) \<le> n" using assms(5) by (simp add: contents_def)
  moreover have "dcheck h (assign_new h ?b s) = Some (assign_new h ?b s)"
    using new(1) h(1) by (intro dcheck_ok) (simp_all add: sets_def)
  ultimately show ?thesis
    using that [of "assign_new h ?b s" "length (co_objs s)"] new copy(2,3) h False
    by (simp add: CloneDataIfReferenced_def HasOneRef_def holds_def)
qed

lemma clone_update_sets:
  assumes inv: "cow_inv s" and h: "h < length (co_refs s)" "co_refs s ! h = Some a"
    and "allocates fresh" "rb_size (object s a) \<le> n" "0 < n"
    and f: "\<And>b. Buffer_IsConsistent b \<Longrightarrow> contents b = contents (object s a) \<Longrightarrow>
      Buffer_IsConsistent (f b) \<and> contents (f b) = v \<and> Buffer_capacity b \<le> Buffer_capacity (f b)"
  shows "\<exists>t. Option.bind (CloneDataIfReferenced fresh n h s) (\<lambda>s.
      case co_refs s ! h of None \<Rightarrow> None | Some a \<Rightarrow> dcheck h (update_object a f s)) = Some t \<and> sets h v s t"
proof -
  obtain t b where t: "CloneDataIfReferenced fresh n h s = Some t" "sets h (holds h s) s t"
    "co_refs t ! h = Some b" "HasOneRef b t" "contents (object t b) = contents (object s a)"
    using Clone_ok [OF inv h assms(4-6)] by metis
  then have inv_t: "cow_inv t" "h < length (co_refs t)" using h(1) by (simp_all add: sets_def)
  note ref = cow_inv_ref [OF inv_t(1) t(3) inv_t(2)]
  have fb: "Buffer_IsConsistent (f (object t b))" "contents (f (object t b)) = v" "0 < Buffer_capacity (f (object t b))"
    using f [OF ref(2) t(5)] ref(3) by simp_all
  have upd: "sets h v t (update_object b f t)"
    using update_object_sets [OF inv_t t(3,4), of f] fb by simp
  then have "dcheck h (update_object b f t) = Some (update_object b f t)"
    using inv_t(2) by (intro dcheck_ok) (simp_all add: sets_def)
  then show ?thesis using t(1,3) sets_trans [OF t(2) upd] by simp
qed

lemma dcheck_sets: "sets h v s t \<Longrightarrow> h < length (co_refs s) \<Longrightarrow> dcheck h t = Some t"
  by (intro dcheck_ok) (simp_all add: sets_def)

lemma assign_copy_sets:
  assumes "cow_inv s" "h < length (co_refs s)" "allocates fresh" "0 < max (length bs) n"
  shows "sets h bs s (assign_new h (Buffer_copy fresh bs n) s)"
  using assign_new_sets(1) [OF assms(1,2), of "Buffer_copy fresh bs n"] Buffer_copy_ok [OF assms(3), of bs n] assms(4)
  by simp

lemma Cow_SetData_sets:
  assumes inv: "cow_inv s" and h: "h < length (co_refs s)" and fresh: "allocates fresh"
  shows "\<exists>t. Cow_SetData fresh bs h s = Some t \<and> sets h bs s t"
proof (cases "co_refs s ! h")
  case None
  have "sets h bs s (assign_new h (Buffer_copy fresh bs (length bs)) s)" if "0 < length bs"
    using that by (intro assign_copy_sets [OF inv h fresh]) simp
  moreover have "sets h bs s (assign_ptr h None s)" if "bs = []"
    using assign_ptr_sets [OF inv h, of None] that by simp
  ultimately show ?thesis using None dcheck_ok [OF inv h] dcheck_sets h
    by (cases "bs = []") (auto simp: Cow_SetData_def)
next
  case (Some a)
  note ref = cow_inv_ref [OF inv Some h]
  have "sets h bs s (update_object a (Buffer_SetData fresh bs) s)" if "HasOneRef a s"
    using update_object_sets [OF inv h Some that, of "Buffer_SetData fresh bs"]
      Buffer_SetData_ok [OF fresh, where bs = bs and b = "object s a"] ref(3) by simp
  moreover have "sets h bs s (assign_new h (Buffer_copy fresh bs (Buffer_capacity (object s a))) s)"
    using ref(3) by (intro assign_copy_sets [OF inv h fresh]) simp
  ultimately show ?thesis using Some dcheck_ok [OF inv h] dcheck_sets [OF _ h]
    by (cases "HasOneRef a s") (auto simp: Cow_SetData_def)
qed

lemma Cow_AppendData_sets:
  assumes inv: "cow_inv s" and h: "h < length (co_refs s)" and fresh: "allocates fresh"
    and ne: "co_refs s ! h \<noteq> None \<or> bs \<noteq> []"
  shows "\<exists>t. Cow_AppendData fresh bs h s = Some t \<and> sets h (holds h s @ bs) s t"
proof (cases "co_refs s ! h")
  case None
  have "sets h bs s (assign_new h (Buffer_copy fresh bs (length bs)) s)"
    using ne None by (intro assign_copy_sets [OF inv h fresh]) simp
  then show ?thesis using None dcheck_ok [OF inv h] dcheck_sets [OF _ h] by (auto simp: Cow_AppendData_def holds_def)
next
  case (Some a)
  note ref = cow_inv_ref [OF inv Some h]
  let ?n = "max (Buffer_capacity (object s a)) (rb_size (object s a) + length bs)"
  have "\<exists>t. Option.bind (CloneDataIfReferenced fresh ?n h s) (\<lambda>s. case co_refs s ! h of None \<Rightarrow> None
      | Some a \<Rightarrow> dcheck h (update_object a (Buffer_AppendData fresh bs) s)) = Some t \<and>
      sets h (contents (object s a) @ bs) s t"
    by (rule clone_update_sets [OF inv h Some fresh])
      (use ref Buffer_AppendData_ok [OF fresh] in \<open>auto simp: max_def\<close>)
  then show ?thesis using Some dcheck_ok [OF inv h] by (simp add: Cow_AppendData_def holds_def)
qed

lemma Cow_EnsureCapacity_sets:
  assumes inv: "cow_inv s" and h: "h < length (co_refs s)" and fresh: "allocates fresh"
  shows "\<exists>t. Cow_EnsureCapacity fresh n h s = Some t \<and> sets h (holds h s) s t"
proof (cases "co_refs s ! h")
  case None
  have "sets h [] s (assign_new h (Buffer_new fresh 0 n) s)" if "0 < n"
    using assign_new_sets(1) [OF inv h Buffer_new_ok(1) [OF fresh, of 0 n]] Buffer_new_ok(2) [OF fresh, of 0 n] that
    by (simp add: contents_def Buffer_new_def)
  then show ?thesis using None dcheck_ok [OF inv h] dcheck_sets [OF _ h] sets_refl [OF inv, of h]
    by (cases "n = 0") (auto simp: Cow_EnsureCapacity_def holds_def)
next
  case (Some a)
  note ref = cow_inv_ref [OF inv Some h]
  show ?thesis
  proof (cases "n \<le> Buffer_capacity (object s a)")
    case True
    then show ?thesis using Some dcheck_ok [OF inv h] sets_refl [OF inv] by (simp add: Cow_EnsureCapacity_def)
  next
    case False
    let ?n = "max (Buffer_capacity (object s a)) n"
    have "\<exists>t. Option.bind (CloneDataIfReferenced fresh ?n h s) (\<lambda>s. case co_refs s ! h of None \<Rightarrow> None
        | Some a \<Rightarrow> dcheck h (update_object a (Buffer_EnsureCapacity fresh n) s)) = Some t \<and>
        sets h (contents (object s a)) s t"
      by (rule clone_update_sets [OF inv h Some fresh])
        (use ref EnsureCapacity_ok [OF fresh] in \<open>auto simp: Buffer_EnsureCapacity_def Buffer_IsConsistent_def\<close>)
    then show ?thesis using Some False dcheck_ok [OF inv h] by (simp add: Cow_EnsureCapacity_def holds_def)
  qed
qed

text \<open>The part of the old value that fits is kept when the size changes.\<close>

definition resized :: "byte list \<Rightarrow> nat \<Rightarrow> byte list \<Rightarrow> bool" where
  "resized old n new \<longleftrightarrow> length new = n \<and> take (length old) new = take n old"

lemma Buffer_SetSize_resized:
  assumes "allocates fresh" "Buffer_IsConsistent b" "take n (contents b) = take n old" "length (contents b) = min (length old) n \<or> contents b = old"
  shows "resized old n (contents (Buffer_SetSize fresh n b))"
proof -
  note ok = Buffer_SetSize_ok [OF assms(1,2), of n]
  have "take (length (contents b)) (contents (Buffer_SetSize fresh n b)) = take n old"
    using ok(3) assms(3) length_contents [OF assms(2)] by simp
  then show ?thesis using ok(2) assms(4) by (auto simp: resized_def min_def split: if_splits)
qed

lemma Cow_SetSize_sets:
  assumes inv: "cow_inv s" and h: "h < length (co_refs s)" and fresh: "allocates fresh"
  shows "\<exists>t v. Cow_SetSize fresh n h s = Some t \<and> sets h v s t \<and> resized (holds h s) n v"
proof (cases "co_refs s ! h")
  case None
  have "sets h (contents (Buffer_new fresh n n)) s (assign_new h (Buffer_new fresh n n) s)"
    "length (contents (Buffer_new fresh n n)) = n" if "0 < n"
    using assign_new_sets(1) [OF inv h Buffer_new_ok(1) [OF fresh, of n n]] Buffer_new_ok(2) [OF fresh, of n n] that
      length_contents [OF Buffer_new_ok(1) [OF fresh, of n n]] by (simp_all add: Buffer_new_def)
  then show ?thesis using None dcheck_ok [OF inv h] dcheck_sets [OF _ h] sets_refl [OF inv, of h]
    by (cases "n = 0") (auto simp: Cow_SetSize_def holds_def resized_def)
next
  case (Some a)
  note ref = cow_inv_ref [OF inv Some h]
  let ?old = "contents (object s a)" and ?part = "take (min (rb_size (object s a)) n) (rb_data (object s a))"
  let ?t = "if \<not> HasOneRef a s then assign_new h (Buffer_copy fresh ?part (max (Buffer_capacity (object s a)) n)) s else s"
  have part: "?part = take n ?old" by (simp add: contents_def min.commute)
  have "\<exists>b w. sets h w s ?t \<and> co_refs ?t ! h = Some b \<and> HasOneRef b ?t \<and>
    resized ?old n (contents (Buffer_SetSize fresh n (object ?t b)))"
  proof (cases "HasOneRef a s")
    case True
    then show ?thesis using Some sets_refl [OF inv, of h] Buffer_SetSize_resized [OF fresh ref(2), of n ?old] by auto
  next
    case False
    let ?b = "Buffer_copy fresh ?part (max (Buffer_capacity (object s a)) n)"
    note copy = Buffer_copy_ok [OF fresh, of ?part "max (Buffer_capacity (object s a)) n"]
    have "0 < Buffer_capacity ?b" using ref(3) unfolding copy(3) by simp
    note new = assign_new_sets [OF inv h copy(1) this]
    have "length (contents ?b) = min (length ?old) n" by (simp only: copy(2)) (simp only: part, simp)
    moreover have "take n (contents ?b) = take n ?old" by (simp only: copy(2)) (simp only: part, simp)
    ultimately have "resized ?old n (contents (Buffer_SetSize fresh n ?b))"
      using Buffer_SetSize_resized [OF fresh copy(1)] by blast
    then show ?thesis using new False by (auto simp: HasOneRef_def)
  qed
  then obtain b w where t: "sets h w s ?t" "co_refs ?t ! h = Some b" "HasOneRef b ?t"
    "resized ?old n (contents (Buffer_SetSize fresh n (object ?t b)))" by blast
  then have inv_t: "cow_inv ?t" "h < length (co_refs ?t)" using h by (simp_all add: sets_def)
  note ok = Buffer_SetSize_ok [OF fresh cow_inv_ref(2) [OF inv_t(1) t(2) inv_t(2)], of n]
  have upd: "sets h (contents (Buffer_SetSize fresh n (object ?t b))) ?t (update_object b (Buffer_SetSize fresh n) ?t)"
    using update_object_sets [OF inv_t t(2,3), of "Buffer_SetSize fresh n"] ok(1,4)
      cow_inv_ref(3) [OF inv_t(1) t(2) inv_t(2)] by simp
  have "Cow_SetSize fresh n h s = dcheck h (update_object b (Buffer_SetSize fresh n) ?t)"
    using Some t(2) dcheck_ok [OF inv h] by (simp add: Cow_SetSize_def Let_def cong: if_cong)
  then show ?thesis using dcheck_sets [OF upd inv_t(2)] sets_trans [OF t(1) upd] t(4) Some
    by (auto simp: holds_def)
qed

lemma Cow_Clear_sets:
  assumes inv: "cow_inv s" and h: "h < length (co_refs s)" and fresh: "allocates fresh"
  shows "\<exists>t. Cow_Clear fresh h s = Some t \<and> sets h [] s t"
proof (cases "co_refs s ! h")
  case None
  then show ?thesis using sets_refl [OF inv, of h] by (simp add: Cow_Clear_def holds_def)
next
  case (Some a)
  note ref = cow_inv_ref [OF inv Some h]
  let ?n = "Buffer_capacity (object s a)"
  have "sets h [] s (update_object a Buffer_Clear s)" if "HasOneRef a s"
    using update_object_sets [OF inv h Some that, of Buffer_Clear] ref(3) by (simp add: Buffer_Clear_def buffer_defs)
  moreover have "sets h [] s (assign_new h (Buffer_new fresh 0 ?n) s)"
    using assign_new_sets(1) [OF inv h Buffer_new_ok(1) [OF fresh, of 0 ?n]] Buffer_new_ok(2) [OF fresh, of 0 ?n] ref(3)
    by (simp add: contents_def Buffer_new_def)
  ultimately show ?thesis using Some dcheck_sets [OF _ h]
    by (cases "HasOneRef a s") (auto simp: Cow_Clear_def)
qed

lemma Cow_write_sets:
  assumes inv: "cow_inv s" and h: "h < length (co_refs s)" and fresh: "allocates fresh"
    and room: "offset + length bs \<le> length (holds h s)" "bs \<noteq> []"
  shows "\<exists>t. Cow_write fresh offset bs h s = Some t \<and> sets h (splice_at offset bs (holds h s)) s t"
proof -
  obtain a where a: "co_refs s ! h = Some a" using room by (auto simp: holds_def split: option.splits)
  note ref = cow_inv_ref [OF inv a h]
  obtain t b where t: "CloneDataIfReferenced fresh (Buffer_capacity (object s a)) h s = Some t"
    "sets h (holds h s) s t" "co_refs t ! h = Some b" "HasOneRef b t"
    using Clone_ok [OF inv h a fresh, of "Buffer_capacity (object s a)"] ref(2,3)
    unfolding Buffer_IsConsistent_def by metis
  have inv_t: "cow_inv t" "h < length (co_refs t)" and val: "contents (object t b) = holds h s"
    using t(2,3) h by (auto simp: sets_def holds_def)
  note ref_t = cow_inv_ref [OF inv_t(1) t(3) inv_t(2)]
  have "offset + length bs \<le> rb_size (object t b)"
    using room(1) length_contents [OF ref_t(2)] val by simp
  then obtain c where c: "Buffer_write offset bs (object t b) = Some c" "Buffer_IsConsistent c"
    "contents c = splice_at offset bs (holds h s)" "Buffer_capacity c = Buffer_capacity (object t b)"
    using Buffer_write_ok [OF ref_t(2)] val by metis
  have "sets h (splice_at offset bs (holds h s)) t (update_object b (\<lambda>_. c) t)"
    using update_object_sets [OF inv_t t(3,4), of "\<lambda>_. c"] c ref_t(3) by simp
  then show ?thesis using a t c(1) dcheck_ok [OF inv h] sets_trans [OF t(2)] by (auto simp: Cow_write_def)
qed

lemma Cow_assign_sets:
  assumes inv: "cow_inv s" and h: "h < length (co_refs s)" and g: "g < length (co_refs s)"
  shows "\<exists>t. Cow_assign h g s = Some t \<and> sets h (holds g s) s t"
proof -
  have "sets h (holds g s) s (assign_ptr h (co_refs s ! g) s)"
    using assign_ptr_sets [OF inv h, of "co_refs s ! g"] cow_inv_ref [OF inv _ g] by (simp add: holds_def)
  then show ?thesis using dcheck_ok [OF inv] h g sets_refl [OF inv, of h] by (auto simp: Cow_assign_def)
qed

lemma move_ptr_eq:
  assumes "h < length (co_refs s)" "g < length (co_refs s)" "g \<noteq> h"
  shows "move_ptr h g s = (case co_refs s ! h of None \<Rightarrow> s | Some a \<Rightarrow> Release a s)
     \<lparr>co_refs := (co_refs s)[g := None, h := co_refs s ! g]\<rparr>"
  using assms by (auto simp: move_ptr_def Let_def Release_def object_def split: option.splits)

lemma Cow_move_assign_ok:
  assumes inv: "cow_inv s" and h: "h < length (co_refs s)" and g: "g < length (co_refs s)" "g \<noteq> h"
  shows "\<exists>t. Cow_move_assign h g s = Some t \<and> cow_inv t \<and> length (co_refs t) = length (co_refs s) \<and>
     holds h t = holds g s \<and> holds g t = [] \<and> (\<forall>k < length (co_refs s). k \<noteq> h \<longrightarrow> k \<noteq> g \<longrightarrow> holds k t = holds k s)"
proof -
  let ?p = "co_refs s ! g" and ?q = "co_refs s ! h" and ?t = "move_ptr h g s"
  have refs: "co_refs ?t = (co_refs s)[g := None, h := ?p]" by (simp add: move_ptr_eq [OF h g])
  have obj: "object ?t a = object s a" for a
    using object_Release [of _ s a] by (auto simp: move_ptr_eq [OF h g] object_def split: option.splits)
  have objs: "length (co_objs ?t) = length (co_objs s)"
    by (auto simp: move_ptr_eq [OF h g] split: option.splits)
  have count: "snd (co_objs ?t ! a) = snd (co_objs s ! a) - (if ?q = Some a then 1 else 0)"
    if "a < length (co_objs s)" for a
    using that by (auto simp: move_ptr_eq [OF h g] Release_def nth_list_update split: option.splits)
  have "cow_inv ?t"
    unfolding cow_inv_def objs obj
  proof (intro conjI allI impI)
    fix a assume a: "a < length (co_objs s)"
    have "count_list ((co_refs s)[g := None]) (Some a) + (if ?p = Some a then 1 else 0) = count_list (co_refs s) (Some a)"
      using count_list_update [OF g(1), of None "Some a"] by simp
    moreover have "count_list (co_refs ?t) (Some a) + (if ?q = Some a then 1 else 0) =
        count_list ((co_refs s)[g := None]) (Some a) + (if ?p = Some a then 1 else 0)"
      using count_list_update [of h "(co_refs s)[g := None]" ?p "Some a"] h g(2) by (simp add: refs)
    ultimately show "snd (co_objs ?t ! a) = count_list (co_refs ?t) (Some a)"
      using count [OF a] inv a by (simp add: cow_inv_def)
  next
    fix a assume "Some a \<in> set (co_refs ?t)"
    then have "Some a = ?p \<or> Some a \<in> set (co_refs s)"
      unfolding refs using set_update_subset_insert [of "(co_refs s)[g := None]" h ?p]
        set_update_subset_insert [of "co_refs s" g None] by auto
    then have "Some a \<in> set (co_refs s)" using g(1) nth_mem by metis
    then show "a < length (co_objs s)" "Buffer_IsConsistent (object s a)" "0 < Buffer_capacity (object s a)"
      using inv by (simp_all add: cow_inv_def)
  qed
  moreover have "Cow_move_assign h g s = Some ?t" using dcheck_ok [OF inv] h g by (simp add: Cow_move_assign_def)
  moreover have "holds k ?t = (if k = h then holds g s else if k = g then [] else holds k s)"
    if "k < length (co_refs s)" for k
    using that h g obj by (auto simp: holds_def refs nth_list_update split: option.splits)
  ultimately show ?thesis using h g refs by (intro exI [of _ ?t]) simp
qed

lemma Cow_equals_holds:
  assumes inv: "cow_inv s" and h: "h < length (co_refs s)" and g: "g < length (co_refs s)"
  shows "Cow_equals h g s \<longleftrightarrow> holds h s = holds g s \<and> (co_refs s ! h = None \<longleftrightarrow> co_refs s ! g = None)"
proof -
  have "Buffer_equals b c \<longleftrightarrow> contents b = contents c" if "Buffer_IsConsistent b" "Buffer_IsConsistent c" for b c
  proof -
    have "rb_size b = rb_size c" if "contents b = contents c"
      using length_contents \<open>Buffer_IsConsistent b\<close> \<open>Buffer_IsConsistent c\<close> that by metis
    then show ?thesis by (auto simp: Buffer_equals_def contents_def)
  qed
  then show ?thesis using cow_inv_ref(2) [OF inv _ h] cow_inv_ref(2) [OF inv _ g]
    by (auto simp: Cow_equals_def holds_def split: option.splits)
qed

section \<open>Value semantics\<close>



text \<open>Appending nothing to a handle without a buffer leaves it with one of capacity 0, which the checks forbid.\<close>

lemma Cow_AppendData_empty:
  assumes "co_refs s ! h = None" "h < length (co_refs s)" "allocates fresh"
  shows "Cow_AppendData fresh [] h s = None"
  using assms length_fresh [OF assms(3), of 0]
  by (simp add: Cow_AppendData_def dcheck_def Cow_IsConsistent_def assign_new_def Buffer_copy_def Buffer_new_def
      Let_def object_def Buffer_capacity_def assign_ptr_def AddRef_def splice_at_def)

text \<open>Two handles without contents are different when only one of them has a buffer.\<close>

lemma Cow_equals_empty:
  assumes "co_refs s ! h = None" "co_refs s ! g = Some a" "contents (object s a) = []"
  shows "holds h s = holds g s \<and> \<not> Cow_equals h g s"
  using assms by (simp add: holds_def Cow_equals_def)

end
