(* ===== verification/RtpExtension.thy ===== *)
theory RtpExtension
  imports ByteIo
begin

text \<open>
  RTP header extensions: the registry of extension ids, \<open>rtp_header_extension.cc\<close>, and the values
  carried by the extensions, \<open>rtp_header_extensions.cc\<close> with \<open>rtp_cvo.h\<close>. Failed debug checks are faults.
\<close>

section \<open>Extension types\<close>

datatype rtp_extension_type =
    kRtpExtensionNone
  | kRtpExtensionTransmissionTimeOffset
  | kRtpExtensionAudioLevel
  | kRtpExtensionAbsoluteSendTime
  | kRtpExtensionVideoRotation
  | kRtpExtensionTransportSequenceNumber
  | kRtpExtensionPlayoutDelay
  | kRtpExtensionNumberOfExtensions

text \<open>The value of the enumerator, which the registry uses as an array index.\<close>

fun ext_index :: "rtp_extension_type \<Rightarrow> nat" where
  "ext_index kRtpExtensionNone = 0"
| "ext_index kRtpExtensionTransmissionTimeOffset = 1"
| "ext_index kRtpExtensionAudioLevel = 2"
| "ext_index kRtpExtensionAbsoluteSendTime = 3"
| "ext_index kRtpExtensionVideoRotation = 4"
| "ext_index kRtpExtensionTransportSequenceNumber = 5"
| "ext_index kRtpExtensionPlayoutDelay = 6"
| "ext_index kRtpExtensionNumberOfExtensions = 7"

record extension_info =
  ei_type :: rtp_extension_type
  ei_value_size :: nat
  ei_uri :: string

definition kExtensions :: "extension_info list" where
  "kExtensions = [
     \<lparr>ei_type = kRtpExtensionTransmissionTimeOffset, ei_value_size = 3,
       ei_uri = ''urn:ietf:params:rtp-hdrext:toffset''\<rparr>,
     \<lparr>ei_type = kRtpExtensionAudioLevel, ei_value_size = 1,
       ei_uri = ''urn:ietf:params:rtp-hdrext:ssrc-audio-level''\<rparr>,
     \<lparr>ei_type = kRtpExtensionAbsoluteSendTime, ei_value_size = 3,
       ei_uri = ''http://www.webrtc.org/experiments/rtp-hdrext/abs-send-time''\<rparr>,
     \<lparr>ei_type = kRtpExtensionVideoRotation, ei_value_size = 1,
       ei_uri = ''urn:3gpp:video-orientation''\<rparr>,
     \<lparr>ei_type = kRtpExtensionTransportSequenceNumber, ei_value_size = 2,
       ei_uri = ''http://www.ietf.org/id/draft-holmer-rmcat-transport-wide-cc-extensions-01''\<rparr>,
     \<lparr>ei_type = kRtpExtensionPlayoutDelay, ei_value_size = 3,
       ei_uri = ''http://www.webrtc.org/experiments/rtp-hdrext/playout-delay''\<rparr>]"

section \<open>The registry\<close>

record extension_map =
  em_total_values_size_bytes :: nat
  em_types :: "rtp_extension_type list"
  em_ids :: "byte list"

abbreviation (input) kMinId :: byte where "kMinId \<equiv> 1"
abbreviation (input) kMaxId :: byte where "kMaxId \<equiv> 14"

definition ExtensionMap_new :: extension_map where
  "ExtensionMap_new = \<lparr>em_total_values_size_bytes = 0,
     em_types = replicate 15 kRtpExtensionNone, em_ids = replicate 7 0\<rparr>"

definition GetType :: "byte \<Rightarrow> extension_map \<Rightarrow> rtp_extension_type option" where
  "GetType ext_id m = (if ext_id < kMinId \<or> ext_id > kMaxId then None else Some (em_types m ! unat ext_id))"

definition GetId :: "rtp_extension_type \<Rightarrow> extension_map \<Rightarrow> byte option" where
  "GetId t m =
     (if ext_index t = 0 \<or> ext_index t \<ge> 7 then None else Some (em_ids m ! ext_index t))"

definition IsRegistered :: "rtp_extension_type \<Rightarrow> extension_map \<Rightarrow> bool option" where
  "IsRegistered t m = map_option (\<lambda>ext_id. ext_id \<noteq> 0) (GetId t m)"

definition ValueSize :: "rtp_extension_type \<Rightarrow> nat option" where
  "ValueSize t = map_option ei_value_size (find (\<lambda>e. t = ei_type e) kExtensions)"

definition Register :: "byte \<Rightarrow> rtp_extension_type \<Rightarrow> nat \<Rightarrow> extension_map \<Rightarrow> (bool \<times> extension_map) option" where
  "Register ext_id t value_size m =
     (if ext_index t = 0 \<or> ext_index t \<ge> 7 \<or> value_size < 1 \<or> value_size > 16 then None
      else if ext_id < kMinId \<or> ext_id > kMaxId then Some (False, m)
      else do {
        t' \<leftarrow> GetType ext_id m;
        if t' = t then Some (True, m)
        else if t' \<noteq> kRtpExtensionNone then Some (False, m)
        else do {
          registered \<leftarrow> IsRegistered t m;
          if registered then None
          else Some (True, m\<lparr>em_types := (em_types m)[unat ext_id := t], em_ids := (em_ids m)[ext_index t := ext_id],
            em_total_values_size_bytes := em_total_values_size_bytes m + (value_size + 1)\<rparr>) } })"

definition RegisterByType :: "byte \<Rightarrow> rtp_extension_type \<Rightarrow> extension_map \<Rightarrow> (bool \<times> extension_map) option" where
  "RegisterByType ext_id t m =
     (case find (\<lambda>e. t = ei_type e) kExtensions of
        None \<Rightarrow> None
      | Some e \<Rightarrow> Register ext_id (ei_type e) (ei_value_size e) m)"

definition RegisterByUri :: "byte \<Rightarrow> string \<Rightarrow> extension_map \<Rightarrow> (bool \<times> extension_map) option" where
  "RegisterByUri ext_id uri m =
     (case find (\<lambda>e. uri = ei_uri e) kExtensions of
        None \<Rightarrow> Some (False, m)
      | Some e \<Rightarrow> Register ext_id (ei_type e) (ei_value_size e) m)"

text \<open>The constructor from a list of extensions; the \<open>int\<close> id is narrowed to the parameter type.\<close>

definition ExtensionMap_from :: "(string \<times> int) list \<Rightarrow> extension_map option" where
  "ExtensionMap_from extensions =
     for_each (\<lambda>(uri, ext_id) m. map_option snd (RegisterByUri (word_of_int ext_id) uri m)) extensions ExtensionMap_new"

definition GetTotalLengthInBytes :: "extension_map \<Rightarrow> nat" where
  "GetTotalLengthInBytes m =
     (if em_total_values_size_bytes m = 0 then 0
      else Word32Align (4 + em_total_values_size_bytes m))"

definition Deregister :: "rtp_extension_type \<Rightarrow> extension_map \<Rightarrow> extension_map option" where
  "Deregister t m = do {
     registered \<leftarrow> IsRegistered t m;
     if registered then do {
       ext_id \<leftarrow> GetId t m;
       value_size \<leftarrow> ValueSize t;
       Some (m\<lparr>em_total_values_size_bytes := size_sub (em_total_values_size_bytes m) (value_size + 1),
         em_types := (em_types m)[unat ext_id := kRtpExtensionNone], em_ids := (em_ids m)[ext_index t := 0]\<rparr>) }
     else Some m }"

section \<open>Extension values\<close>

definition AbsoluteSendTime_Parse :: "byte list \<Rightarrow> uint32 option" where
  "AbsoluteSendTime_Parse data = ReadBigEndian 3 data"

text \<open>Shifting a negative value to the left is undefined.\<close>

definition MsTo24Bits :: "int \<Rightarrow> uint32 option" where
  "MsTo24Bits time_ms =
     (if time_ms < 0 then None
      else do {
        shifted \<leftarrow> int64 (push_bit 18 time_ms);
        rounded \<leftarrow> int64 (shifted + 500);
        Some (word_of_int (rounded div 1000) AND 0x00FFFFFF) })"

definition AbsoluteSendTime_Write :: "int \<Rightarrow> byte list option" where
  "AbsoluteSendTime_Write time_ms = do {
     v \<leftarrow> MsTo24Bits time_ms;
     Some (WriteBigEndian 3 v) }"

definition AudioLevel_Parse :: "byte list \<Rightarrow> (bool \<times> byte) option" where
  "AudioLevel_Parse data = do {
     b \<leftarrow> byte_at data 0;
     Some (b AND 0x80 \<noteq> 0, b AND 0x7F) }"

definition AudioLevel_Write :: "bool \<times> byte \<Rightarrow> byte list option" where
  "AudioLevel_Write = (\<lambda>(voice_activity, audio_level).
     if audio_level > 0x7f then None else Some [(if voice_activity then 0x80 else 0) OR audio_level])"

definition TransmissionOffset_Parse :: "byte list \<Rightarrow> int option" where
  "TransmissionOffset_Parse data = ReadBigEndianSigned TYPE(32) 3 data"

definition TransmissionOffset_Write :: "int \<Rightarrow> byte list option" where
  "TransmissionOffset_Write rtp_time =
     (if rtp_time > 0x00ffffff then None else Some (WriteBigEndianSigned TYPE(32) 3 rtp_time))"

definition TransportSequenceNumber_Parse :: "byte list \<Rightarrow> uint16 option" where
  "TransportSequenceNumber_Parse data = ReadBigEndian 2 data"

definition TransportSequenceNumber_Write :: "uint16 \<Rightarrow> byte list option" where
  "TransportSequenceNumber_Write v = Some (WriteBigEndian 2 v)"

datatype video_rotation = kVideoRotation_0 | kVideoRotation_90 | kVideoRotation_180 | kVideoRotation_270

fun ConvertVideoRotationToCVOByte :: "video_rotation \<Rightarrow> byte" where
  "ConvertVideoRotationToCVOByte kVideoRotation_0 = 0"
| "ConvertVideoRotationToCVOByte kVideoRotation_90 = 1"
| "ConvertVideoRotationToCVOByte kVideoRotation_180 = 2"
| "ConvertVideoRotationToCVOByte kVideoRotation_270 = 3"

definition ConvertCVOByteToVideoRotation :: "byte \<Rightarrow> video_rotation option" where
  "ConvertCVOByteToVideoRotation cvo_byte =
     (let rotation_bits = cvo_byte AND 0x3 in
      if rotation_bits = 0 then Some kVideoRotation_0
      else if rotation_bits = 1 then Some kVideoRotation_90
      else if rotation_bits = 2 then Some kVideoRotation_180
      else if rotation_bits = 3 then Some kVideoRotation_270
      else None)"

definition VideoOrientation_Parse :: "byte list \<Rightarrow> video_rotation option" where
  "VideoOrientation_Parse data = do {
     b \<leftarrow> byte_at data 0;
     ConvertCVOByteToVideoRotation b }"

definition VideoOrientation_Write :: "video_rotation \<Rightarrow> byte list option" where
  "VideoOrientation_Write rotation = Some [ConvertVideoRotationToCVOByte rotation]"

definition VideoOrientation_ParseByte :: "byte list \<Rightarrow> byte option" where
  "VideoOrientation_ParseByte data = byte_at data 0"

definition VideoOrientation_WriteByte :: "byte \<Rightarrow> byte list option" where
  "VideoOrientation_WriteByte v = Some [v]"

record playout_delay =
  min_ms :: int
  max_ms :: int

abbreviation (input) kGranularityMs :: int where "kGranularityMs \<equiv> 10"
abbreviation (input) kMaxMs :: int where "kMaxMs \<equiv> 40950"

text \<open>The inner option is the boolean result: a minimum above the maximum is rejected.\<close>

definition PlayoutDelayLimits_Parse :: "byte list \<Rightarrow> playout_delay option option" where
  "PlayoutDelayLimits_Parse data = do {
     raw \<leftarrow> (ReadBigEndian 3 data :: uint32 option);
     let min_raw = (ucast (drop_bit 12 raw) :: uint16);
     let max_raw = (ucast (raw AND 0xfff) :: uint16);
     Some (if min_raw > max_raw then None
           else Some \<lparr>min_ms = uint min_raw * kGranularityMs, max_ms = uint max_raw * kGranularityMs\<rparr>) }"

definition PlayoutDelayLimits_Write :: "playout_delay \<Rightarrow> byte list option" where
  "PlayoutDelayLimits_Write d =
     (if 0 \<le> min_ms d \<and> min_ms d \<le> max_ms d \<and> max_ms d \<le> kMaxMs then
        let min_delay = (word_of_int (min_ms d div kGranularityMs) :: uint32);
            max_delay = word_of_int (max_ms d div kGranularityMs)
        in Some (WriteBigEndian 3 (push_bit 12 min_delay OR max_delay))
      else None)"

section \<open>The contract of an extension\<close>

text \<open>
  What \<open>RtpPacket\<close> relies on: a value of a fixed size between 1 and 16 bytes, a writer that fills
  exactly this size and a reader that stays within it and reads back what \<open>shown\<close> keeps of the value.
\<close>

locale rtp_extension =
  fixes value_size :: nat and Parse :: "byte list \<Rightarrow> 'r option" and Write :: "'v \<Rightarrow> byte list option"
    and valid :: "'v \<Rightarrow> bool" and shown :: "'v \<Rightarrow> 'r"
  assumes value_size_bounds: "1 \<le> value_size" "value_size \<le> 16"
    and Write_size: "valid v \<Longrightarrow> \<exists>bs. Write v = Some bs \<and> length bs = value_size"
    and Parse_Write: "valid v \<Longrightarrow> Write v = Some bs \<Longrightarrow> Parse (bs @ rest) = Some (shown v)"
    and Parse_safe: "value_size \<le> length data \<Longrightarrow> Parse data \<noteq> None"

definition ms_valid :: "int \<Rightarrow> bool" where
  "ms_valid t \<longleftrightarrow> 0 \<le> t \<and> t < 2 ^ 44"

lemma MsTo24Bits_eq:
  assumes "ms_valid t"
  shows "MsTo24Bits t = Some (word_of_int ((t * 262144 + 500) div 1000) AND 0x00FFFFFF)"
  using assms by (simp add: MsTo24Bits_def ms_valid_def int64_def push_bit_eq_mult mult.commute)

lemma take_bit_24: "take_bit 24 v AND 0xFFFFFF = v AND 0xFFFFFF" for v :: uint32
proof -
  have m: "(0xFFFFFF :: uint32) = mask 24" by (simp add: mask_eq_decr_exp)
  show ?thesis unfolding m by (simp flip: take_bit_eq_mask)
qed

interpretation ext_absolute_send_time: rtp_extension 3 AbsoluteSendTime_Parse AbsoluteSendTime_Write ms_valid
  "\<lambda>t. word_of_int ((t * 262144 + 500) div 1000) AND 0x00FFFFFF"
  by unfold_locales (auto simp: AbsoluteSendTime_Parse_def AbsoluteSendTime_Write_def MsTo24Bits_eq
      take_bit_24 ReadBigEndian_fault wire_simps)

lemma or_80:
  fixes l :: byte
  assumes "l \<le> 0x7f"
  shows "(0x80 OR l) AND 0x80 \<noteq> 0" "(0x80 OR l) AND 0x7F = l" "l AND 0x80 = 0" "l AND 0x7F = l"
proof -
  have "unat l < 2 ^ 7" using assms by (simp add: word_le_nat_alt)
  then have l: "take_bit 7 l = l"
    by (metis take_bit_nat_eq_self unsigned_take_bit_eq word_unat_eq_iff)
  have h: "\<not> bit l n" if "7 \<le> n" for n using l that by (metis bit_take_bit_iff not_le)
  have m: "(0x7F :: byte) = mask 7" by (simp add: mask_eq_decr_exp)
  show "l AND 0x7F = l" using l by (simp add: m take_bit_eq_mask)
  have b: "(0x80 :: byte) = push_bit 7 1" by simp
  show "l AND 0x80 = 0" unfolding b by (rule bit_word_eqI) (auto simp del: push_bit_of_1 simp: bit_simps h)
  have "bit ((0x80 OR l) AND 0x80) 7" unfolding b by (simp add: bit_simps del: push_bit_of_1)
  then show "(0x80 OR l) AND 0x80 \<noteq> 0" by force
  show "(0x80 OR l) AND 0x7F = l" unfolding b m
    by (rule bit_word_eqI) (auto simp del: push_bit_of_1 simp: bit_simps intro: ccontr dest: h [OF leI])
qed

interpretation ext_audio_level: rtp_extension 1 AudioLevel_Parse AudioLevel_Write "\<lambda>(_, level). level \<le> 0x7f" "\<lambda>v. v"
  by unfold_locales
    (auto simp: AudioLevel_Parse_def AudioLevel_Write_def byte_at_def or_80 not_less [symmetric] split: if_splits)

text \<open>The 24 bit field keeps the offset modulo \<open>2 ^ 24\<close>.\<close>

interpretation ext_transmission_offset: rtp_extension 3 TransmissionOffset_Parse TransmissionOffset_Write
  "\<lambda>v. v \<le> 0xffffff" "signed_take_bit 23"
proof unfold_locales
  fix v :: int and bs rest :: "byte list"
  assume "v \<le> 0xffffff" "TransmissionOffset_Write v = Some bs"
  then show "TransmissionOffset_Parse (bs @ rest) = Some (signed_take_bit 23 v)"
    using ReadBigEndianSigned_WriteBigEndianSigned_wrap [of 3, where ?'a = 32 and v = v and rest = rest]
    by (simp add: TransmissionOffset_Parse_def TransmissionOffset_Write_def split: if_splits)
next
  fix data :: "byte list"
  assume "3 \<le> length data"
  then show "TransmissionOffset_Parse data \<noteq> None"
    by (simp add: TransmissionOffset_Parse_def ReadBigEndianSigned_def ReadBigEndian_fault SignExtend_def Let_def
        split: Option.bind_splits)
qed (auto simp: TransmissionOffset_Write_def WriteBigEndianSigned_def)

interpretation ext_transport_sequence_number: rtp_extension 2 TransportSequenceNumber_Parse
  TransportSequenceNumber_Write "\<lambda>_. True" "\<lambda>v. v"
  by unfold_locales (auto simp: TransportSequenceNumber_Parse_def TransportSequenceNumber_Write_def
      ReadBigEndian_fault wire_simps)

lemma ConvertCVOByteToVideoRotation_total: "ConvertCVOByteToVideoRotation b \<noteq> None"
proof -
  have "b AND 3 \<le> 3" by (rule word_and_le1)
  then have "unat (b AND 3) \<le> 3" by (simp add: word_le_nat_alt)
  then have "unat (b AND 3) \<in> {0, 1, 2, 3}" by auto
  then have "b AND 3 \<in> {0, 1, 2, 3}" by (auto simp: word_unat_eq_iff)
  then show ?thesis by (auto simp: ConvertCVOByteToVideoRotation_def Let_def)
qed

lemma ConvertCVOByteToVideoRotation_inverse:
  "ConvertCVOByteToVideoRotation (ConvertVideoRotationToCVOByte r) = Some r"
  by (cases r) (simp_all add: ConvertCVOByteToVideoRotation_def)

interpretation ext_video_orientation: rtp_extension 1 VideoOrientation_Parse VideoOrientation_Write "\<lambda>_. True" "\<lambda>v. v"
  by unfold_locales (auto simp: VideoOrientation_Parse_def VideoOrientation_Write_def byte_at_def
      ConvertCVOByteToVideoRotation_inverse ConvertCVOByteToVideoRotation_total simp flip: not_None_eq)

interpretation ext_video_orientation_byte: rtp_extension 1 VideoOrientation_ParseByte VideoOrientation_WriteByte
  "\<lambda>_. True" "\<lambda>v. v"
  by unfold_locales (auto simp: VideoOrientation_ParseByte_def VideoOrientation_WriteByte_def byte_at_def)

definition playout_valid :: "playout_delay \<Rightarrow> bool" where
  "playout_valid d \<longleftrightarrow> 0 \<le> min_ms d \<and> min_ms d \<le> max_ms d \<and> max_ms d \<le> kMaxMs"

lemma pack_12_12:
  fixes a b :: uint32
  assumes "unat a < 2 ^ 12" "unat b < 2 ^ 12"
  shows "drop_bit 12 (take_bit 24 (push_bit 12 a OR b)) = a" "take_bit 24 (push_bit 12 a OR b) AND 0xfff = b"
proof -
  have ta: "take_bit 12 a = a" and tb: "take_bit 12 b = b"
    using assms by (metis take_bit_nat_eq_self unsigned_take_bit_eq word_unat_eq_iff)+
  have ha: "\<not> bit a n" if "12 \<le> n" for n using ta that by (metis bit_take_bit_iff not_le)
  have hb: "\<not> bit b n" if "12 \<le> n" for n using tb that by (metis bit_take_bit_iff not_le)
  have m: "(0xfff :: uint32) = mask 12" by (simp add: mask_eq_decr_exp)
  show "drop_bit 12 (take_bit 24 (push_bit 12 a OR b)) = a"
  proof (rule bit_word_eqI)
    fix n
    show "bit (drop_bit 12 (take_bit 24 (push_bit 12 a OR b))) n = bit a n"
      using ha [of n] hb [of "12 + n"] by (cases "12 \<le> n") (auto simp: bit_simps)
  qed
  show "take_bit 24 (push_bit 12 a OR b) AND 0xfff = b"
    unfolding m
  proof (rule bit_word_eqI)
    fix n
    show "bit (take_bit 24 (push_bit 12 a OR b) AND mask 12) n = bit b n"
      using hb [of n] by (cases "12 \<le> n") (auto simp: bit_simps)
  qed
qed

lemma ucast16_small:
  assumes "0 \<le> x" "x < 2 ^ 12"
  shows "uint (ucast (word_of_int x :: uint32) :: uint16) = x" "unat (word_of_int x :: uint32) < 2 ^ 12"
proof -
  have "uint (word_of_int x :: uint32) = x" using assms by (simp add: uint_word_of_int)
  then show "uint (ucast (word_of_int x :: uint32) :: uint16) = x"
    using assms by (simp add: unsigned_ucast_eq take_bit_int_eq_self)
  show "unat (word_of_int x :: uint32) < 2 ^ 12"
    using assms \<open>uint (word_of_int x :: uint32) = x\<close> by (simp add: nat_less_iff flip: nat_uint_eq)
qed

interpretation ext_playout_delay: rtp_extension 3 PlayoutDelayLimits_Parse PlayoutDelayLimits_Write playout_valid
  "\<lambda>d. Some \<lparr>min_ms = min_ms d - min_ms d mod 10, max_ms = max_ms d - max_ms d mod 10\<rparr>"
proof unfold_locales
  fix d :: playout_delay and bs rest :: "byte list"
  assume v: "playout_valid d" and bs: "PlayoutDelayLimits_Write d = Some bs"
  let ?a = "min_ms d div 10" and ?b = "max_ms d div 10"
  have r: "0 \<le> ?a" "?a < 2 ^ 12" "0 \<le> ?b" "?b < 2 ^ 12" and le: "?a \<le> ?b"
    using v by (auto simp: playout_valid_def zdiv_mono1)
  have bs: "bs = WriteBigEndian 3 (push_bit 12 (word_of_int ?a :: uint32) OR word_of_int ?b)"
    using v bs by (simp add: playout_valid_def PlayoutDelayLimits_Write_def Let_def)
  have "\<not> (ucast (word_of_int ?a :: uint32) :: uint16) > ucast (word_of_int ?b :: uint32)"
    using le by (simp only: word_less_def ucast16_small(1) [OF r(1,2)] ucast16_small(1) [OF r(3,4)] not_less)
  moreover obtain raw :: uint32 where "ReadBigEndian 3 (bs @ rest) = Some raw"
    "drop_bit 12 raw = word_of_int ?a" "raw AND 0xfff = word_of_int ?b"
    using pack_12_12 [OF ucast16_small(2) [OF r(1,2)] ucast16_small(2) [OF r(3,4)]] unfolding bs ReadBigEndian_24
    by blast
  ultimately show "PlayoutDelayLimits_Parse (bs @ rest) =
      Some (Some \<lparr>min_ms = min_ms d - min_ms d mod 10, max_ms = max_ms d - max_ms d mod 10\<rparr>)"
    by (simp add: PlayoutDelayLimits_Parse_def ucast16_small(1) [OF r(1,2)] ucast16_small(1) [OF r(3,4)]
        Let_def minus_mod_eq_div_mult)
qed (auto simp: PlayoutDelayLimits_Parse_def PlayoutDelayLimits_Write_def playout_valid_def Let_def
      ReadBigEndian_fault split: Option.bind_splits)

section \<open>Invariant of the registry\<close>

text \<open>
  The two tables are inverse to each other on the registered entries, slot 0 of both stands for "not
  registered", and the size counts one header byte and the value of every registered extension.
\<close>

definition ext_registered :: "extension_map \<Rightarrow> extension_info \<Rightarrow> bool" where
  "ext_registered m e \<longleftrightarrow> em_ids m ! ext_index (ei_type e) \<noteq> 0"

definition em_inv :: "extension_map \<Rightarrow> bool" where
  "em_inv m \<longleftrightarrow> length (em_types m) = 15 \<and> length (em_ids m) = 7 \<and> em_ids m ! 0 = 0 \<and>
     (\<forall>i<15. em_types m ! i \<noteq> kRtpExtensionNone \<longrightarrow>
        0 < i \<and> ext_index (em_types m ! i) < 7 \<and> em_ids m ! ext_index (em_types m ! i) = of_nat i) \<and>
     (\<forall>t. ext_index t < 7 \<and> em_ids m ! ext_index t \<noteq> 0 \<longrightarrow>
        unat (em_ids m ! ext_index t) < 15 \<and> em_types m ! unat (em_ids m ! ext_index t) = t) \<and>
     em_total_values_size_bytes m =
       (\<Sum>e\<leftarrow>kExtensions. if ext_registered m e then ei_value_size e + 1 else 0)"

lemma ext_index_inj [simp]: "ext_index s = ext_index t \<longleftrightarrow> s = t"
  by (cases s; cases t) simp_all

lemma ext_index_0 [simp]: "ext_index t = 0 \<longleftrightarrow> t = kRtpExtensionNone"
  by (cases t) simp_all

lemma in_kExtensions:
  assumes "e \<in> set kExtensions"
  shows "0 < ext_index (ei_type e)" "ext_index (ei_type e) < 7" "1 \<le> ei_value_size e" "ei_value_size e \<le> 16"
  using assms by (auto simp: kExtensions_def)

lemma find_kExtensions:
  assumes "0 < ext_index t" "ext_index t < 7"
  shows "\<exists>e \<in> set kExtensions. find (\<lambda>e. t = ei_type e) kExtensions = Some e \<and> ei_type e = t"
  using assms by (cases t) (simp_all add: kExtensions_def)

lemma sum_list_update_one:
  assumes "distinct (map g xs)" "e \<in> set xs" "\<forall>x \<in> set xs. g x < length ids"
  shows "(\<Sum>x\<leftarrow>xs. if ids[g e := v] ! g x \<noteq> (0 :: byte) then f x else 0) + (if ids ! g e \<noteq> 0 then f e else 0) =
    (\<Sum>x\<leftarrow>xs. if ids ! g x \<noteq> 0 then f x else (0 :: nat)) + (if v \<noteq> 0 then f e else 0)"
  using assms
proof (induction xs)
  case (Cons y ys)
  show ?case
  proof (cases "y = e")
    case True
    have "(\<Sum>x\<leftarrow>ys. if ids[g e := v] ! g x \<noteq> 0 then f x else 0) = (\<Sum>x\<leftarrow>ys. if ids ! g x \<noteq> 0 then f x else 0)"
      using Cons.prems(1) True by (intro arg_cong [of _ _ sum_list] map_cong) (auto simp: image_iff nth_list_update_neq)
    then show ?thesis using True Cons.prems(3) by simp
  next
    case False
    then have "g y \<noteq> g e" "e \<in> set ys" using Cons.prems(1,2) by (auto simp: image_iff)
    then show ?thesis using Cons by simp
  qed
qed simp

lemma distinct_kExtensions: "distinct (map (\<lambda>e. ext_index (ei_type e)) kExtensions)"
  by (simp add: kExtensions_def)

lemma em_inv_new: "em_inv ExtensionMap_new"
  by (auto simp: em_inv_def ExtensionMap_new_def ext_registered_def kExtensions_def)

lemma em_inv_ids_range:
  assumes "em_inv m" "ext_index t < 7" "em_ids m ! ext_index t \<noteq> 0"
  shows "unat (em_ids m ! ext_index t) < 15" "em_types m ! unat (em_ids m ! ext_index t) = t"
  using assms by (auto simp: em_inv_def)

lemma em_inv_types:
  assumes "em_inv m" "i < 15" "em_types m ! i \<noteq> kRtpExtensionNone"
  shows "0 < i" "ext_index (em_types m ! i) < 7" "em_ids m ! ext_index (em_types m ! i) = of_nat i"
  using assms by (auto simp: em_inv_def)

text \<open>What the tables say of the extension ids, as a partial map.\<close>

definition ext_abs :: "extension_map \<Rightarrow> byte \<Rightarrow> rtp_extension_type option" where
  "ext_abs m i = (if 1 \<le> i \<and> i \<le> 14 \<and> em_types m ! unat i \<noteq> kRtpExtensionNone then Some (em_types m ! unat i) else None)"

lemma id_range: "1 \<le> i \<and> i \<le> 14 \<longleftrightarrow> 0 < unat i \<and> unat i < 15" for i :: byte
  by (auto simp: word_le_nat_alt)

lemma nth_0_list_update: "0 < k \<Longrightarrow> xs[k := v] ! 0 = xs ! 0"
  by simp

lemma em_inv_update:
  assumes inv: "em_inv m" and e: "e \<in> set kExtensions" and i: "0 < unat i" "unat i < 15"
    and free: "em_types m ! unat i = kRtpExtensionNone" "em_ids m ! ext_index (ei_type e) = 0"
  shows "em_inv (m\<lparr>em_types := (em_types m)[unat i := ei_type e], em_ids := (em_ids m)[ext_index (ei_type e) := i],
     em_total_values_size_bytes := em_total_values_size_bytes m + (ei_value_size e + 1)\<rparr>)" (is "em_inv ?m")
proof -
  note ke = in_kExtensions [OF e]
  have len: "length (em_types m) = 15" "length (em_ids m) = 7" and zero: "em_ids m ! 0 = 0"
    using inv by (auto simp: em_inv_def)
  have i0: "i \<noteq> 0" using i(1) by auto
  have nz: "(of_nat j :: byte) \<noteq> 0" if "0 < j" "j < 15" for j
    using that by (simp add: word_unat_eq_iff unat_of_nat)
  have fwd: "0 < j \<and> ext_index (em_types ?m ! j) < 7 \<and> em_ids ?m ! ext_index (em_types ?m ! j) = of_nat j"
    if "j < 15" "em_types ?m ! j \<noteq> kRtpExtensionNone" for j
    using that em_inv_types [OF inv, of j] nz [of j] i ke free len by (auto simp: nth_list_update)
  have bwd: "unat (em_ids ?m ! ext_index t) < 15 \<and> em_types ?m ! unat (em_ids ?m ! ext_index t) = t"
    if "ext_index t < 7" "em_ids ?m ! ext_index t \<noteq> 0" for t
    using that em_inv_ids_range [OF inv, of t] i ke free len zero by (auto simp: nth_list_update split: if_splits)
  have "em_total_values_size_bytes ?m = (\<Sum>x\<leftarrow>kExtensions. if ext_registered ?m x then ei_value_size x + 1 else 0)"
    using sum_list_update_one [OF distinct_kExtensions e, of "em_ids m" i "\<lambda>x. ei_value_size x + 1"]
      inv in_kExtensions(2) i0 free(2) by (simp add: em_inv_def ext_registered_def)
  moreover have "em_ids ?m ! 0 = 0" using zero ke(1) by (simp add: nth_0_list_update)
  ultimately show ?thesis
    using fwd bwd len unfolding em_inv_def by simp
qed

lemma registered_iff:
  assumes inv: "em_inv m" and t: "0 < ext_index t" "ext_index t < 7"
  shows "em_ids m ! ext_index t \<noteq> 0 \<longleftrightarrow> (\<exists>i. ext_abs m i = Some t)"
    and "ext_abs m i = Some t \<longleftrightarrow> em_ids m ! ext_index t \<noteq> 0 \<and> i = em_ids m ! ext_index t"
proof -
  have one: "ext_abs m i = Some t \<longleftrightarrow> em_ids m ! ext_index t \<noteq> 0 \<and> i = em_ids m ! ext_index t" for i
  proof
    assume "ext_abs m i = Some t"
    then have "em_types m ! unat i = t" "0 < unat i" "unat i < 15" "t \<noteq> kRtpExtensionNone"
      using id_range [of i] by (auto simp: ext_abs_def split: if_splits)
    then show "em_ids m ! ext_index t \<noteq> 0 \<and> i = em_ids m ! ext_index t"
      using em_inv_types(3) [OF inv, of "unat i"] by auto
  next
    assume "em_ids m ! ext_index t \<noteq> 0 \<and> i = em_ids m ! ext_index t"
    then show "ext_abs m i = Some t"
      using em_inv_ids_range [OF inv t(2)] t(1) id_range [of i] by (auto simp: ext_abs_def unat_gt_0)
  qed
  then show "em_ids m ! ext_index t \<noteq> 0 \<longleftrightarrow> (\<exists>i. ext_abs m i = Some t)"
    and "ext_abs m i = Some t \<longleftrightarrow> em_ids m ! ext_index t \<noteq> 0 \<and> i = em_ids m ! ext_index t" by blast+
qed

text \<open>Registration as an update of the partial map, with the debug check on a type that has another id.\<close>

definition Register_spec :: "byte \<Rightarrow> rtp_extension_type \<Rightarrow> extension_map \<Rightarrow> (bool \<times> extension_map) option \<Rightarrow> bool" where
  "Register_spec i t m r \<longleftrightarrow> (let accepts = (1 \<le> i \<and> i \<le> 14 \<and> (ext_abs m i = None \<or> ext_abs m i = Some t)) in
     case r of
       None \<Rightarrow> accepts \<and> (\<exists>j. j \<noteq> i \<and> ext_abs m j = Some t)
     | Some (ok, m') \<Rightarrow> em_inv m' \<and> (ok \<longleftrightarrow> accepts) \<and>
         ext_abs m' = (if ok then (ext_abs m)(i \<mapsto> t) else ext_abs m))"

lemma ext_abs_update:
  assumes "length (em_types m) = 15" "0 < unat i" "unat i < 15"
  shows "ext_abs (m\<lparr>em_types := (em_types m)[unat i := t], em_ids := x, em_total_values_size_bytes := y\<rparr>) =
    (ext_abs m)(i := if t = kRtpExtensionNone then None else Some t)"
  using assms id_range by (auto simp: ext_abs_def fun_eq_iff nth_list_update simp flip: word_unat_eq_iff)

lemma Register_refines:
  assumes inv: "em_inv m" and e: "e \<in> set kExtensions"
  shows "Register_spec i (ei_type e) m (Register i (ei_type e) (ei_value_size e) m)"
proof (cases "1 \<le> i \<and> i \<le> 14")
  case False
  then have "Register i (ei_type e) (ei_value_size e) m = Some (False, m)"
    using in_kExtensions [OF e] by (auto simp: Register_def not_less not_le)
  with False inv show ?thesis by (auto simp: Register_spec_def)
next
  case True
  note ke = in_kExtensions [OF e] and len = inv [unfolded em_inv_def, THEN conjunct1]
  have r: "0 < unat i" "unat i < 15" using True id_range by auto
  have range: "\<not> i < 1" "\<not> 14 < i" using True by auto
  have tn: "ei_type e \<noteq> kRtpExtensionNone" using ke(1) by auto
  consider (same) "em_types m ! unat i = ei_type e" | (other) "em_types m ! unat i \<notin> {ei_type e, kRtpExtensionNone}"
    | (free) "em_types m ! unat i = kRtpExtensionNone" by blast
  then show ?thesis
  proof cases
    case same
    then show ?thesis using ke inv True tn range
      by (auto simp: Register_spec_def Register_def GetType_def ext_abs_def fun_eq_iff)
  next
    case other
    then show ?thesis using ke inv True range
      by (auto simp: Register_spec_def Register_def GetType_def ext_abs_def)
  next
    case free
    then have none: "ext_abs m i = None" by (simp add: ext_abs_def)
    show ?thesis
    proof (cases "em_ids m ! ext_index (ei_type e) = 0")
      case True
      then show ?thesis using free none r range ke tn em_inv_update [OF inv e r free True] ext_abs_update [OF len r]
        by (simp add: Register_spec_def Register_def GetType_def IsRegistered_def GetId_def id_range)
    next
      case False
      then obtain j where "ext_abs m j = Some (ei_type e)"
        using registered_iff(1) [OF inv ke(1,2)] by auto
      moreover have "j \<noteq> i" using none calculation by auto
      ultimately show ?thesis using free none r range ke tn False
        by (auto simp: Register_spec_def Register_def GetType_def IsRegistered_def GetId_def id_range)
    qed
  qed
qed

lemma em_inv_clear:
  assumes inv: "em_inv m" and e: "e \<in> set kExtensions" and set: "em_ids m ! ext_index (ei_type e) \<noteq> 0"
  defines "i \<equiv> em_ids m ! ext_index (ei_type e)"
  shows "em_inv (m\<lparr>em_total_values_size_bytes := em_total_values_size_bytes m - (ei_value_size e + 1),
     em_types := (em_types m)[unat i := kRtpExtensionNone], em_ids := (em_ids m)[ext_index (ei_type e) := 0]\<rparr>)"
    (is "em_inv ?m") and "ei_value_size e + 1 \<le> em_total_values_size_bytes m"
proof -
  note ke = in_kExtensions [OF e]
  have len: "length (em_types m) = 15" "length (em_ids m) = 7" and zero: "em_ids m ! 0 = 0"
    using inv by (auto simp: em_inv_def)
  have i: "unat i < 15" "em_types m ! unat i = ei_type e"
    using em_inv_ids_range [OF inv ke(2) set] by (simp_all add: i_def)
  have fwd: "0 < j \<and> ext_index (em_types ?m ! j) < 7 \<and> em_ids ?m ! ext_index (em_types ?m ! j) = of_nat j"
    if "j < 15" "em_types ?m ! j \<noteq> kRtpExtensionNone" for j
  proof -
    have j: "j \<noteq> unat i" "em_types ?m ! j = em_types m ! j"
      using that i(1) len by (auto simp: nth_list_update split: if_splits)
    note old = em_inv_types [OF inv that(1) that(2) [unfolded j(2)]]
    have "unat (of_nat j :: byte) = j" using that(1) by (simp add: unat_of_nat)
    then have "em_types m ! j \<noteq> ei_type e" using old(3) j(1) by (auto simp: i_def)
    then show ?thesis using old j len ke by (simp add: nth_list_update)
  qed
  have bwd: "unat (em_ids ?m ! ext_index t) < 15 \<and> em_types ?m ! unat (em_ids ?m ! ext_index t) = t"
    if "ext_index t < 7" "em_ids ?m ! ext_index t \<noteq> 0" for t
    using that em_inv_ids_range [OF inv, of t] i ke len by (auto simp: nth_list_update split: if_splits)
  have "(\<Sum>x\<leftarrow>kExtensions. if ext_registered ?m x then ei_value_size x + 1 else 0) + (ei_value_size e + 1) =
      em_total_values_size_bytes m"
    using sum_list_update_one [OF distinct_kExtensions e, of "em_ids m" 0 "\<lambda>x. ei_value_size x + 1"]
      inv in_kExtensions(2) set by (simp add: em_inv_def ext_registered_def)
  moreover have "em_ids ?m ! 0 = 0" using zero ke(1) by (simp add: nth_0_list_update)
  ultimately show "em_inv ?m" "ei_value_size e + 1 \<le> em_total_values_size_bytes m"
    using fwd bwd len unfolding em_inv_def by simp_all
qed

text \<open>Deregistration never faults, never lets the size wrap and removes exactly the entry of the type.\<close>

lemma Deregister_refines:
  assumes inv: "em_inv m" and t: "0 < ext_index t" "ext_index t < 7"
  shows "\<exists>m'. Deregister t m = Some m' \<and> em_inv m' \<and>
     ext_abs m' = (\<lambda>i. if ext_abs m i = Some t then None else ext_abs m i) \<and>
     em_total_values_size_bytes m' \<le> em_total_values_size_bytes m"
proof (cases "em_ids m ! ext_index t = 0")
  case True
  then have "Deregister t m = Some m" using t by (auto simp: Deregister_def IsRegistered_def GetId_def)
  moreover have "ext_abs m i \<noteq> Some t" for i using registered_iff(2) [OF inv t] True by simp
  ultimately show ?thesis using inv by simp
next
  case False
  let ?i = "em_ids m ! ext_index t"
  obtain e where e: "e \<in> set kExtensions" "find (\<lambda>e. t = ei_type e) kExtensions = Some e" "ei_type e = t"
    using find_kExtensions [OF t] by blast
  let ?m = "m\<lparr>em_total_values_size_bytes := em_total_values_size_bytes m - (ei_value_size e + 1),
     em_types := (em_types m)[unat ?i := kRtpExtensionNone], em_ids := (em_ids m)[ext_index t := 0]\<rparr>"
  note clear = em_inv_clear [OF inv e(1), unfolded e(3), OF False]
  have "t \<noteq> kRtpExtensionNone" using t(1) by auto
  then have "Deregister t m = Some ?m"
    using t False clear(2) e(2) by (simp add: Deregister_def IsRegistered_def GetId_def ValueSize_def)
  moreover have "ext_abs ?m = (\<lambda>i. if ext_abs m i = Some t then None else ext_abs m i)"
    using ext_abs_update [of m ?i, where t = kRtpExtensionNone] em_inv_ids_range [OF inv t(2) False] inv False
      registered_iff(2) [OF inv t] by (auto simp: em_inv_def fun_eq_iff unat_gt_0 ext_abs_def nth_list_update)
  ultimately show ?thesis using clear(1) by auto
qed

lemma GetId_spec:
  assumes "em_inv m" "0 < ext_index t" "ext_index t < 7"
  shows "\<exists>i. GetId t m = Some i \<and> (\<forall>j. ext_abs m j = Some t \<longleftrightarrow> i \<noteq> 0 \<and> j = i)"
  using registered_iff(2) [OF assms] assms(2,3) by (auto simp: GetId_def)

lemma GetTotalLengthInBytes_bound:
  assumes "em_inv m"
  shows "em_total_values_size_bytes m \<le> 19" "GetTotalLengthInBytes m \<le> 24" "GetTotalLengthInBytes m mod 4 = 0"
proof -
  show 19: "em_total_values_size_bytes m \<le> 19"
  proof -
    have "(\<Sum>e\<leftarrow>kExtensions. if ext_registered m e then ei_value_size e + 1 else 0) \<le> (\<Sum>e\<leftarrow>kExtensions. ei_value_size e + 1)"
      by (rule sum_list_mono) simp
    also have "\<dots> = 19" by (simp add: kExtensions_def)
    finally show ?thesis using assms by (simp add: em_inv_def)
  qed
  show "GetTotalLengthInBytes m \<le> 24" "GetTotalLengthInBytes m mod 4 = 0"
    using 19 by (simp_all add: GetTotalLengthInBytes_def Word32Align_def Let_def) presburger+
qed

section \<open>The registry as a partial map\<close>



text \<open>Offsets from \<open>2 ^ 23\<close> to \<open>2 ^ 24 - 1\<close> pass the check of the writer and are read back as negative ones.\<close>

lemma TransmissionOffset_wraps:
  assumes "2 ^ 23 \<le> v" "v < 2 ^ 24"
  shows "\<exists>bs. TransmissionOffset_Write v = Some bs \<and> TransmissionOffset_Parse bs = Some (v - 2 ^ 24)"
proof -
  have v: "v \<le> 0xffffff" using assms by simp
  obtain bs where bs: "TransmissionOffset_Write v = Some bs" using ext_transmission_offset.Write_size [OF v] by blast
  have "take_bit 24 (v + 2 ^ 23) = v + 2 ^ 23 - 2 ^ 24"
    using assms minus_mod_self2 [of "v + 2 ^ 23" "2 ^ 24"] mod_pos_pos_trivial [of "v + 2 ^ 23 - 2 ^ 24" "2 ^ 24"]
    by (simp add: take_bit_eq_mod)
  then have "signed_take_bit 23 v = v - 2 ^ 24" by (simp add: signed_take_bit_eq_take_bit_shift)
  then show ?thesis using ext_transmission_offset.Parse_Write [OF v bs, of "[]"] bs by simp
qed

text \<open>The constructor from a list narrows the id to 8 bits before it is checked.\<close>

lemma ExtensionMap_from_narrows: "ExtensionMap_from [(uri, ext_id + 256)] = ExtensionMap_from [(uri, ext_id)]"
proof -
  have "(word_of_int (ext_id + 256) :: byte) = word_of_int ext_id" by (simp add: word_of_int_eq_iff take_bit_eq_mod)
  then show ?thesis by (simp only: ExtensionMap_from_def for_each.simps prod.case)
qed

end
