(* ===== verification/RtpHeader.thy ===== *)
theory RtpHeader
  imports RtpExtension
begin

text \<open>
  \<open>RTPHeader\<close> of \<open>common_types.h\<close> and the parser \<open>RtpHeaderParser\<close> of \<open>rtp_utility.cc\<close> that fills it.
  The packet is the list of its bytes; a null pointer is the empty list. A parser returns its
  boolean result and the header as it left it, or faults.
\<close>

section \<open>RTPHeader\<close>

record rtp_header_extension =
  hasTransmissionTimeOffset :: bool
  transmissionTimeOffset :: int
  hasAbsoluteSendTime :: bool
  absoluteSendTime :: uint32
  hasTransportSequenceNumber :: bool
  transportSequenceNumber :: uint16
  hasAudioLevel :: bool
  voiceActivity :: bool
  audioLevel :: byte
  hasVideoRotation :: bool
  videoRotation :: video_rotation
  playoutDelay :: playout_delay

record rtp_header =
  markerBit :: bool
  payloadType :: byte
  sequenceNumber :: uint16
  timestamp :: uint32
  hdr_ssrc :: uint32
  numCSRCs :: byte
  arrOfCSRCs :: "uint32 list"
  paddingLength :: nat
  headerLength :: nat
  payload_type_frequency :: int
  hdr_extension :: rtp_header_extension

definition RTPHeaderExtension_new :: rtp_header_extension where
  "RTPHeaderExtension_new = \<lparr>hasTransmissionTimeOffset = False, transmissionTimeOffset = 0,
     hasAbsoluteSendTime = False, absoluteSendTime = 0,
     hasTransportSequenceNumber = False, transportSequenceNumber = 0,
     hasAudioLevel = False, voiceActivity = False, audioLevel = 0,
     hasVideoRotation = False, videoRotation = kVideoRotation_0,
     playoutDelay = \<lparr>min_ms = -1, max_ms = -1\<rparr>\<rparr>"

definition RTPHeader_new :: rtp_header where
  "RTPHeader_new = \<lparr>markerBit = False, payloadType = 0, sequenceNumber = 0, timestamp = 0, hdr_ssrc = 0,
     numCSRCs = 0, arrOfCSRCs = replicate 15 0, paddingLength = 0, headerLength = 0,
     payload_type_frequency = 0, hdr_extension = RTPHeaderExtension_new\<rparr>"

section \<open>RtpHeaderParser\<close>

definition HeaderParser_RTCP :: "byte list \<Rightarrow> bool option" where
  "HeaderParser_RTCP data =
     (if length data < 4 then Some False
      else do {
        b0 \<leftarrow> byte_at data 0;
        if drop_bit 6 b0 \<noteq> 2 then Some False
        else do {
          payload_type \<leftarrow> byte_at data 1;
          Some (payload_type = 192 \<or>
            (payload_type \<noteq> 193 \<and> payload_type \<in> {195, 200, 201, 202, 203, 204, 205, 206, 207})) } })"

definition HeaderParser_ParseRtcp :: "byte list \<Rightarrow> rtp_header \<Rightarrow> (bool \<times> rtp_header) option" where
  "HeaderParser_ParseRtcp data header =
     (if length data < 8 then Some (False, header)
      else do {
        b0 \<leftarrow> byte_at data 0;
        if drop_bit 6 b0 \<noteq> 2 then Some (False, header)
        else do {
          PT \<leftarrow> byte_at data 1;
          b2 \<leftarrow> byte_at data 2;
          b3 \<leftarrow> byte_at data 3;
          let len = push_bit 8 (unat b2) + unat b3;
          SSRC \<leftarrow> ReadBigEndian 4 (drop 4 data);
          Some (True, header\<lparr>payloadType := PT, hdr_ssrc := SSRC, headerLength := 4 + push_bit 2 len\<rparr>) } })"

text \<open>
  The value of an extension element, by its registered type: \<open>Inl\<close> for a return from the loop, \<open>Inr\<close>
  to go on with the next element. \<open>len\<close> is the size less one, as in the element's header.
\<close>

definition ParseElement ::
  "rtp_extension_type \<Rightarrow> nat \<Rightarrow> byte list \<Rightarrow> rtp_header_extension \<Rightarrow> (unit + rtp_header_extension) option" where
  "ParseElement t len ptr e = (case t of
     kRtpExtensionTransmissionTimeOffset \<Rightarrow>
       if len \<noteq> 2 then Some (Inl ()) else do {
         v \<leftarrow> ReadBigEndianSigned TYPE(32) 3 ptr;
         Some (Inr (e\<lparr>transmissionTimeOffset := v, hasTransmissionTimeOffset := True\<rparr>)) }
   | kRtpExtensionAudioLevel \<Rightarrow>
       if len \<noteq> 0 then Some (Inl ()) else do {
         b \<leftarrow> byte_at ptr 0;
         Some (Inr (e\<lparr>audioLevel := b AND 0x7f, voiceActivity := b AND 0x80 \<noteq> 0, hasAudioLevel := True\<rparr>)) }
   | kRtpExtensionAbsoluteSendTime \<Rightarrow>
       if len \<noteq> 2 then Some (Inl ()) else do {
         v \<leftarrow> ReadBigEndian 3 ptr;
         Some (Inr (e\<lparr>absoluteSendTime := v, hasAbsoluteSendTime := True\<rparr>)) }
   | kRtpExtensionVideoRotation \<Rightarrow>
       if len \<noteq> 0 then Some (Inl ()) else do {
         b \<leftarrow> byte_at ptr 0;
         r \<leftarrow> ConvertCVOByteToVideoRotation b;
         Some (Inr (e\<lparr>hasVideoRotation := True, videoRotation := r\<rparr>)) }
   | kRtpExtensionTransportSequenceNumber \<Rightarrow>
       if len \<noteq> 1 then Some (Inl ()) else do {
         b0 \<leftarrow> byte_at ptr 0;
         b1 \<leftarrow> byte_at ptr 1;
         Some (Inr (e\<lparr>transportSequenceNumber := push_bit 8 (ucast b0) + ucast b1, hasTransportSequenceNumber := True\<rparr>)) }
   | kRtpExtensionPlayoutDelay \<Rightarrow>
       if len \<noteq> 2 then Some (Inl ()) else do {
         b0 \<leftarrow> byte_at ptr 0;
         b1 \<leftarrow> byte_at ptr 1;
         b2 \<leftarrow> byte_at ptr 2;
         let min_playout_delay = push_bit 4 (uint b0) OR (uint (drop_bit 4 b1) AND 0xf);
         let max_playout_delay = push_bit 8 (uint (b1 AND 0xf)) OR uint b2;
         Some (Inr (e\<lparr>playoutDelay := \<lparr>min_ms = min_playout_delay * kGranularityMs,
           max_ms = max_playout_delay * kGranularityMs\<rparr>\<rparr>)) }
   | _ \<Rightarrow> None)"

text \<open>The loop over the bytes between \<open>ptr\<close> and \<open>ptrRTPDataExtensionEnd\<close>.\<close>

function ParseOneByteExtensionHeader :: "extension_map \<Rightarrow> byte list \<Rightarrow> rtp_header_extension \<Rightarrow> rtp_header_extension option" where
  "ParseOneByteExtensionHeader m [] e = Some e"
| "ParseOneByteExtensionHeader m (b # ptr) e =
     (let ext_id = drop_bit 4 (b AND 0xf0); len = unat (b AND 0x0f) in
      if ext_id = 0 then ParseOneByteExtensionHeader m ptr e
      else if ext_id = 15 then Some e
      else if length ptr < len + 1 then Some e
      else do {
        t \<leftarrow> GetType ext_id m;
        r \<leftarrow> (if t = kRtpExtensionNone then Some (Inr e) else ParseElement t len ptr e);
        case r of
          Inl _ \<Rightarrow> Some e
        | Inr e \<Rightarrow> ParseOneByteExtensionHeader m (drop (len + 1) ptr) e })"
  by pat_completeness auto
termination
  by (relation "measure (\<lambda>(m, ptr, e). length ptr)") auto

definition clear_extension :: "rtp_header_extension \<Rightarrow> rtp_header_extension" where
  "clear_extension e = e\<lparr>hasTransmissionTimeOffset := False, transmissionTimeOffset := 0,
     hasAbsoluteSendTime := False, absoluteSendTime := 0,
     hasAudioLevel := False, voiceActivity := False, audioLevel := 0,
     hasVideoRotation := False, videoRotation := kVideoRotation_0,
     playoutDelay := \<lparr>min_ms = -1, max_ms = -1\<rparr>\<rparr>"

definition HeaderParser_Parse ::
  "byte list \<Rightarrow> extension_map option \<Rightarrow> rtp_header \<Rightarrow> (bool \<times> rtp_header) option" where
  "HeaderParser_Parse data ptrExtensionMap header =
     (if length data < 12 then Some (False, header)
      else do {
        b0 \<leftarrow> byte_at data 0;
        b1 \<leftarrow> byte_at data 1;
        b2 \<leftarrow> byte_at data 2;
        b3 \<leftarrow> byte_at data 3;
        let CC = b0 AND 0x0f;
        RTPTimestamp \<leftarrow> ReadBigEndian 4 (drop 4 data);
        SSRC \<leftarrow> ReadBigEndian 4 (drop 8 data);
        if drop_bit 6 b0 \<noteq> 2 then Some (False, header)
        else if 12 + unat CC * 4 > length data then Some (False, header)
        else do {
          padding \<leftarrow> (if b0 AND 0x20 \<noteq> 0 then byte_at data (length data - 1) else Some 0);
          csrcs \<leftarrow> read_items (ReadBigEndian 4) 4 (unat CC) (drop 12 data);
          let header = header\<lparr>markerBit := b1 AND 0x80 \<noteq> 0, payloadType := b1 AND 0x7f,
            sequenceNumber := push_bit 8 (ucast b2) + ucast b3, timestamp := RTPTimestamp, hdr_ssrc := SSRC,
            numCSRCs := CC, paddingLength := unat padding,
            arrOfCSRCs := splice_at 0 csrcs (arrOfCSRCs header), headerLength := 12 + unat CC * 4,
            hdr_extension := clear_extension (hdr_extension header)\<rparr>;
          let ptr = drop (12 + unat CC * 4) data;
          (ok, header) \<leftarrow>
            (if b0 AND 0x10 \<noteq> 0 then
               (if length ptr < 4 then Some (False, header)
                else do {
                  let header = header\<lparr>headerLength := headerLength header + 4\<rparr>;
                  definedByProfile \<leftarrow> (ReadBigEndian 2 ptr :: uint16 option);
                  xlen \<leftarrow> (ReadBigEndian 2 (drop 2 ptr) :: uint16 option);
                  let XLen = unat xlen * 4;
                  if length ptr < 4 + XLen then Some (False, header)
                  else do {
                    e \<leftarrow> (case ptrExtensionMap of
                       Some m \<Rightarrow>
                         if definedByProfile = 0xBEDE
                         then ParseOneByteExtensionHeader m (take XLen (drop 4 ptr)) (hdr_extension header)
                         else Some (hdr_extension header)
                     | None \<Rightarrow> Some (hdr_extension header));
                    Some (True, header\<lparr>hdr_extension := e, headerLength := headerLength header + XLen\<rparr>) } })
             else Some (True, header));
          Some (ok \<and> headerLength header + paddingLength header \<le> length data, header) } })"

end
