(* ===== verification/RtcRandom.thy ===== *)
theory RtcRandom
  imports Prelude
begin

text \<open>
  The pseudo-random generator \<open>Random\<close> of \<open>base/random.h\<close>. The object is its 64 bit state; a failed
  debug check and an overflow of a signed subtraction are faults.
\<close>

section \<open>Model\<close>

definition Random_new :: "uint64 \<Rightarrow> uint64 option" where
  "Random_new seed = (if seed = 0 then None else Some seed)"

definition NextOutput :: "uint64 \<Rightarrow> (uint64 \<times> uint64) option" where
  "NextOutput state =
     (let state = state XOR drop_bit 12 state;
          state = state XOR push_bit 25 state;
          state = state XOR drop_bit 27 state
      in if state = 0 then None else Some (state * 2685821657736338717, state))"

definition Rand_uint8 :: "uint64 \<Rightarrow> (byte \<times> uint64) option" where
  "Rand_uint8 state = map_option (\<lambda>(x, state). (ucast x, state)) (NextOutput state)"

definition Rand_to :: "uint32 \<Rightarrow> uint64 \<Rightarrow> (uint32 \<times> uint64) option" where
  "Rand_to t state = do {
     (out, state) \<leftarrow> NextOutput state;
     let x = (ucast out :: uint32);
     let result = ucast x * ((ucast t :: uint64) + 1);
     Some (ucast (drop_bit 32 result), state) }"

definition Rand_between :: "uint32 \<Rightarrow> uint32 \<Rightarrow> uint64 \<Rightarrow> (uint32 \<times> uint64) option" where
  "Rand_between low high state =
     (if low \<le> high then map_option (\<lambda>(v, state). (v + low, state)) (Rand_to (high - low) state) else None)"

definition Rand_signed :: "int \<Rightarrow> int \<Rightarrow> uint64 \<Rightarrow> (int \<times> uint64) option" where
  "Rand_signed low high state =
     (if low \<le> high then
        do {
          t \<leftarrow> (if high - low < 2 ^ 31 then Some (high - low) else None);
          (v, state) \<leftarrow> Rand_to (word_of_int t) state;
          Some (sint (v + word_of_int low), state) }
      else None)"

definition Rand_bool :: "uint64 \<Rightarrow> (bool \<times> uint64) option" where
  "Rand_bool state = map_option (\<lambda>(v, state). (v = 1, state)) (Rand_signed 0 1 state)"

section \<open>Every output is defined and not zero\<close>

lemma xor_drop_bit_eq_0:
  fixes x :: "'a::len word"
  assumes "x XOR drop_bit n x = 0" "0 < n"
  shows "x = 0"
proof (rule bit_word_eqI)
  have step: "bit x i = bit x (n + i)" for i
    using arg_cong [OF assms(1), of "\<lambda>w. bit w i"] by (auto simp: bit_simps)
  have "\<not> bit x i" for i
  proof (induction "LENGTH('a) - i" arbitrary: i rule: less_induct)
    case less
    then show ?case using step [of i] assms(2) bit_imp_le_length [of x i]
      by (metis add.commute diff_less_mono2 less_add_same_cancel2)
  qed
  then show "bit x i = bit 0 i" for i by simp
qed

lemma xor_push_bit_eq_0:
  fixes x :: "'a::len word"
  assumes "x XOR push_bit n x = 0" "0 < n"
  shows "x = 0"
proof (rule bit_word_eqI)
  have step: "bit x i = (n \<le> i \<and> bit x (i - n))" if "i < LENGTH('a)" for i
    using arg_cong [OF assms(1), of "\<lambda>w. bit w i"] that by (auto simp: bit_simps)
  have "\<not> bit x i" if "i < LENGTH('a)" for i
    using that
  proof (induction i rule: less_induct)
    case (less i)
    then show ?case using step [OF less.prems] less.IH [of "i - n"] assms(2) by auto
  qed
  then show "bit x i = bit 0 i" if "i < LENGTH('a)" for i using that by simp
qed

lemma mult_odd_eq_0:
  fixes x c d :: "'a::len word"
  assumes "c * d = 1" "x * c = 0"
  shows "x = 0"
  using assms by (metis mult.assoc mult.right_neutral mult_zero_left)

lemma NextOutput_ok:
  assumes "state \<noteq> 0"
  shows "\<exists>out state'. NextOutput state = Some (out, state') \<and> out \<noteq> 0 \<and> state' \<noteq> 0"
proof -
  let ?a = "state XOR drop_bit 12 state"
  let ?b = "?a XOR push_bit 25 ?a"
  let ?c = "?b XOR drop_bit 27 ?b"
  have "?c \<noteq> 0" using assms xor_drop_bit_eq_0 [of state 12] xor_push_bit_eq_0 [of ?a 25] xor_drop_bit_eq_0 [of ?b 27]
    by fastforce
  moreover have "?c * 2685821657736338717 \<noteq> 0"
    using mult_odd_eq_0 [of 2685821657736338717 6415128727920758069 ?c] \<open>?c \<noteq> 0\<close> by auto
  ultimately show ?thesis by (simp add: NextOutput_def Let_def)
qed

section \<open>Ranges\<close>

lemma Rand_to_range:
  assumes "state \<noteq> 0"
  shows "\<exists>v state'. Rand_to t state = Some (v, state') \<and> v \<le> t \<and> state' \<noteq> 0"
proof -
  obtain out state' where n: "NextOutput state = Some (out, state')" "state' \<noteq> 0"
    using NextOutput_ok [OF assms] by blast
  define x where "x = (ucast out :: uint32)"
  let ?r = "ucast x * ((ucast t :: uint64) + 1) :: uint64"
  have x: "unat x < 2 ^ 32" and t: "unat t < 2 ^ 32" using unsigned_less [of x] unsigned_less [of t] by simp_all
  have t1: "unat ((ucast t :: uint64) + 1) = unat t + 1"
    using t by (subst unat_word_ariths) (simp add: unsigned_ucast_eq take_bit_nat_eq_self)
  have le: "unat x * (unat t + 1) \<le> (2 ^ 32 - 1) * (unat t + 1)"
    using x by (intro mult_right_mono) auto
  also have "\<dots> \<le> (2 ^ 32 - 1) * 2 ^ 32" using t by (intro mult_left_mono) auto
  finally have r: "unat ?r = unat x * (unat t + 1)"
    by (subst unat_word_ariths) (simp add: t1 unsigned_ucast_eq take_bit_nat_eq_self)
  have "unat (drop_bit 32 ?r) = unat x * (unat t + 1) div 2 ^ 32"
    using drop_bit_eq_div [of 32 "unat ?r"] take_bit_nat_eq_self [OF unsigned_less [of ?r]]
    by (simp only: unsigned_drop_bit_eq r)
  also have "\<dots> \<le> (2 ^ 32 - 1) * (unat t + 1) div 2 ^ 32" using le by (rule div_le_mono)
  also have "\<dots> \<le> unat t" using t by (simp add: div_less_iff_less_mult flip: less_Suc_eq_le)
  finally have d: "unat (drop_bit 32 ?r) \<le> unat t" .
  then have "unat (ucast (drop_bit 32 ?r) :: uint32) \<le> unat t"
    using t by (simp add: unsigned_ucast_eq take_bit_nat_eq_self)
  then show ?thesis using n by (simp add: Rand_to_def Let_def word_le_nat_alt flip: x_def)
qed

lemma Rand_between_range:
  assumes "state \<noteq> 0" "low \<le> high"
  shows "\<exists>v state'. Rand_between low high state = Some (v, state') \<and> low \<le> v \<and> v \<le> high \<and> state' \<noteq> 0"
proof -
  obtain v state' where r: "Rand_to (high - low) state = Some (v, state')" "v \<le> high - low" "state' \<noteq> 0"
    using Rand_to_range [OF assms(1)] by blast
  have "unat v \<le> unat high - unat low" using r(2) assms(2) by (simp add: word_le_nat_alt unat_sub)
  moreover have "unat low \<le> unat high" "unat high < 2 ^ 32"
    using assms(2) unsigned_less [of high] by (simp_all add: word_le_nat_alt)
  ultimately have "unat (v + low) = unat v + unat low" by (subst unat_word_ariths) simp
  with \<open>unat v \<le> unat high - unat low\<close> \<open>unat low \<le> unat high\<close> r(1,3) assms(2) show ?thesis
    by (simp add: Rand_between_def word_le_nat_alt)
qed

lemma Rand_signed_range:
  assumes "state \<noteq> 0" "low \<le> high" "- (2 ^ 31) \<le> low" "high < 2 ^ 31"
  shows "high - low < 2 ^ 31 \<Longrightarrow>
      \<exists>v state'. Rand_signed low high state = Some (v, state') \<and> low \<le> v \<and> v \<le> high \<and> state' \<noteq> 0"
    and "2 ^ 31 \<le> high - low \<Longrightarrow> Rand_signed low high state = None"
proof -
  assume fits: "high - low < 2 ^ 31"
  obtain v state' where r: "Rand_to (word_of_int (high - low)) state = Some (v, state')"
    "v \<le> word_of_int (high - low)" "state' \<noteq> 0" using Rand_to_range [OF assms(1)] by blast
  have "uint (word_of_int (high - low) :: uint32) = high - low"
    using fits assms(2) by (simp only: uint_word_of_int) simp
  then have v: "0 \<le> uint v" "uint v \<le> high - low" using r(2) by (simp_all add: word_le_def)
  have "v + word_of_int low = word_of_int (uint v + low)" by simp
  then have "sint (v + word_of_int low) = signed_take_bit 31 (uint v + low)"
    by (simp only: sint_sbintrunc') simp
  also have "\<dots> = uint v + low"
    using v assms(3,4) by (intro signed_take_bit_int_eq_self) linarith+
  finally show "\<exists>v state'. Rand_signed low high state = Some (v, state') \<and> low \<le> v \<and> v \<le> high \<and> state' \<noteq> 0"
    using r(1,3) v assms(2) fits by (simp add: Rand_signed_def)
qed (simp add: Rand_signed_def)

lemma Rand_uint8_ok: "state \<noteq> 0 \<Longrightarrow> \<exists>b state'. Rand_uint8 state = Some (b, state') \<and> state' \<noteq> 0"
  using NextOutput_ok by (fastforce simp: Rand_uint8_def)

section \<open>The generator\<close>



end
