(* ===== verification/RtpPacket.thy ===== *)
theory RtpPacket
  imports RtpHeader RtcBuffer RtcRandom
begin

text \<open>
  \<open>rtp::Packet\<close> of \<open>rtp_packet.cc\<close>: an RTP packet with its buffer, parsed from received bytes or built
  for sending. The packet owns its \<open>CopyOnWriteBuffer\<close> as a value, which \<open>CowBuffer\<close> justifies.
  Writes behind the allocation, failed debug checks and a loop that does not return are faults, \<open>None\<close>.
\<close>

section \<open>State\<close>

record extension_entry =
  xe_type :: rtp_extension_type
  xe_offset :: uint16
  xe_length :: byte

record rtp_packet =
  rp_marker :: bool
  rp_payload_type :: byte
  rp_padding_size :: byte
  rp_sequence_number :: uint16
  rp_timestamp :: uint32
  rp_ssrc :: uint32
  rp_payload_offset :: nat
  rp_payload_size :: nat
  rp_extension_entries :: "extension_entry list"
  rp_extensions_size :: uint16
  rp_buffer :: rtc_buffer

abbreviation (input) kFixedHeaderSize :: nat where "kFixedHeaderSize \<equiv> 12"
abbreviation (input) kMaxExtensionHeaders :: nat where "kMaxExtensionHeaders \<equiv> 14"
abbreviation (input) kOneByteExtensionId :: uint16 where "kOneByteExtensionId \<equiv> 0xBEDE"
abbreviation (input) kOneByteHeaderSize :: nat where "kOneByteHeaderSize \<equiv> 1"

section \<open>Access to the buffer\<close>

definition WriteAt :: "nat \<Rightarrow> byte list \<Rightarrow> rtp_packet \<Rightarrow> rtp_packet option" where
  "WriteAt offset bs p = map_option (\<lambda>b. p\<lparr>rp_buffer := b\<rparr>) (Buffer_write offset bs (rp_buffer p))"

definition data_from :: "rtp_packet \<Rightarrow> nat \<Rightarrow> byte list" where
  "data_from p offset = drop offset (rb_data (rp_buffer p))"

definition data_at :: "rtp_packet \<Rightarrow> nat \<Rightarrow> byte option" where
  "data_at p i = byte_at (rb_data (rp_buffer p)) i"

definition SetBufferSize :: "allocator \<Rightarrow> nat \<Rightarrow> rtp_packet \<Rightarrow> rtp_packet" where
  "SetBufferSize fresh sz p = p\<lparr>rp_buffer := Buffer_SetSize fresh sz (rp_buffer p)\<rparr>"

definition Packet_capacity :: "rtp_packet \<Rightarrow> nat" where
  "Packet_capacity p = Buffer_capacity (rp_buffer p)"

definition Packet_size :: "rtp_packet \<Rightarrow> nat option" where
  "Packet_size p =
     (let ret = rp_payload_offset p + rp_payload_size p + unat (rp_padding_size p)
      in if rb_size (rp_buffer p) = ret then Some ret else None)"

definition headers_size :: "rtp_packet \<Rightarrow> nat" where
  "headers_size p = rp_payload_offset p"

definition Packet_payload :: "rtp_packet \<Rightarrow> byte list" where
  "Packet_payload p = take (rp_payload_size p) (data_from p (rp_payload_offset p))"

definition FreeCapacity :: "rtp_packet \<Rightarrow> nat option" where
  "FreeCapacity p = map_option (size_sub (Packet_capacity p)) (Packet_size p)"

definition MaxPayloadSize :: "rtp_packet \<Rightarrow> nat" where
  "MaxPayloadSize p = size_sub (Packet_capacity p) (rp_payload_offset p)"

section \<open>Construction and reset\<close>

definition clear_entries :: "extension_entry list \<Rightarrow> extension_entry list" where
  "clear_entries = map (\<lambda>location. location\<lparr>xe_offset := 0, xe_length := 0\<rparr>)"

definition Packet_Clear :: "allocator \<Rightarrow> rtp_packet \<Rightarrow> rtp_packet option" where
  "Packet_Clear fresh p = do {
     p \<leftarrow> WriteAt 0 (replicate kFixedHeaderSize 0)
       (p\<lparr>rp_marker := False, rp_payload_type := 0, rp_sequence_number := 0, rp_timestamp := 0, rp_ssrc := 0,
         rp_payload_offset := kFixedHeaderSize, rp_payload_size := 0, rp_padding_size := 0,
         rp_extensions_size := 0, rp_extension_entries := clear_entries (rp_extension_entries p)\<rparr>);
     WriteAt 0 [0x80] (SetBufferSize fresh kFixedHeaderSize p) }"

definition IdentifyExtensions :: "extension_map \<Rightarrow> rtp_packet \<Rightarrow> rtp_packet option" where
  "IdentifyExtensions m p = do {
     entries \<leftarrow> those (map (\<lambda>i. map_option (\<lambda>t. (rp_extension_entries p ! i)\<lparr>xe_type := t\<rparr>) (GetType (of_nat (i + 1)) m))
       [0..<kMaxExtensionHeaders]);
     Some (p\<lparr>rp_extension_entries := entries\<rparr>) }"

text \<open>Before \<open>Clear\<close> and the loop over the entries the fields are uninitialised; both overwrite them.\<close>

definition Packet_new :: "allocator \<Rightarrow> extension_map option \<Rightarrow> nat \<Rightarrow> rtp_packet option" where
  "Packet_new fresh extensions capacity =
     (if capacity < kFixedHeaderSize then None
      else do {
        p \<leftarrow> Packet_Clear fresh \<lparr>rp_marker = False, rp_payload_type = 0, rp_padding_size = 0, rp_sequence_number = 0,
          rp_timestamp = 0, rp_ssrc = 0, rp_payload_offset = 0, rp_payload_size = 0,
          rp_extension_entries = replicate kMaxExtensionHeaders \<lparr>xe_type = kRtpExtensionNone, xe_offset = 0, xe_length = 0\<rparr>,
          rp_extensions_size = 0, rp_buffer = Buffer_new fresh capacity capacity\<rparr>;
        case extensions of
          Some m \<Rightarrow> IdentifyExtensions m p
        | None \<Rightarrow> Some (p\<lparr>rp_extension_entries := map (\<lambda>x. x\<lparr>xe_type := kRtpExtensionNone\<rparr>) (rp_extension_entries p)\<rparr>) })"

section \<open>Parsing\<close>

text \<open>
  The loop over the extension elements. \<open>extensions_size_\<close> has 16 bits and counts modulo \<open>2 ^ 16\<close>
  while the capacity can be four times as large, so that the loop need not end.
\<close>

partial_function (option) ParseElements :: "byte list \<Rightarrow> nat \<Rightarrow> nat \<Rightarrow> rtp_packet \<Rightarrow> rtp_packet option" where
  "ParseElements buffer extension_offset extensions_capacity p =
     (if unat (rp_extensions_size p) + kOneByteHeaderSize < extensions_capacity then
        do {
          b \<leftarrow> byte_at buffer (extension_offset + unat (rp_extensions_size p));
          if drop_bit 4 b = 15 then Some p
          else if drop_bit 4 b = 0
          then ParseElements buffer extension_offset extensions_capacity (p\<lparr>rp_extensions_size := rp_extensions_size p + 1\<rparr>)
          else if unat (rp_extensions_size p) + kOneByteHeaderSize + unat (1 + (b AND 0xf)) > extensions_capacity then Some p
          else ParseElements buffer extension_offset extensions_capacity
            (p\<lparr>rp_extension_entries := (rp_extension_entries p)[unat (drop_bit 4 b) - 1 :=
                 (rp_extension_entries p ! (unat (drop_bit 4 b) - 1))
                   \<lparr>xe_offset := of_nat (extension_offset + unat (rp_extensions_size p + 1)), xe_length := 1 + (b AND 0xf)\<rparr>],
               rp_extensions_size := rp_extensions_size p + 1 + ucast (1 + (b AND 0xf))\<rparr>) }
      else Some p)"

declare ParseElements.simps [code]

definition ParseBuffer :: "byte list \<Rightarrow> rtp_packet \<Rightarrow> (bool \<times> rtp_packet) option" where
  "ParseBuffer buffer p =
     (if length buffer < kFixedHeaderSize then Some (False, p)
      else do {
        b0 \<leftarrow> byte_at buffer 0;
        if drop_bit 6 b0 \<noteq> 2 then Some (False, p)
        else do {
          b1 \<leftarrow> byte_at buffer 1;
          seq \<leftarrow> ReadBigEndian 2 (drop 2 buffer);
          ts \<leftarrow> ReadBigEndian 4 (drop 4 buffer);
          ssrc \<leftarrow> ReadBigEndian 4 (drop 8 buffer);
          let number_of_crcs = unat (b0 AND 0x0f);
          let p = p\<lparr>rp_marker := b1 AND 0x80 \<noteq> 0, rp_payload_type := b1 AND 0x7f,
            rp_sequence_number := seq, rp_timestamp := ts, rp_ssrc := ssrc\<rparr>;
          if length buffer < kFixedHeaderSize + number_of_crcs * 4 then Some (False, p)
          else do {
            padding \<leftarrow> (if b0 AND 0x20 \<noteq> 0 then byte_at buffer (length buffer - 1) else Some 0);
            let p = p\<lparr>rp_payload_offset := kFixedHeaderSize + number_of_crcs * 4, rp_padding_size := padding\<rparr>;
            if b0 AND 0x20 \<noteq> 0 \<and> padding = 0 then Some (False, p)
            else do {
              let p = p\<lparr>rp_extensions_size := 0, rp_extension_entries := clear_entries (rp_extension_entries p)\<rparr>;
              (ok, p) \<leftarrow>
                (if b0 AND 0x10 \<noteq> 0 then
                   let extension_offset = rp_payload_offset p + 4 in
                   if extension_offset > length buffer then Some (False, p)
                   else do {
                     profile \<leftarrow> (ReadBigEndian 2 (drop (rp_payload_offset p) buffer) :: uint16 option);
                     words \<leftarrow> (ReadBigEndian 2 (drop (rp_payload_offset p + 2) buffer) :: uint16 option);
                     let extensions_capacity = unat words * 4;
                     if extension_offset + extensions_capacity > length buffer then Some (False, p)
                     else do {
                       p \<leftarrow> (if profile \<noteq> kOneByteExtensionId then Some p
                            else ParseElements buffer extension_offset extensions_capacity p);
                       Some (True, p\<lparr>rp_payload_offset := extension_offset + extensions_capacity\<rparr>) } }
                 else Some (True, p));
              if \<not> ok then Some (False, p)
              else if rp_payload_offset p + unat (rp_padding_size p) > length buffer then Some (False, p)
              else Some (True, p\<lparr>rp_payload_size := length buffer - rp_payload_offset p - unat (rp_padding_size p)\<rparr>) } } } })"

definition Packet_Parse :: "allocator \<Rightarrow> byte list \<Rightarrow> rtp_packet \<Rightarrow> (bool \<times> rtp_packet) option" where
  "Packet_Parse fresh buffer p = do {
     (ok, p) \<leftarrow> ParseBuffer buffer p;
     if ok then do {
       let p = p\<lparr>rp_buffer := Buffer_SetData fresh buffer (rp_buffer p)\<rparr>;
       sz \<leftarrow> Packet_size p;
       if sz = length buffer then Some (True, p) else None }
     else do {
       p \<leftarrow> Packet_Clear fresh p;
       Some (False, p) } }"

text \<open>The overload that takes a \<open>CopyOnWriteBuffer\<close> keeps it as the buffer of the packet.\<close>

definition Packet_ParseCow :: "allocator \<Rightarrow> rtc_buffer \<Rightarrow> rtp_packet \<Rightarrow> (bool \<times> rtp_packet) option" where
  "Packet_ParseCow fresh buffer p = do {
     (ok, p) \<leftarrow> ParseBuffer (contents buffer) p;
     if ok then do {
       let p = p\<lparr>rp_buffer := buffer\<rparr>;
       sz \<leftarrow> Packet_size p;
       if sz = rb_size buffer then Some (True, p) else None }
     else do {
       p \<leftarrow> Packet_Clear fresh p;
       Some (False, p) } }"

section \<open>Getters\<close>

text \<open>Every getter of a header field checks the field against the buffer.\<close>

definition checked :: "'a \<Rightarrow> 'a option \<Rightarrow> 'a option" where
  "checked field actual = do {
     v \<leftarrow> actual;
     if field = v then Some field else None }"

definition Marker :: "rtp_packet \<Rightarrow> bool option" where
  "Marker p = checked (rp_marker p) (map_option (\<lambda>b. b AND 0x80 \<noteq> 0) (data_at p 1))"

definition PayloadType :: "rtp_packet \<Rightarrow> byte option" where
  "PayloadType p = checked (rp_payload_type p) (map_option (\<lambda>b. b AND 0x7f) (data_at p 1))"

definition SequenceNumber :: "rtp_packet \<Rightarrow> uint16 option" where
  "SequenceNumber p = checked (rp_sequence_number p) (ReadBigEndian 2 (data_from p 2))"

definition Timestamp :: "rtp_packet \<Rightarrow> uint32 option" where
  "Timestamp p = checked (rp_timestamp p) (ReadBigEndian 4 (data_from p 4))"

definition Ssrc :: "rtp_packet \<Rightarrow> uint32 option" where
  "Ssrc p = checked (rp_ssrc p) (ReadBigEndian 4 (data_from p 8))"

definition Csrcs :: "rtp_packet \<Rightarrow> uint32 list option" where
  "Csrcs p = do {
     b0 \<leftarrow> data_at p 0;
     let num_csrc = unat (b0 AND 0x0F);
     if Packet_capacity p < kFixedHeaderSize + num_csrc * 4 then None
     else read_items (ReadBigEndian 4) 4 num_csrc (data_from p kFixedHeaderSize) }"

section \<open>Header extensions\<close>

text \<open>The offset of a set extension of the right length; \<open>None\<close> is the result false.\<close>

definition FindExtension :: "rtp_extension_type \<Rightarrow> byte \<Rightarrow> rtp_packet \<Rightarrow> uint16 option" where
  "FindExtension t len p =
     (case find (\<lambda>x. xe_type x = t) (rp_extension_entries p) of
        None \<Rightarrow> None
      | Some x \<Rightarrow> if xe_length x = 0 then None else if len \<noteq> xe_length x then None else Some (xe_offset x))"

fun index_of :: "('a \<Rightarrow> bool) \<Rightarrow> 'a list \<Rightarrow> nat option" where
  "index_of P [] = None"
| "index_of P (x # xs) = (if P x then Some 0 else map_option Suc (index_of P xs))"

text \<open>The inner option is the offset, \<open>None\<close> where the source returns false.\<close>

definition AllocateExtension ::
  "allocator \<Rightarrow> rtp_extension_type \<Rightarrow> byte \<Rightarrow> rtp_packet \<Rightarrow> (uint16 option \<times> rtp_packet) option" where
  "AllocateExtension fresh t len p =
     (case index_of (\<lambda>x. xe_type x = t) (rp_extension_entries p) of
        None \<Rightarrow> Some (None, p)
      | Some i \<Rightarrow>
          let extension_id = of_nat (i + 1); entry = rp_extension_entries p ! i in
          if xe_length entry \<noteq> 0 then
            Some (if len \<noteq> xe_length entry then None else Some (xe_offset entry), p)
          else if rp_payload_size p > 0 then Some (None, p)
          else if rp_padding_size p > 0 then Some (None, p)
          else if \<not> (0 < len \<and> len \<le> 16) then None
          else do {
            b0 \<leftarrow> data_at p 0;
            let num_csrc = unat (b0 AND 0x0F);
            let extensions_offset = kFixedHeaderSize + num_csrc * 4 + 4;
            let es = unat (rp_extensions_size p);
            if extensions_offset + es + kOneByteHeaderSize + unat len > Packet_capacity p then Some (None, p)
            else do {
              let new_extensions_size = rp_extensions_size p + 1 + ucast len;
              let extensions_words = (of_nat ((unat new_extensions_size + 3) div 4) :: uint16);
              p \<leftarrow> (if es = 0 then
                     (if rp_payload_offset p \<noteq> kFixedHeaderSize + num_csrc * 4 then None
                      else do {
                        p \<leftarrow> WriteAt 0 [b0 OR 0x10] p;
                        WriteAt (extensions_offset - 4) (WriteBigEndian 2 kOneByteExtensionId) p })
                   else Some p);
              p \<leftarrow> WriteAt (extensions_offset + es) [push_bit 4 extension_id OR (len - 1)] p;
              let offset = (of_nat (extensions_offset + kOneByteHeaderSize + es) :: uint16);
              let p = p\<lparr>rp_extension_entries := (rp_extension_entries p)[i := entry\<lparr>xe_length := len, xe_offset := offset\<rparr>],
                rp_extensions_size := new_extensions_size\<rparr>;
              p \<leftarrow> WriteAt (extensions_offset - 2) (WriteBigEndian 2 extensions_words) p;
              let extension_padding_size = size_sub (4 * unat extensions_words) (unat new_extensions_size);
              p \<leftarrow> WriteAt (extensions_offset + unat new_extensions_size) (replicate extension_padding_size 0) p;
              let payload_offset = extensions_offset + 4 * unat extensions_words;
              Some (Some offset, SetBufferSize fresh payload_offset (p\<lparr>rp_payload_offset := payload_offset\<rparr>)) } })"

text \<open>
  The templates over the extension: \<open>t\<close> is \<open>kId\<close>, \<open>len\<close> is \<open>kValueSizeBytes\<close>, \<open>parse\<close> is \<open>Parse\<close> and \<open>written\<close> is
  what \<open>Write\<close> puts at the address it gets.
\<close>

definition HasExtension :: "rtp_extension_type \<Rightarrow> byte \<Rightarrow> rtp_packet \<Rightarrow> bool" where
  "HasExtension t len p \<longleftrightarrow> FindExtension t len p \<noteq> None"

definition GetExtension ::
  "rtp_extension_type \<Rightarrow> byte \<Rightarrow> (byte list \<Rightarrow> 'r option) \<Rightarrow> rtp_packet \<Rightarrow> 'r option option" where
  "GetExtension t len parse p =
     (case FindExtension t len p of
        None \<Rightarrow> Some None
      | Some offset \<Rightarrow> map_option Some (parse (data_from p (unat offset))))"

definition SetExtension ::
  "allocator \<Rightarrow> rtp_extension_type \<Rightarrow> byte \<Rightarrow> byte list option \<Rightarrow> rtp_packet \<Rightarrow> (bool \<times> rtp_packet) option" where
  "SetExtension fresh t len written p = do {
     (r, p) \<leftarrow> AllocateExtension fresh t len p;
     case r of
       None \<Rightarrow> Some (False, p)
     | Some offset \<Rightarrow> do {
         bs \<leftarrow> written;
         p \<leftarrow> WriteAt (unat offset) bs p;
         Some (True, p) } }"

definition ReserveExtension :: "allocator \<Rightarrow> rtp_extension_type \<Rightarrow> byte \<Rightarrow> rtp_packet \<Rightarrow> (bool \<times> rtp_packet) option" where
  "ReserveExtension fresh t len p = do {
     (r, p) \<leftarrow> AllocateExtension fresh t len p;
     case r of
       None \<Rightarrow> Some (False, p)
     | Some offset \<Rightarrow> do {
         p \<leftarrow> WriteAt (unat offset) (replicate (unat len) 0) p;
         Some (True, p) } }"

section \<open>GetHeader\<close>

definition Packet_GetHeader :: "rtp_packet \<Rightarrow> rtp_header \<Rightarrow> rtp_header option" where
  "Packet_GetHeader p header = do {
     marker \<leftarrow> Marker p;
     pt \<leftarrow> PayloadType p;
     seq \<leftarrow> SequenceNumber p;
     ts \<leftarrow> Timestamp p;
     ssrc \<leftarrow> Ssrc p;
     csrcs \<leftarrow> Csrcs p;
     let e = hdr_extension header;
     toffset \<leftarrow> GetExtension kRtpExtensionTransmissionTimeOffset 3 TransmissionOffset_Parse p;
     abs_time \<leftarrow> GetExtension kRtpExtensionAbsoluteSendTime 3 AbsoluteSendTime_Parse p;
     tseq \<leftarrow> GetExtension kRtpExtensionTransportSequenceNumber 2 TransportSequenceNumber_Parse p;
     level \<leftarrow> GetExtension kRtpExtensionAudioLevel 1 AudioLevel_Parse p;
     rotation \<leftarrow> GetExtension kRtpExtensionVideoRotation 1 VideoOrientation_Parse p;
     Some (header\<lparr>markerBit := marker, payloadType := pt, sequenceNumber := seq, timestamp := ts, hdr_ssrc := ssrc,
       numCSRCs := of_nat (length csrcs), arrOfCSRCs := splice_at 0 csrcs (arrOfCSRCs header),
       paddingLength := unat (rp_padding_size p), headerLength := headers_size p, payload_type_frequency := 0,
       hdr_extension := e\<lparr>
         hasTransmissionTimeOffset := toffset \<noteq> None,
         transmissionTimeOffset := (case toffset of None \<Rightarrow> transmissionTimeOffset e | Some v \<Rightarrow> v),
         hasAbsoluteSendTime := abs_time \<noteq> None,
         absoluteSendTime := (case abs_time of None \<Rightarrow> absoluteSendTime e | Some v \<Rightarrow> v),
         hasTransportSequenceNumber := tseq \<noteq> None,
         transportSequenceNumber := (case tseq of None \<Rightarrow> transportSequenceNumber e | Some v \<Rightarrow> v),
         hasAudioLevel := level \<noteq> None,
         voiceActivity := (case level of None \<Rightarrow> voiceActivity e | Some v \<Rightarrow> fst v),
         audioLevel := (case level of None \<Rightarrow> audioLevel e | Some v \<Rightarrow> snd v),
         hasVideoRotation := rotation \<noteq> None,
         videoRotation := (case rotation of None \<Rightarrow> videoRotation e | Some v \<Rightarrow> v)\<rparr>\<rparr>) }"

section \<open>Setters\<close>

definition CopyHeaderFrom :: "allocator \<Rightarrow> rtp_packet \<Rightarrow> rtp_packet \<Rightarrow> rtp_packet option" where
  "CopyHeaderFrom fresh packet p =
     (if Packet_capacity p < headers_size packet then None
      else Some (p\<lparr>rp_marker := rp_marker packet, rp_payload_type := rp_payload_type packet,
        rp_sequence_number := rp_sequence_number packet, rp_timestamp := rp_timestamp packet,
        rp_ssrc := rp_ssrc packet, rp_payload_offset := rp_payload_offset packet,
        rp_extension_entries := rp_extension_entries packet, rp_extensions_size := rp_extensions_size packet,
        rp_buffer := Buffer_SetData fresh (take (headers_size packet) (data_from packet 0)) (rp_buffer p),
        rp_payload_size := 0, rp_padding_size := 0\<rparr>))"

definition SetMarker :: "bool \<Rightarrow> rtp_packet \<Rightarrow> rtp_packet option" where
  "SetMarker marker_bit p = do {
     b \<leftarrow> data_at p 1;
     WriteAt 1 [if marker_bit then b OR 0x80 else b AND 0x7F] (p\<lparr>rp_marker := marker_bit\<rparr>) }"

definition SetPayloadType :: "byte \<Rightarrow> rtp_packet \<Rightarrow> rtp_packet option" where
  "SetPayloadType payload_type p =
     (if payload_type > 0x7F then None
      else do {
        b \<leftarrow> data_at p 1;
        WriteAt 1 [(b AND 0x80) OR payload_type] (p\<lparr>rp_payload_type := payload_type\<rparr>) })"

definition SetSequenceNumber :: "uint16 \<Rightarrow> rtp_packet \<Rightarrow> rtp_packet option" where
  "SetSequenceNumber seq_no p = WriteAt 2 (WriteBigEndian 2 seq_no) (p\<lparr>rp_sequence_number := seq_no\<rparr>)"

definition SetTimestamp :: "uint32 \<Rightarrow> rtp_packet \<Rightarrow> rtp_packet option" where
  "SetTimestamp ts p = WriteAt 4 (WriteBigEndian 4 ts) (p\<lparr>rp_timestamp := ts\<rparr>)"

definition SetSsrc :: "uint32 \<Rightarrow> rtp_packet \<Rightarrow> rtp_packet option" where
  "SetSsrc ssrc p = WriteAt 8 (WriteBigEndian 4 ssrc) (p\<lparr>rp_ssrc := ssrc\<rparr>)"

definition SetCsrcs :: "allocator \<Rightarrow> uint32 list \<Rightarrow> rtp_packet \<Rightarrow> rtp_packet option" where
  "SetCsrcs fresh csrcs p =
     (if rp_extensions_size p \<noteq> 0 \<or> rp_payload_size p \<noteq> 0 \<or> rp_padding_size p \<noteq> 0 \<or> length csrcs > 0x0f \<or>
         kFixedHeaderSize + 4 * length csrcs > Packet_capacity p then None
      else do {
        let payload_offset = kFixedHeaderSize + 4 * length csrcs;
        let p = p\<lparr>rp_payload_offset := payload_offset\<rparr>;
        b0 \<leftarrow> data_at p 0;
        p \<leftarrow> WriteAt 0 [(b0 AND 0xF0) OR of_nat (length csrcs)] p;
        (_, p) \<leftarrow> for_each (\<lambda>csrc (offset, p). do {
          p \<leftarrow> WriteAt offset (WriteBigEndian 4 csrc) p;
          Some (offset + 4, p) }) csrcs (kFixedHeaderSize, p);
        Some (SetBufferSize fresh payload_offset p) })"

text \<open>The result is the payload area where it could be reserved, and \<open>None\<close> for the null pointer.\<close>

definition AllocatePayload :: "allocator \<Rightarrow> nat \<Rightarrow> rtp_packet \<Rightarrow> (nat option \<times> rtp_packet) option" where
  "AllocatePayload fresh size_bytes p =
     (if rp_padding_size p \<noteq> 0 then None
      else if rp_payload_offset p + size_bytes > Packet_capacity p then Some (None, p)
      else
        let p = SetBufferSize fresh (rp_payload_offset p) p;
            p = p\<lparr>rp_payload_size := size_bytes\<rparr>;
            p = SetBufferSize fresh (rp_payload_offset p + rp_payload_size p) p
        in Some (Some (rp_payload_offset p), p))"

definition SetPayloadSize :: "allocator \<Rightarrow> nat \<Rightarrow> rtp_packet \<Rightarrow> rtp_packet option" where
  "SetPayloadSize fresh size_bytes p =
     (if rp_padding_size p \<noteq> 0 \<or> size_bytes > rp_payload_size p then None
      else Some (SetBufferSize fresh (rp_payload_offset p + size_bytes) (p\<lparr>rp_payload_size := size_bytes\<rparr>)))"

definition SetPadding :: "allocator \<Rightarrow> byte \<Rightarrow> uint64 \<Rightarrow> rtp_packet \<Rightarrow> (bool \<times> rtp_packet \<times> uint64) option" where
  "SetPadding fresh size_bytes random p =
     (if rp_payload_offset p + rp_payload_size p + unat size_bytes > Packet_capacity p then Some (False, p, random)
      else do {
        let padding_offset = rp_payload_offset p + rp_payload_size p;
        let padding_end = padding_offset + unat size_bytes;
        let p = SetBufferSize fresh padding_end (p\<lparr>rp_padding_size := size_bytes\<rparr>);
        if size_bytes > 0 then do {
          (p, random) \<leftarrow> for_each (\<lambda>offset (p, random). do {
            (b, random) \<leftarrow> Rand_uint8 random;
            p \<leftarrow> WriteAt offset [b] p;
            Some (p, random) }) [padding_offset..<padding_end - 1] (p, random);
          p \<leftarrow> WriteAt (padding_end - 1) [size_bytes] p;
          b0 \<leftarrow> data_at p 0;
          p \<leftarrow> WriteAt 0 [b0 OR 0x20] p;
          Some (True, p, random) }
        else do {
          b0 \<leftarrow> data_at p 0;
          p \<leftarrow> WriteAt 0 [b0 AND NOT 0x20] p;
          Some (True, p, random) } })"

end
