(* ===== verification/RtpPacketScan.thy ===== *)
theory RtpPacketScan
  imports RtpPacket
begin

text \<open>
  The extension block as a list of elements: a reference reader \<open>scan\<close> over the block, its
  agreement with the loop of \<open>Packet::ParseBuffer\<close> for blocks below \<open>2 ^ 16\<close> bytes, and a block on
  which the loop does not return.
\<close>

section \<open>The reference reader\<close>

text \<open>An element is its id, the position of its value in the block and the size of the value.\<close>

type_synonym element = "nat \<times> nat \<times> nat"

abbreviation (input) element_id :: "byte \<Rightarrow> nat" where "element_id b \<equiv> unat (drop_bit 4 b)"
abbreviation (input) element_size :: "byte \<Rightarrow> nat" where "element_size b \<equiv> unat (b AND 0xf) + 1"

function scan :: "byte list \<Rightarrow> nat \<Rightarrow> element list \<times> nat" where
  "scan region n =
     (if n + 1 < length region then
        (let b = region ! n in
         if element_id b = 15 then ([], n)
         else if element_id b = 0 then scan region (n + 1)
         else if n + 1 + element_size b > length region then ([], n)
         else (let (xs, m) = scan region (n + 1 + element_size b)
               in ((element_id b, n + 1, element_size b) # xs, m)))
      else ([], n))"
  by pat_completeness auto
termination
  by (relation "measure (\<lambda>(region, n). length region - n)") auto

declare scan.simps [simp del]

definition set_entry :: "nat \<Rightarrow> element \<Rightarrow> extension_entry list \<Rightarrow> extension_entry list" where
  "set_entry off = (\<lambda>(i, pos, len) xs.
     xs[i - 1 := (xs ! (i - 1))\<lparr>xe_offset := of_nat (off + pos), xe_length := of_nat len\<rparr>])"

abbreviation (input) set_entries :: "nat \<Rightarrow> element list \<Rightarrow> extension_entry list \<Rightarrow> extension_entry list" where
  "set_entries off es xs \<equiv> fold (set_entry off) es xs"

lemma element_id_bound: "element_id b < 16"
proof -
  have "unat b < 256" using unsigned_less [of b] by simp
  then show ?thesis
    by (simp only: unsigned_drop_bit_eq) (simp add: drop_bit_eq_div take_bit_nat_eq_self div_less_iff_less_mult)
qed

lemma element_size_bound: "element_size b \<le> 16" "unat (1 + (b AND 0xf)) = element_size b"
proof -
  have "b AND 0xf \<le> 0xf" by (rule word_and_le1)
  then have "unat (b AND 0xf) \<le> 15" by (simp add: word_le_nat_alt)
  then show "element_size b \<le> 16" "unat (1 + (b AND 0xf)) = element_size b"
    by (simp_all add: unat_word_ariths)
qed

lemma element_id_eq: "drop_bit 4 b = 15 \<longleftrightarrow> element_id b = 15" "drop_bit 4 b = 0 \<longleftrightarrow> element_id b = 0" for b :: byte
  by (simp_all add: word_unat_eq_iff)

lemma scan_pad: "n + 1 < length region \<Longrightarrow> element_id (region ! n) = 0 \<Longrightarrow> scan region n = scan region (n + 1)"
  by (simp add: scan.simps [of region n])

lemma scan_element:
  assumes "element_id (region ! n) \<noteq> 0" "element_id (region ! n) \<noteq> 15" "n + 1 + element_size (region ! n) \<le> length region"
  shows "scan region n = ((element_id (region ! n), n + 1, element_size (region ! n)) #
      fst (scan region (n + 1 + element_size (region ! n))), snd (scan region (n + 1 + element_size (region ! n))))"
  using assms by (simp add: scan.simps [of region n] Let_def split_beta)

lemma scan_stop:
  "length region \<le> n + 1 \<or> element_id (region ! n) = 15 \<or>
    (element_id (region ! n) \<noteq> 0 \<and> n + 1 + element_size (region ! n) > length region) \<Longrightarrow> scan region n = ([], n)"
  by (auto simp: scan.simps [of region n] Let_def)

lemma scan_end: "n \<le> snd (scan region n) \<and> (snd (scan region n) \<le> length region \<or> snd (scan region n) = n)"
  by (induction region n rule: scan.induct) (subst scan.simps, auto simp: Let_def split: prod.splits)+

section \<open>The loop\<close>

lemma unat16: "n < 2 ^ 16 \<Longrightarrow> unat (of_nat n :: uint16) = n"
  by (simp add: unat_of_nat take_bit_nat_eq_self)

lemma ParseElements_scan:
  assumes "length region < 2 ^ 16" "off + length region \<le> length buffer"
    and region: "region = take (length region) (drop off buffer)"
    and "n \<le> length region" "rp_extensions_size p = of_nat n"
  shows "ParseElements buffer off (length region) p =
    Some (p\<lparr>rp_extension_entries := set_entries off (fst (scan region n)) (rp_extension_entries p),
      rp_extensions_size := of_nat (snd (scan region n))\<rparr>)"
  using assms(4,5)
proof (induction "length region - n" arbitrary: n p rule: less_induct)
  case less
  let ?b = "region ! n"
  note step = ParseElements.simps [of buffer off "length region" p] scan.simps [of region n]
  have n: "unat (rp_extensions_size p) = n" using less.prems assms(1) by (simp add: unat16)
  have p: "p\<lparr>rp_extensions_size := of_nat n\<rparr> = p" using less.prems(2) by (cases p) simp
  show ?case
  proof (cases "n + 1 < length region")
    case False
    then show ?thesis by (simp add: step n p)
  next
    case True
    have "?b = take (length region) (drop off buffer) ! n" using region by simp
    then have b: "byte_at buffer (off + n) = Some ?b" using True assms(2) by (simp add: byte_at_def)
    consider (stop) "element_id ?b = 15 \<or> (element_id ?b \<noteq> 0 \<and> n + 1 + element_size ?b > length region)"
      | (pad) "element_id ?b = 0"
      | (element) "element_id ?b \<noteq> 15" "element_id ?b \<noteq> 0" "n + 1 + element_size ?b \<le> length region"
      by force
    then show ?thesis
    proof cases
      case stop
      then show ?thesis using True
        by (auto simp: step n b Let_def element_id_eq element_size_bound(2) p)
    next
      case pad
      let ?q = "p\<lparr>rp_extensions_size := rp_extensions_size p + 1\<rparr>"
      have es: "rp_extensions_size ?q = of_nat (n + 1)" using less.prems(2) by simp
      have "ParseElements buffer off (length region) p = ParseElements buffer off (length region) ?q"
        using True pad by (subst ParseElements.simps) (simp add: n b element_id_eq)
      then show ?thesis using less.hyps [OF _ _ es] True pad by (simp add: step(2) Let_def)
    next
      case element
      let ?q = "p\<lparr>rp_extension_entries := set_entry off (element_id ?b, n + 1, element_size ?b) (rp_extension_entries p),
        rp_extensions_size := rp_extensions_size p + 1 + ucast (1 + (?b AND 0xf))\<rparr>"
      have u: "ucast (1 + (?b AND 0xf)) = (of_nat (element_size ?b) :: uint16)"
        using element_size_bound(2) [of ?b] by (metis of_nat_unat)
      have n1: "unat (rp_extensions_size p + 1) = n + 1"
        using less.prems(2) assms(1) True unat16 [of "n + 1"] by (simp add: add.commute)
      have es: "rp_extensions_size ?q = of_nat (n + 1 + element_size ?b)" using u less.prems(2) by simp
      have "ParseElements buffer off (length region) p = ParseElements buffer off (length region) ?q"
        using True element n1 element_size_bound(2) [of ?b]
        by (subst ParseElements.simps) (simp add: n b element_id_eq set_entry_def add.left_commute)
      then show ?thesis
        using less.hyps [OF _ element(3) es] True element by (simp add: step(2) Let_def split: prod.splits)
    qed
  qed
qed

text \<open>A block of padding that is longer than the counter can reach keeps the loop going round.\<close>

lemma ParseElements_diverges:
  assumes "2 ^ 16 < cap" "\<forall>i < 2 ^ 16. byte_at buffer (off + i) = Some 0"
  shows "ParseElements buffer off cap p = None"
proof -
  let ?P = "\<lambda>b o' c (p :: rtp_packet) (q :: rtp_packet). \<not> (b = buffer \<and> o' = off \<and> c = cap)"
  have "?P buffer off cap p q" if "ParseElements buffer off cap p = Some q" for q
    using that
  proof (rule ParseElements.raw_induct [where P = ?P, rotated])
    fix rec b o' c p q
    assume IH: "\<And>b o' c p q. rec b o' c p = Some q \<Longrightarrow> ?P b o' c p q"
      and run: "(if unat (rp_extensions_size p) + 1 < c
        then byte_at b (o' + unat (rp_extensions_size p)) \<bind>
          (\<lambda>x. if drop_bit 4 x = 15 then Some p
            else if drop_bit 4 x = 0 then rec b o' c (p\<lparr>rp_extensions_size := rp_extensions_size p + 1\<rparr>)
            else if c < unat (rp_extensions_size p) + 1 + unat (1 + (x AND 0xf)) then Some p
            else rec b o' c (p\<lparr>rp_extension_entries := (rp_extension_entries p)[unat (drop_bit 4 x) - 1 :=
                 (rp_extension_entries p ! (unat (drop_bit 4 x) - 1))
                   \<lparr>xe_offset := of_nat (o' + unat (rp_extensions_size p + 1)), xe_length := 1 + (x AND 0xf)\<rparr>],
               rp_extensions_size := rp_extensions_size p + 1 + ucast (1 + (x AND 0xf))\<rparr>))
        else Some p) = Some q"
    have i: "unat (rp_extensions_size p) < 2 ^ 16" using unsigned_less [of "rp_extensions_size p"] by simp
    show "?P b o' c p q"
    proof
      assume eq: "b = buffer \<and> o' = off \<and> c = cap"
      then have "unat (rp_extensions_size p) + 1 < c" using assms(1) i by linarith
      moreover have "byte_at b (o' + unat (rp_extensions_size p)) = Some 0" using assms(2) i eq by simp
      ultimately have "rec b o' c (p\<lparr>rp_extensions_size := rp_extensions_size p + 1\<rparr>) = Some q" using run by simp
      then show False using IH eq by blast
    qed
  qed
  then show ?thesis by (cases "ParseElements buffer off cap p") auto
qed

section \<open>Positions on the path of the reader\<close>

text \<open>
  \<open>path region n m\<close> are the elements the reader meets from \<open>n\<close> to \<open>m\<close>, if \<open>m\<close> is a position it
  comes to. It depends on the bytes before \<open>m\<close> only.
\<close>

function path :: "byte list \<Rightarrow> nat \<Rightarrow> nat \<Rightarrow> element list option" where
  "path region n m =
     (if n = m then Some []
      else if n > m then None
      else let b = region ! n in
        if element_id b = 15 then None
        else if element_id b = 0 then path region (n + 1) m
        else map_option (Cons (element_id b, n + 1, element_size b)) (path region (n + 1 + element_size b) m))"
  by pat_completeness auto
termination
  by (relation "measure (\<lambda>(region, n, m). m - n)") auto

declare path.simps [simp del]

lemma path_refl [simp]: "path region n n = Some []"
  by (simp add: path.simps)

lemma path_cong: "take m region = take m region' \<Longrightarrow> m \<le> length region \<Longrightarrow> m \<le> length region' \<Longrightarrow> path region n m = path region' n m"
proof (induction region n m rule: path.induct)
  case (1 region n m)
  have "region ! n = region' ! n" if "n < m" using 1(3) that by (metis nth_take)
  then show ?case using 1 by (simp add: path.simps [of _ n m] Let_def)
qed

lemma path_snoc:
  assumes "path region n m = Some xs" "element_id (region ! m) \<noteq> 0" "element_id (region ! m) \<noteq> 15"
  shows "path region n (m + 1 + element_size (region ! m)) =
    Some (xs @ [(element_id (region ! m), m + 1, element_size (region ! m))])"
  using assms
proof (induction region n m arbitrary: xs rule: path.induct)
  case (1 region n m)
  then show ?case
    by (subst path.simps) (auto simp: path.simps [of region n m] Let_def split: if_splits)
qed

lemma path_le: "path region n m = Some xs \<Longrightarrow> n \<le> m"
  by (auto simp: path.simps [of region n m] split: if_splits)

lemma scan_path:
  assumes "path region n m = Some xs" "m \<le> length region"
  shows "fst (scan region n) = xs @ fst (scan region m)"
  using assms
proof (induction region n m arbitrary: xs rule: path.induct)
  case (1 region n m)
  let ?b = "region ! n"
  consider (arrived) "n = m" | (pad) "n < m" "element_id ?b = 0" "path region (n + 1) m = Some xs"
    | (element) ys where "n < m" "element_id ?b \<noteq> 0" "element_id ?b \<noteq> 15"
        "path region (n + 1 + element_size ?b) m = Some ys" "xs = (element_id ?b, n + 1, element_size ?b) # ys"
    using 1(3) by (auto simp: path.simps [of region n m] Let_def split: if_splits)
  then show ?case
  proof cases
    case arrived
    then show ?thesis using 1(3) by simp
  next
    case pad
    show ?thesis
    proof (cases "n + 1 < length region")
      case True
      then show ?thesis using pad 1(1) [OF _ _ refl _ _ pad(3) 1(4)] by (simp add: scan.simps [of region n])
    next
      case False
      then have "m = n + 1" using pad(1) 1(4) by simp
      then show ?thesis using pad(3) False by (simp add: scan.simps [of region])
    qed
  next
    case element
    have "n + 1 + element_size ?b \<le> length region" using path_le [OF element(4)] 1(4) by simp
    then show ?thesis using element 1(2) [OF _ _ refl _ _ element(4) 1(4)] scan_element [of region n] by simp
  qed
qed

lemma path_scan:
  "path region n (snd (scan region n)) = Some (fst (scan region n)) \<and> fst (scan region (snd (scan region n))) = []"
proof (induction region n rule: scan.induct)
  case (1 region n)
  let ?b = "region ! n" and ?k = "n + 1 + element_size (region ! n)"
  consider (arrived) "scan region n = ([], n)"
    | (pad) "n + 1 < length region" "element_id ?b = 0" "scan region n = scan region (n + 1)"
    | (element) "n + 1 < length region" "element_id ?b \<noteq> 0" "element_id ?b \<noteq> 15" "?k \<le> length region"
        "scan region n = ((element_id ?b, n + 1, element_size ?b) # fst (scan region ?k), snd (scan region ?k))"
  proof -
    assume stop: "scan region n = ([], n) \<Longrightarrow> thesis"
      and pad: "n + 1 < length region \<Longrightarrow> element_id ?b = 0 \<Longrightarrow> scan region n = scan region (n + 1) \<Longrightarrow> thesis"
      and element: "n + 1 < length region \<Longrightarrow> element_id ?b \<noteq> 0 \<Longrightarrow> element_id ?b \<noteq> 15 \<Longrightarrow> ?k \<le> length region \<Longrightarrow>
        scan region n = ((element_id ?b, n + 1, element_size ?b) # fst (scan region ?k), snd (scan region ?k)) \<Longrightarrow> thesis"
    show thesis
    proof (cases "length region \<le> n + 1 \<or> element_id ?b = 15 \<or> (element_id ?b \<noteq> 0 \<and> ?k > length region)")
      case True
      then show ?thesis by (intro stop scan_stop)
    next
      case False
      then show ?thesis using pad scan_pad [of n region] element scan_element [of region n]
        by (cases "element_id ?b = 0") simp_all
    qed
  qed
  then show ?case
  proof cases
    case arrived
    then show ?thesis by simp
  next
    case pad
    have "n + 1 \<le> snd (scan region (n + 1))" using scan_end by blast
    then show ?thesis using 1(1) [OF pad(1) refl _ pad(2)] pad by (simp add: path.simps [of region n])
  next
    case element
    obtain xs m where k: "scan region ?k = (xs, m)" by fastforce
    have "path region ?k m = Some xs" "fst (scan region m) = []"
      using 1(2) [OF element(1) refl element(3,2)] element(4) k by (simp_all only: fst_conv snd_conv not_less)
    moreover have "n < m" using scan_end [of ?k region] unfolding k by auto
    ultimately have "path region n m = Some ((element_id ?b, n + 1, element_size ?b) # xs)" "fst (scan region m) = []"
      using element(2,3) by (simp_all add: path.simps [of region n m] Let_def)
    moreover have "scan region n = ((element_id ?b, n + 1, element_size ?b) # xs, m)" using element(5) k by simp
    ultimately show ?thesis by simp
  qed
qed

lemma path_cases:
  assumes "path region n m = Some xs"
  obtains (arrived) "n = m" "xs = []"
    | (pad) "n < m" "element_id (region ! n) = 0" "path region (n + 1) m = Some xs"
    | (element) ys where "n < m" "element_id (region ! n) \<noteq> 0" "element_id (region ! n) \<noteq> 15"
        "path region (n + 1 + element_size (region ! n)) m = Some ys"
        "xs = (element_id (region ! n), n + 1, element_size (region ! n)) # ys"
  using assms by (auto simp: path.simps [of region n m] Let_def split: if_splits)

lemma path_induct [consumes 1, case_names arrived pad element]:
  assumes "path region n m = Some xs"
    and "P m []"
    and "\<And>n xs. n < m \<Longrightarrow> element_id (region ! n) = 0 \<Longrightarrow> path region (n + 1) m = Some xs \<Longrightarrow> P (n + 1) xs \<Longrightarrow> P n xs"
    and "\<And>n xs. n < m \<Longrightarrow> element_id (region ! n) \<noteq> 0 \<Longrightarrow> element_id (region ! n) \<noteq> 15 \<Longrightarrow>
      path region (n + 1 + element_size (region ! n)) m = Some xs \<Longrightarrow> P (n + 1 + element_size (region ! n)) xs \<Longrightarrow>
      P n ((element_id (region ! n), n + 1, element_size (region ! n)) # xs)"
  shows "P n xs"
  using assms(1)
proof (induction "m - n" arbitrary: n xs rule: less_induct)
  case less
  from less.prems show ?case
  proof (cases rule: path_cases)
    case arrived
    then show ?thesis using assms(2) by simp
  next
    case pad
    show ?thesis by (rule assms(3) [OF pad]) (rule less.hyps [OF _ pad(3)], use pad(1) in simp)
  next
    case (element ys)
    show ?thesis unfolding element(5)
      by (rule assms(4) [OF element(1-4)]) (rule less.hyps [OF _ element(4)], use element(1) in simp)
  qed
qed

text \<open>The elements on a path are well formed, lie one behind the other and end before the position.\<close>

lemma path_elements:
  assumes "path region n m = Some xs" "(i, pos, len) \<in> set xs"
  shows "n < pos" "pos + len \<le> m" "1 \<le> i" "i \<le> 14" "1 \<le> len" "len \<le> 16"
proof -
  have "\<forall>(i, pos, len) \<in> set xs. n < pos \<and> pos + len \<le> m \<and> 1 \<le> i \<and> i \<le> 14 \<and> 1 \<le> len \<and> len \<le> 16"
    using assms(1)
  proof (induction rule: path_induct)
    case (element n xs)
    then show ?case using path_le [OF element(4)] element_id_bound [of "region ! n"] element_size_bound(1) [of "region ! n"]
      by fastforce
  qed fastforce+
  then show "n < pos" "pos + len \<le> m" "1 \<le> i" "i \<le> 14" "1 \<le> len" "len \<le> 16" using assms(2) by blast+
qed

lemma path_sorted:
  assumes "path region n m = Some xs"
  shows "sorted_wrt (\<lambda>(_, pos, len) (_, pos', _). pos + len < pos') xs"
  using assms
proof (induction rule: path_induct)
  case (element n xs)
  then show ?case using path_elements(1) [OF element(4)] by fastforce
qed auto

lemma path_disjoint:
  assumes "path region n m = Some xs" "(i, pos, len) \<in> set xs" "(j, pos', len') \<in> set xs" "i \<noteq> j"
  shows "pos + len < pos' \<or> pos' + len' < pos"
proof -
  obtain a b where ab: "a < length xs" "b < length xs" "xs ! a = (i, pos, len)" "xs ! b = (j, pos', len')"
    using assms(2,3) by (metis in_set_conv_nth)
  then have "a \<noteq> b" using assms(4) by auto
  with ab show ?thesis
    using sorted_wrt_nth_less [OF path_sorted [OF assms(1)], of a b] sorted_wrt_nth_less [OF path_sorted [OF assms(1)], of b a]
    by (cases "a < b") auto
qed

text \<open>The reader looks at the headers of the elements only, not at their values.\<close>

lemma path_value:
  assumes "path region n m = Some xs" "(i, pos, len) \<in> set xs" "length bs = len" "m \<le> length region"
  shows "path (splice_at pos bs region) n m = Some xs"
proof -
  have "(i, pos, len) \<in> set xs \<or> pos + len \<le> n \<Longrightarrow> path (splice_at pos bs region) n m = Some xs"
    using assms(1)
  proof (induction rule: path_induct)
    case (pad n xs)
    have "splice_at pos bs region ! n = region ! n"
      using pad(5) path_elements(1,2) [OF pad(3), of i pos len] pad(1) assms(3,4) by (auto simp: nth_splice_at)
    then show ?case using pad(1,2,4,5) by (auto simp: path.simps [of _ n m])
  next
    case (element n xs)
    let ?b = "region ! n"
    have at: "splice_at pos bs region ! n = ?b" "(i, pos, len) \<in> set xs \<or> pos + len \<le> n + 1 + element_size ?b"
      using element(6) path_elements(1,2) [OF element(4), of i pos len] path_le [OF element(4)] element(1) assms(3,4) by (auto simp: nth_splice_at)
    then show ?case using element(1,2,3,5) by (auto simp: path.simps [of _ n m] Let_def)
  qed simp
  then show ?thesis using assms(2) by blast
qed

lemma scan_cong:
  "length region = length region' \<Longrightarrow> drop n region = drop n region' \<Longrightarrow> scan region n = scan region' n"
proof (induction region n rule: scan.induct)
  case (1 region n)
  have nth: "region ! n = region' ! n" if "n < length region" using 1(3,4) that by (metis hd_drop_conv_nth)
  have drops: "drop (n + k) region = drop (n + k) region'" for k using 1(4) by (metis drop_drop add.commute)
  show ?case
    using 1(1) [OF _ refl _ _ 1(3)] 1(2) [OF _ refl _ _ _ 1(3)] nth 1(3) drops [of 1] drops [of "1 + element_size (region' ! n)"]
    by (cases "n + 1 < length region") (simp_all add: scan.simps [of _ n] Let_def)
qed

lemma scan_zeros: "n \<le> length region \<Longrightarrow> drop n region = replicate k 0 \<Longrightarrow> fst (scan region n) = []"
proof (induction k arbitrary: n)
  case (Suc k)
  have n: "n < length region" using Suc.prems(2) by (metis drop_eq_Nil2 not_le replicate_Suc list.distinct(1))
  have "drop n region = region ! n # drop (Suc n) region" using n by (rule Cons_nth_drop_Suc [symmetric])
  then have "region ! n = 0" "drop (n + 1) region = replicate k 0" using Suc.prems(2) by auto
  then show ?case using Suc.IH [of "n + 1"] n scan_stop [of region n]
    by (cases "n + 1 < length region") (simp_all add: scan_pad)
qed (simp add: scan_stop)

section \<open>The table of entries\<close>

lemma length_set_entry [simp]: "length (set_entry off e xs) = length xs"
  by (simp add: set_entry_def split: prod.splits)

lemma length_set_entries [simp]: "length (set_entries off es xs) = length xs"
  by (induction es arbitrary: xs) simp_all

lemma length_clear_entries [simp]: "length (clear_entries xs) = length xs"
  by (simp add: clear_entries_def)

lemma map_update_same: "f y = f (xs ! i) \<Longrightarrow> map f (xs[i := y]) = map f xs"
  by (metis list_update_beyond list_update_id map_update not_le)

lemma types_set_entry [simp]: "map xe_type (set_entry off e xs) = map xe_type xs"
  by (cases e) (simp add: set_entry_def map_update_same)

lemma types_set_entries [simp]: "map xe_type (set_entries off es xs) = map xe_type xs"
  by (induction es arbitrary: xs) simp_all

lemma types_clear_entries [simp]: "map xe_type (clear_entries xs) = map xe_type xs"
  by (simp add: clear_entries_def)

text \<open>A cleared table depends on the types only.\<close>

lemma clear_entries_cong: "map xe_type xs = map xe_type ys \<Longrightarrow> clear_entries xs = clear_entries ys"
proof -
  have "clear_entries zs = map (\<lambda>t. \<lparr>xe_type = t, xe_offset = 0, xe_length = 0\<rparr>) (map xe_type zs)" for zs
    by (simp add: clear_entries_def)
  then show "map xe_type xs = map xe_type ys \<Longrightarrow> ?thesis" by metis
qed

lemma clear_set_entries [simp]: "clear_entries (set_entries off es xs) = clear_entries xs"
  "clear_entries (clear_entries xs) = clear_entries xs"
  by (rule clear_entries_cong, simp)+

lemma set_entry_nth:
  "i < length xs \<Longrightarrow> 1 \<le> j \<Longrightarrow> set_entry off (j, pos, len) xs ! i =
    (if j = i + 1 then (xs ! i)\<lparr>xe_offset := of_nat (off + pos), xe_length := of_nat len\<rparr> else xs ! i)"
  by (auto simp: set_entry_def nth_list_update)

text \<open>An entry that is set describes an element of its id.\<close>

lemma set_entries_nth:
  assumes "i < length xs" "\<forall>(j, _, _) \<in> set es. 1 \<le> j"
  shows "set_entries off es (clear_entries xs) ! i = clear_entries xs ! i \<and> (\<forall>pos len. (i + 1, pos, len) \<notin> set es) \<or>
    (\<exists>pos len. (i + 1, pos, len) \<in> set es \<and>
       set_entries off es (clear_entries xs) ! i =
         (clear_entries xs ! i)\<lparr>xe_offset := of_nat (off + pos), xe_length := of_nat len\<rparr>)"
  using assms(2)
proof (induction es rule: rev_induct)
  case (snoc e es)
  obtain j pos len where e: "e = (j, pos, len)" by (cases e)
  have j: "1 \<le> j" using snoc.prems e by simp
  let ?old = "set_entries off es (clear_entries xs)"
  have new: "set_entries off (es @ [e]) (clear_entries xs) ! i =
      (if j = i + 1 then (?old ! i)\<lparr>xe_offset := of_nat (off + pos), xe_length := of_nat len\<rparr> else ?old ! i)"
    using assms(1) j by (simp add: e set_entry_nth)
  show ?case
  proof (cases "j = i + 1")
    case True
    have "(?old ! i)\<lparr>xe_offset := of_nat (off + pos), xe_length := of_nat len\<rparr> =
        (clear_entries xs ! i)\<lparr>xe_offset := of_nat (off + pos), xe_length := of_nat len\<rparr>"
      using snoc.IH snoc.prems by auto
    with new True have "set_entries off (es @ [e]) (clear_entries xs) ! i =
        (clear_entries xs ! i)\<lparr>xe_offset := of_nat (off + pos), xe_length := of_nat len\<rparr>" by simp
    then show ?thesis using True e by auto
  next
    case False
    then have same: "set_entries off (es @ [e]) (clear_entries xs) ! i = ?old ! i" using new by simp
    have "(i + 1, a, b) \<in> set (es @ [e]) \<longleftrightarrow> (i + 1, a, b) \<in> set es" for a b using False e by auto
    then show ?thesis using snoc.IH snoc.prems unfolding same by simp
  qed
qed simp

lemma clear_entries_nth: "i < length xs \<Longrightarrow> clear_entries xs ! i = (xs ! i)\<lparr>xe_offset := 0, xe_length := 0\<rparr>"
  by (simp add: clear_entries_def)

end
