(* ===== verification/RtpPacketInv.thy ===== *)
theory RtpPacketInv
  imports RtpPacketScan
begin

text \<open>
  What \<open>rtp::Packet\<close> keeps: the fields of the object always say what the bytes of its buffer say. The
  layout of a packet is described on the bytes, \<open>ParseBuffer\<close> is shown to compute exactly this
  description, and every operation of the class preserves the agreement.
\<close>

section \<open>Layout of a packet\<close>

definition csrc_end :: "byte list \<Rightarrow> nat" where
  "csrc_end D = 12 + 4 * unat (D ! 0 AND 0x0f)"

definition has_ext :: "byte list \<Rightarrow> bool" where
  "has_ext D \<longleftrightarrow> D ! 0 AND 0x10 \<noteq> 0"

definition has_pad :: "byte list \<Rightarrow> bool" where
  "has_pad D \<longleftrightarrow> D ! 0 AND 0x20 \<noteq> 0"

definition ext_profile :: "byte list \<Rightarrow> uint16" where
  "ext_profile D = be_word 2 (drop (csrc_end D) D)"

definition ext_bytes :: "byte list \<Rightarrow> nat" where
  "ext_bytes D = 4 * unat (be_word 2 (drop (csrc_end D + 2) D) :: uint16)"

definition ext_block :: "byte list \<Rightarrow> byte list" where
  "ext_block D = (if has_ext D \<and> ext_profile D = kOneByteExtensionId
     then take (ext_bytes D) (drop (csrc_end D + 4) D) else [])"

definition hdr_end :: "byte list \<Rightarrow> nat" where
  "hdr_end D = (if has_ext D then csrc_end D + 4 + ext_bytes D else csrc_end D)"

definition pad_len :: "byte list \<Rightarrow> byte" where
  "pad_len D = (if has_pad D then D ! (length D - 1) else 0)"

definition rtp_valid :: "byte list \<Rightarrow> bool" where
  "rtp_valid D \<longleftrightarrow> 12 \<le> length D \<and> drop_bit 6 (D ! 0) = 2 \<and> csrc_end D \<le> length D \<and>
     (has_ext D \<longrightarrow> csrc_end D + 4 \<le> length D) \<and> (has_pad D \<longrightarrow> pad_len D \<noteq> 0) \<and>
     hdr_end D + unat (pad_len D) \<le> length D"

text \<open>The fields that the bytes determine.\<close>

definition parsed :: "byte list \<Rightarrow> rtp_packet \<Rightarrow> rtp_packet" where
  "parsed D p = p\<lparr>rp_marker := D ! 1 AND 0x80 \<noteq> 0, rp_payload_type := D ! 1 AND 0x7f,
     rp_padding_size := pad_len D, rp_sequence_number := be_word 2 (drop 2 D),
     rp_timestamp := be_word 4 (drop 4 D), rp_ssrc := be_word 4 (drop 8 D),
     rp_payload_offset := hdr_end D, rp_payload_size := length D - hdr_end D - unat (pad_len D),
     rp_extension_entries := set_entries (csrc_end D + 4) (fst (scan (ext_block D) 0)) (clear_entries (rp_extension_entries p)),
     rp_extensions_size := of_nat (snd (scan (ext_block D) 0))\<rparr>"

lemma length_ext_block: "csrc_end D + 4 + ext_bytes D \<le> length D \<Longrightarrow> length (ext_block D) \<le> ext_bytes D"
  by (simp add: ext_block_def)

lemma ParseElements_block:
  assumes "csrc_end D + 4 + ext_bytes D \<le> length D" "length D < 2 ^ 16" "has_ext D"
    "ext_profile D = kOneByteExtensionId" "rp_extensions_size p = 0"
  shows "ParseElements D (csrc_end D + 4) (ext_bytes D) p =
    Some (p\<lparr>rp_extension_entries := set_entries (csrc_end D + 4) (fst (scan (ext_block D) 0)) (rp_extension_entries p),
      rp_extensions_size := of_nat (snd (scan (ext_block D) 0))\<rparr>)"
proof -
  have len: "length (ext_block D) = ext_bytes D" using assms(1,3,4) by (simp add: ext_block_def)
  have "ext_block D = take (length (ext_block D)) (drop (csrc_end D + 4) D)"
    using assms(3,4) len by (simp add: ext_block_def)
  then show ?thesis
    using ParseElements_scan [of "ext_block D" "csrc_end D + 4" D 0 p] assms(1,2,5) by (simp add: len)
qed

lemma ParseBuffer_valid:
  assumes valid: "rtp_valid D" and small: "length D < 2 ^ 16"
  shows "ParseBuffer D p = Some (True, parsed D p)"
proof -
  have len: "12 \<le> length D" "drop_bit 6 (D ! 0) = 2" "csrc_end D \<le> length D" "D \<noteq> []"
    and ext: "has_ext D \<Longrightarrow> csrc_end D + 4 \<le> length D" "has_ext D \<Longrightarrow> csrc_end D + 4 + ext_bytes D \<le> length D"
    and pad: "has_pad D \<Longrightarrow> pad_len D \<noteq> 0" and fits: "hdr_end D + unat (pad_len D) \<le> length D"
    using valid by (auto simp: rtp_valid_def hdr_end_def)
  have bits: "(D ! 0 AND 0x10 \<noteq> 0) = has_ext D" "(D ! 0 AND 0x20 \<noteq> 0) = has_pad D"
    "12 + unat (D ! 0 AND 0x0f) * 4 = csrc_end D"
    by (simp_all add: has_ext_def has_pad_def csrc_end_def)
  have "0 < length D" "1 < length D" "length D - 1 < length D" using len(1) by auto
  have reads: "byte_at D 0 = Some (D ! 0)" "byte_at D 1 = Some (D ! 1)" "byte_at D (length D - 1) = Some (D ! (length D - 1))"
    "ReadBigEndian 2 (drop 2 D) = Some (be_word 2 (drop 2 D) :: uint16)"
    "ReadBigEndian 4 (drop 4 D) = Some (be_word 4 (drop 4 D) :: uint32)"
    "ReadBigEndian 4 (drop 8 D) = Some (be_word 4 (drop 8 D) :: uint32)"
    using len(1) by (auto simp: byte_at_def ReadBigEndian_eq)
  have padding: "(if has_pad D then byte_at D (length D - 1) else Some 0) = Some (pad_len D)"
    using reads(3) by (simp add: pad_len_def)
  show ?thesis
  proof (cases "has_ext D")
    case False
    then show ?thesis using len fits pad
      by (simp add: ParseBuffer_def reads bits padding Let_def parsed_def hdr_end_def ext_block_def scan_stop del: One_nat_def)
  next
    case True
    have words: "ReadBigEndian 2 (drop (csrc_end D) D) = Some (ext_profile D)"
      "ReadBigEndian 2 (drop (csrc_end D + 2) D) = Some (be_word 2 (drop (csrc_end D + 2) D) :: uint16)"
      "unat (be_word 2 (drop (csrc_end D + 2) D) :: uint16) * 4 = ext_bytes D"
      using ext(1) [OF True] by (simp_all add: ReadBigEndian_eq ext_profile_def ext_bytes_def)
    show ?thesis
    proof (cases "ext_profile D = kOneByteExtensionId")
      case False
      then show ?thesis using True len ext fits pad
        by (simp add: ParseBuffer_def reads bits padding Let_def words parsed_def hdr_end_def ext_block_def scan_stop
            del: One_nat_def add_2_eq_Suc add_2_eq_Suc')
    next
      case profile: True
      note elements = ParseElements_block [OF ext(2) [OF True] small True profile]
      show ?thesis using True profile len ext fits pad
        by (simp add: ParseBuffer_def reads bits padding Let_def words elements parsed_def hdr_end_def
            del: One_nat_def add_2_eq_Suc add_2_eq_Suc')
    qed
  qed
qed

text \<open>A failed parse leaves the buffer and the registered types alone.\<close>

definition rejected :: "rtp_packet \<Rightarrow> (bool \<times> rtp_packet) option \<Rightarrow> bool" where
  "rejected p r \<longleftrightarrow> (\<exists>q. r = Some (False, q) \<and> rp_buffer q = rp_buffer p \<and>
     map xe_type (rp_extension_entries q) = map xe_type (rp_extension_entries p))"

lemma ParseBuffer_invalid:
  assumes invalid: "\<not> rtp_valid D" and small: "length D < 2 ^ 16"
  shows "rejected p (ParseBuffer D p)"
proof (cases "12 \<le> length D \<and> drop_bit 6 (D ! 0) = 2")
  case False
  then show ?thesis by (auto simp: ParseBuffer_def byte_at_def rejected_def)
next
  case start: True
  have bits: "(D ! 0 AND 0x10 \<noteq> 0) = has_ext D" "(D ! 0 AND 0x20 \<noteq> 0) = has_pad D"
    "12 + unat (D ! 0 AND 0x0f) * 4 = csrc_end D"
    by (simp_all add: has_ext_def has_pad_def csrc_end_def)
  have ne: "D \<noteq> []" using start by auto
  have reads: "byte_at D 0 = Some (D ! 0)" "byte_at D 1 = Some (D ! 1)" "byte_at D (length D - 1) = Some (D ! (length D - 1))"
    "ReadBigEndian 2 (drop 2 D) = Some (be_word 2 (drop 2 D) :: uint16)"
    "ReadBigEndian 4 (drop 4 D) = Some (be_word 4 (drop 4 D) :: uint32)"
    "ReadBigEndian 4 (drop 8 D) = Some (be_word 4 (drop 8 D) :: uint32)"
    using start by (auto simp: byte_at_def ReadBigEndian_eq)
  have padding: "(if has_pad D then byte_at D (length D - 1) else Some 0) = Some (pad_len D)"
    using reads(3) by (simp add: pad_len_def)
  note parse = ParseBuffer_def reads bits padding Let_def rejected_def
  consider (csrcs) "length D < csrc_end D" | (pad) "csrc_end D \<le> length D" "has_pad D" "pad_len D = 0"
    | (short) "csrc_end D \<le> length D" "has_pad D \<longrightarrow> pad_len D \<noteq> 0" "has_ext D" "length D < csrc_end D + 4"
    | (size) "csrc_end D \<le> length D" "has_pad D \<longrightarrow> pad_len D \<noteq> 0" "has_ext D \<longrightarrow> csrc_end D + 4 \<le> length D"
        "length D < hdr_end D + unat (pad_len D)"
    using invalid start unfolding rtp_valid_def by linarith
  then show ?thesis
  proof cases
    case csrcs
    then show ?thesis using start ne by (simp add: parse del: One_nat_def)
  next
    case pad
    then have "byte_at D (length D - 1) = Some 0" using reads(3) by (simp add: pad_len_def)
    then show ?thesis using start ne pad by (simp add: parse del: One_nat_def)
  next
    case short
    then show ?thesis using start ne by (simp add: parse del: One_nat_def)
  next
    case size
    show ?thesis
    proof (cases "has_ext D")
      case False
      then show ?thesis using start ne size by (simp add: parse hdr_end_def del: One_nat_def)
    next
      case True
      have words: "ReadBigEndian 2 (drop (csrc_end D) D) = Some (ext_profile D)"
        "ReadBigEndian 2 (drop (csrc_end D + 2) D) = Some (be_word 2 (drop (csrc_end D + 2) D) :: uint16)"
        "unat (be_word 2 (drop (csrc_end D + 2) D) :: uint16) * 4 = ext_bytes D"
        using size(3) True by (simp_all add: ReadBigEndian_eq ext_profile_def ext_bytes_def)
      note del = One_nat_def add_2_eq_Suc add_2_eq_Suc'
      consider (over) "length D < csrc_end D + 4 + ext_bytes D"
        | (other) "csrc_end D + 4 + ext_bytes D \<le> length D" "ext_profile D \<noteq> kOneByteExtensionId"
        | (block) "csrc_end D + 4 + ext_bytes D \<le> length D" "ext_profile D = kOneByteExtensionId" by linarith
      then show ?thesis
      proof cases
        case over
        then show ?thesis using start ne size True by (simp add: parse words del: del)
      next
        case other
        then show ?thesis using start ne size True by (simp add: parse words hdr_end_def del: del)
      next
        case block
        note elements = ParseElements_block [OF block(1) small True block(2)]
        show ?thesis using start ne size True block by (simp add: parse words elements hdr_end_def del: del)
      qed
    qed
  qed
qed

section \<open>The invariant\<close>

text \<open>The fields of the fixed header, and those that depend on the layout.\<close>

definition hdr_agrees :: "byte list \<Rightarrow> rtp_packet \<Rightarrow> bool" where
  "hdr_agrees D p \<longleftrightarrow> rp_marker p = (D ! 1 AND 0x80 \<noteq> 0) \<and> rp_payload_type p = D ! 1 AND 0x7f \<and>
     rp_sequence_number p = be_word 2 (drop 2 D) \<and> rp_timestamp p = be_word 4 (drop 4 D) \<and>
     rp_ssrc p = be_word 4 (drop 8 D)"

text \<open>
  \<open>extensions_size_\<close> is a position the reader comes to, behind which it finds no element: a new
  element can be appended there.
\<close>

definition ext_agrees :: "byte list \<Rightarrow> rtp_packet \<Rightarrow> bool" where
  "ext_agrees D p \<longleftrightarrow> (\<exists>xs. path (ext_block D) 0 (unat (rp_extensions_size p)) = Some xs \<and>
     unat (rp_extensions_size p) \<le> length (ext_block D) \<and> fst (scan (ext_block D) (unat (rp_extensions_size p))) = [] \<and>
     rp_extension_entries p = set_entries (csrc_end D + 4) xs (clear_entries (rp_extension_entries p)))"

definition layout_agrees :: "byte list \<Rightarrow> rtp_packet \<Rightarrow> bool" where
  "layout_agrees D p \<longleftrightarrow> rp_padding_size p = pad_len D \<and> rp_payload_offset p = hdr_end D \<and>
     hdr_end D + rp_payload_size p + unat (pad_len D) = length D \<and> ext_agrees D p"

definition packet_inv :: "rtp_packet \<Rightarrow> bool" where
  "packet_inv p \<longleftrightarrow> Buffer_IsConsistent (rp_buffer p) \<and> length (rp_extension_entries p) = kMaxExtensionHeaders \<and>
     length (contents (rp_buffer p)) < 2 ^ 16 \<and> rtp_valid (contents (rp_buffer p)) \<and>
     hdr_agrees (contents (rp_buffer p)) p \<and> layout_agrees (contents (rp_buffer p)) p"

lemma layout_agrees_size:
  "layout_agrees D p \<Longrightarrow> rp_payload_offset p + rp_payload_size p + unat (rp_padding_size p) = length D"
  by (simp add: layout_agrees_def)

lemma ext_block_bound: "rtp_valid D \<Longrightarrow> length (ext_block D) + 16 \<le> length D \<or> ext_block D = []"
  by (auto simp: rtp_valid_def ext_block_def hdr_end_def csrc_end_def)

lemma ext_agrees_entries:
  assumes "ext_agrees D p"
  shows "rp_extension_entries p = set_entries (csrc_end D + 4) (fst (scan (ext_block D) 0)) (clear_entries (rp_extension_entries p))"
  using assms scan_path [of "ext_block D" 0] by (auto simp: ext_agrees_def)

text \<open>Parsing the bytes of a packet gives the packet back, up to the padding counted in \<open>extensions_size_\<close>.\<close>

lemma parsed_self:
  assumes "hdr_agrees D p" "layout_agrees D p"
  shows "parsed D p = p\<lparr>rp_extensions_size := rp_extensions_size (parsed D p)\<rparr>"
proof -
  have "set_entries (csrc_end D + 4) (fst (scan (ext_block D) 0)) (clear_entries (rp_extension_entries p)) = rp_extension_entries p"
    using ext_agrees_entries assms(2) by (simp add: layout_agrees_def flip: ext_agrees_entries)
  moreover have "length D - hdr_end D - unat (pad_len D) = rp_payload_size p" "hdr_end D = rp_payload_offset p" "pad_len D = rp_padding_size p"
    using assms(2) by (auto simp: layout_agrees_def)
  ultimately show ?thesis using assms(1) unfolding parsed_def hdr_agrees_def by (cases p) simp
qed

lemma agrees_parsed:
  assumes "rtp_valid D" "length D < 2 ^ 16"
  shows "hdr_agrees D (parsed D p)" "layout_agrees D (parsed D p)"
proof -
  let ?n = "snd (scan (ext_block D) 0)"
  have n: "?n \<le> length (ext_block D)" using scan_end [of 0 "ext_block D"] by auto
  then have "?n < 2 ^ 16" using ext_block_bound [OF assms(1)] assms(2) by auto
  then have u: "unat (rp_extensions_size (parsed D p)) = ?n" by (simp add: parsed_def unat16)
  have "ext_agrees D (parsed D p)" using path_scan [of "ext_block D" 0] n
    unfolding ext_agrees_def u by (simp add: parsed_def)
  then show "hdr_agrees D (parsed D p)" "layout_agrees D (parsed D p)"
    using assms(1) by (simp_all add: hdr_agrees_def layout_agrees_def parsed_def rtp_valid_def)
qed

lemma agrees_buffer [simp]:
  "hdr_agrees D (p\<lparr>rp_buffer := b\<rparr>) = hdr_agrees D p" "layout_agrees D (p\<lparr>rp_buffer := b\<rparr>) = layout_agrees D p"
  by (simp_all add: hdr_agrees_def layout_agrees_def ext_agrees_def)

lemma packet_invI:
  assumes "Buffer_IsConsistent b" "contents b = D" "length D < 2 ^ 16" "rtp_valid D"
    "length (rp_extension_entries p) = kMaxExtensionHeaders" "hdr_agrees D p" "layout_agrees D p"
  shows "packet_inv (p\<lparr>rp_buffer := b\<rparr>)"
  using assms by (simp add: packet_inv_def)

lemma packet_inv_capacity:
  assumes "packet_inv p"
  shows "12 \<le> Packet_capacity p" "rb_size (rp_buffer p) \<le> Packet_capacity p"
    "length (contents (rp_buffer p)) = rb_size (rp_buffer p)"
  using assms by (auto simp: packet_inv_def rtp_valid_def Packet_capacity_def length_contents buffer_defs)

section \<open>Construction and parsing keep the invariant\<close>

lemma Buffer_SetSize_within:
  "sz \<le> Buffer_capacity b \<Longrightarrow> Buffer_SetSize fresh sz b = b\<lparr>rb_size := sz\<rparr>"
  by (simp add: Buffer_SetSize_def EnsureCapacityWithHeadroom_def)

abbreviation (input) empty_packet :: "byte list" where "empty_packet \<equiv> 0x80 # replicate 11 0"

lemma empty_packet_layout:
  "rtp_valid empty_packet" "csrc_end empty_packet = 12" "hdr_end empty_packet = 12" "pad_len empty_packet = 0"
  "ext_block empty_packet = []"
  by (simp_all add: rtp_valid_def csrc_end_def has_ext_def has_pad_def pad_len_def hdr_end_def ext_block_def)

lemma Packet_Clear_ok:
  assumes "12 \<le> Packet_capacity p" "length (rp_extension_entries p) = kMaxExtensionHeaders"
  shows "\<exists>q. Packet_Clear fresh p = Some q \<and> packet_inv q \<and> contents (rp_buffer q) = empty_packet \<and>
     Packet_capacity q = Packet_capacity p \<and> rp_extension_entries q = clear_entries (rp_extension_entries p)"
proof -
  let ?data = "splice_at 0 [0x80] (splice_at 0 (replicate 12 0) (rb_data (rp_buffer p)))"
  let ?p = "p\<lparr>rp_marker := False, rp_payload_type := 0, rp_sequence_number := 0, rp_timestamp := 0, rp_ssrc := 0,
         rp_payload_offset := 12, rp_payload_size := 0, rp_padding_size := 0,
         rp_extensions_size := 0, rp_extension_entries := clear_entries (rp_extension_entries p)\<rparr>"
  let ?b = "\<lparr>rb_size = 12, rb_data = ?data\<rparr>"
  have cap: "12 \<le> length (rb_data (rp_buffer p))" using assms(1) by (simp add: Packet_capacity_def Buffer_capacity_def)
  then have "Packet_Clear fresh p = Some (?p\<lparr>rp_buffer := ?b\<rparr>)"
    by (simp add: Packet_Clear_def WriteAt_def Buffer_write_def Buffer_capacity_def SetBufferSize_def Buffer_SetSize_within)
  moreover have len: "length ?data = length (rb_data (rp_buffer p))" using cap by simp
  moreover have "contents ?b = empty_packet" using cap
    by (simp add: contents_def splice_at_def take_Cons' numeral_eq_Suc)
  moreover have "hdr_agrees empty_packet ?p" by (simp add: hdr_agrees_def be_word_def numeral_eq_Suc)
  moreover have "layout_agrees empty_packet ?p"
    by (simp add: layout_agrees_def empty_packet_layout ext_agrees_def scan_stop)
  moreover have "Buffer_IsConsistent ?b" "Packet_capacity (?p\<lparr>rp_buffer := ?b\<rparr>) = Packet_capacity p"
    using cap len by (simp_all add: buffer_defs Packet_capacity_def)
  ultimately show ?thesis
    using packet_invI [of ?b empty_packet ?p] empty_packet_layout(1) assms(2) by simp
qed

lemma Packet_Parse_valid:
  assumes "allocates fresh" "rtp_valid D" "length D < 2 ^ 16" "length (rp_extension_entries p) = kMaxExtensionHeaders"
  shows "\<exists>b. Packet_Parse fresh D p = Some (True, (parsed D p)\<lparr>rp_buffer := b\<rparr>) \<and> contents b = D \<and>
     packet_inv ((parsed D p)\<lparr>rp_buffer := b\<rparr>)"
proof -
  let ?b = "Buffer_SetData fresh D (rp_buffer p)"
  note b = Buffer_SetData_ok [OF assms(1), where bs = D and b = "rp_buffer p"]
  note agrees = agrees_parsed [OF assms(2,3), of p]
  have inv: "packet_inv ((parsed D p)\<lparr>rp_buffer := ?b\<rparr>)"
    using b agrees assms by (intro packet_invI [where D = D]) (simp_all add: parsed_def)
  have "rb_size ?b = length D" using length_contents [OF b(1)] b(2) by simp
  moreover have "rp_payload_offset (parsed D p) + rp_payload_size (parsed D p) + unat (rp_padding_size (parsed D p)) = length D"
    using layout_agrees_size [OF agrees(2)] .
  ultimately have "Packet_size ((parsed D p)\<lparr>rp_buffer := ?b\<rparr>) = Some (length D)" by (simp add: Packet_size_def)
  then have "Packet_Parse fresh D p = Some (True, (parsed D p)\<lparr>rp_buffer := ?b\<rparr>)"
    using ParseBuffer_valid [OF assms(2,3), of p] by (simp add: Packet_Parse_def parsed_def)
  then show ?thesis using inv b(2) by blast
qed

lemma types_length: "map xe_type xs = map xe_type ys \<Longrightarrow> length xs = length ys"
  by (metis length_map)

lemma Packet_Parse_invalid:
  assumes "\<not> rtp_valid D" "length D < 2 ^ 16" "length (rp_extension_entries p) = kMaxExtensionHeaders" "12 \<le> Packet_capacity p"
  shows "\<exists>q. Packet_Parse fresh D p = Some (False, q) \<and> packet_inv q \<and> contents (rp_buffer q) = empty_packet \<and>
     map xe_type (rp_extension_entries q) = map xe_type (rp_extension_entries p)"
proof -
  obtain r where r: "ParseBuffer D p = Some (False, r)" "rp_buffer r = rp_buffer p"
    "map xe_type (rp_extension_entries r) = map xe_type (rp_extension_entries p)"
    using ParseBuffer_invalid [OF assms(1,2), of p] by (auto simp: rejected_def)
  have "12 \<le> Packet_capacity r" using r(2) assms(4) by (simp add: Packet_capacity_def)
  then obtain q where "Packet_Clear fresh r = Some q" "packet_inv q" "contents (rp_buffer q) = empty_packet"
    "rp_extension_entries q = clear_entries (rp_extension_entries r)"
    using Packet_Clear_ok [of r fresh] types_length [OF r(3)] assms(3) by auto
  then show ?thesis using r by (simp add: Packet_Parse_def)
qed

lemma Packet_ParseCow_eq:
  assumes "Buffer_IsConsistent b" "length (contents b) < 2 ^ 16" "length (rp_extension_entries p) = kMaxExtensionHeaders"
    "rtp_valid (contents b)"
  shows "Packet_ParseCow fresh b p = Some (True, (parsed (contents b) p)\<lparr>rp_buffer := b\<rparr>)"
    "packet_inv ((parsed (contents b) p)\<lparr>rp_buffer := b\<rparr>)"
proof -
  note agrees = agrees_parsed [OF assms(4,2), of p]
  have "rp_payload_offset (parsed (contents b) p) + rp_payload_size (parsed (contents b) p) +
      unat (rp_padding_size (parsed (contents b) p)) = rb_size b"
    using layout_agrees_size [OF agrees(2)] length_contents [OF assms(1)] by simp
  then show "Packet_ParseCow fresh b p = Some (True, (parsed (contents b) p)\<lparr>rp_buffer := b\<rparr>)"
    using ParseBuffer_valid [OF assms(4,2), of p] by (simp add: Packet_ParseCow_def Packet_size_def)
  show "packet_inv ((parsed (contents b) p)\<lparr>rp_buffer := b\<rparr>)"
    using agrees assms by (intro packet_invI [OF _ refl]) (simp_all add: parsed_def)
qed

text \<open>Assigning types does not touch what the table says about the bytes.\<close>

lemma those_Some_map: "(\<And>x. x \<in> set xs \<Longrightarrow> f x = Some (g x)) \<Longrightarrow> those (map f xs) = Some (map g xs)"
  by (induction xs) simp_all

lemma IdentifyExtensions_eq:
  assumes "length (rp_extension_entries p) = kMaxExtensionHeaders"
  shows "IdentifyExtensions m p = Some (p\<lparr>rp_extension_entries :=
    map (\<lambda>i. (rp_extension_entries p ! i)\<lparr>xe_type := em_types m ! (i + 1)\<rparr>) [0..<14]\<rparr>)"
proof -
  have "GetType (of_nat (i + 1)) m = Some (em_types m ! (i + 1))" if "i < 14" for i
  proof -
    have "unat (of_nat (i + 1) :: byte) = i + 1" using that by (simp only: unat_of_nat) simp
    moreover have "\<not> (of_nat (i + 1) :: byte) < 1" "\<not> (of_nat (i + 1) :: byte) > 14"
      using calculation that by (simp_all only: word_less_nat_alt) simp_all
    ultimately show ?thesis by (simp only: GetType_def) simp
  qed
  then show ?thesis unfolding IdentifyExtensions_def
    by (subst those_Some_map [where g = "\<lambda>i. (rp_extension_entries p ! i)\<lparr>xe_type := em_types m ! (i + 1)\<rparr>"]) simp_all
qed

lemma entries_eqI:
  fixes xs ys :: "extension_entry list"
  assumes "length xs = length ys" "\<And>i. i < length xs \<Longrightarrow> xe_type (xs ! i) = xe_type (ys ! i) \<and>
     xe_offset (xs ! i) = xe_offset (ys ! i) \<and> xe_length (xs ! i) = xe_length (ys ! i)"
  shows "xs = ys"
  using assms by (auto intro!: nth_equalityI extension_entry.equality)

lemma set_entries_types:
  assumes "length xs = length ys"
    and "\<And>i. i < length xs \<Longrightarrow> xe_offset (xs ! i) = xe_offset (ys ! i) \<and> xe_length (xs ! i) = xe_length (ys ! i)"
    and "i < length xs"
  shows "xe_offset (set_entries off es xs ! i) = xe_offset (set_entries off es ys ! i) \<and>
     xe_length (set_entries off es xs ! i) = xe_length (set_entries off es ys ! i)"
  using assms
proof (induction es arbitrary: xs ys)
  case (Cons e es)
  obtain j pos len where e: "e = (j, pos, len)" by (cases e)
  have "xe_offset (set_entry off e xs ! k) = xe_offset (set_entry off e ys ! k) \<and>
      xe_length (set_entry off e xs ! k) = xe_length (set_entry off e ys ! k)" if "k < length xs" for k
    using Cons.prems(1,2) that by (cases "j - 1 < length xs") (auto simp: e set_entry_def nth_list_update)
  then show ?case using Cons.IH [of "set_entry off e xs" "set_entry off e ys"] Cons.prems(1,3) by simp
qed simp

lemma types_nth: "i < length xs \<Longrightarrow> xe_type (set_entries off es (clear_entries xs) ! i) = xe_type (xs ! i)"
  by (metis length_clear_entries length_set_entries nth_map types_clear_entries types_set_entries)

lemma IdentifyExtensions_ok:
  assumes "packet_inv p"
  shows "\<exists>q. IdentifyExtensions m p = Some q \<and> packet_inv q \<and> rp_buffer q = rp_buffer p \<and>
     (\<forall>i < kMaxExtensionHeaders. xe_type (rp_extension_entries q ! i) = em_types m ! (i + 1))"
proof -
  let ?es = "map (\<lambda>i. (rp_extension_entries p ! i)\<lparr>xe_type := em_types m ! (i + 1)\<rparr>) [0..<14]"
  let ?q = "p\<lparr>rp_extension_entries := ?es\<rparr>" and ?D = "contents (rp_buffer p)"
  have len: "length (rp_extension_entries p) = 14" using assms by (simp add: packet_inv_def)
  obtain xs where xs: "path (ext_block ?D) 0 (unat (rp_extensions_size p)) = Some xs"
    "unat (rp_extensions_size p) \<le> length (ext_block ?D)" "fst (scan (ext_block ?D) (unat (rp_extensions_size p))) = []"
    "rp_extension_entries p = set_entries (csrc_end ?D + 4) xs (clear_entries (rp_extension_entries p))"
    using assms by (auto simp: packet_inv_def layout_agrees_def ext_agrees_def)
  have "?es = set_entries (csrc_end ?D + 4) xs (clear_entries ?es)"
  proof (rule entries_eqI)
    fix i assume "i < length ?es"
    then have i: "i < 14" by simp
    have "xe_type (set_entries (csrc_end ?D + 4) xs (clear_entries ?es) ! i) = xe_type (?es ! i)"
      using i by (intro types_nth) simp
    moreover have "xe_offset (set_entries (csrc_end ?D + 4) xs (clear_entries ?es) ! i) =
        xe_offset (set_entries (csrc_end ?D + 4) xs (clear_entries (rp_extension_entries p)) ! i) \<and>
        xe_length (set_entries (csrc_end ?D + 4) xs (clear_entries ?es) ! i) =
        xe_length (set_entries (csrc_end ?D + 4) xs (clear_entries (rp_extension_entries p)) ! i)"
      using i len by (intro set_entries_types) (simp_all add: clear_entries_nth)
    ultimately show "xe_type (?es ! i) = xe_type (set_entries (csrc_end ?D + 4) xs (clear_entries ?es) ! i) \<and>
        xe_offset (?es ! i) = xe_offset (set_entries (csrc_end ?D + 4) xs (clear_entries ?es) ! i) \<and>
        xe_length (?es ! i) = xe_length (set_entries (csrc_end ?D + 4) xs (clear_entries ?es) ! i)"
      using i by (simp flip: xs(4))
  qed simp
  then have "ext_agrees ?D ?q" using xs(1-3) by (auto simp: ext_agrees_def)
  then have "packet_inv ?q" using assms by (simp add: packet_inv_def hdr_agrees_def layout_agrees_def)
  moreover have "xe_type (rp_extension_entries ?q ! i) = em_types m ! (i + 1)" if "i < 14" for i
    using that by simp
  ultimately show ?thesis using IdentifyExtensions_eq [OF len, of m] by (intro exI [of _ ?q]) simp
qed

lemma Packet_new_ok:
  assumes "allocates fresh" "12 \<le> capacity"
  shows "\<exists>p. Packet_new fresh ext capacity = Some p \<and> packet_inv p \<and> contents (rp_buffer p) = empty_packet \<and>
     Packet_capacity p = capacity"
proof -
  let ?blank = "\<lparr>rp_marker = False, rp_payload_type = 0, rp_padding_size = 0, rp_sequence_number = 0,
          rp_timestamp = 0, rp_ssrc = 0, rp_payload_offset = 0, rp_payload_size = 0,
          rp_extension_entries = replicate 14 \<lparr>xe_type = kRtpExtensionNone, xe_offset = 0, xe_length = 0\<rparr>,
          rp_extensions_size = 0, rp_buffer = Buffer_new fresh capacity capacity\<rparr>"
  have cap: "Packet_capacity ?blank = capacity" using Buffer_new_ok(2) [OF assms(1)] by (simp add: Packet_capacity_def)
  obtain p where p: "Packet_Clear fresh ?blank = Some p" "packet_inv p" "contents (rp_buffer p) = empty_packet"
    "Packet_capacity p = capacity" "rp_extension_entries p = clear_entries (rp_extension_entries ?blank)"
    using Packet_Clear_ok [of ?blank fresh] assms(2) cap by auto
  have new: "Packet_new fresh ext capacity = (case ext of Some m \<Rightarrow> IdentifyExtensions m p
      | None \<Rightarrow> Some (p\<lparr>rp_extension_entries := map (\<lambda>x. x\<lparr>xe_type := kRtpExtensionNone\<rparr>) (rp_extension_entries p)\<rparr>))"
    using assms(2) p(1) by (simp add: Packet_new_def)
  show ?thesis
  proof (cases ext)
    case None
    have "map (\<lambda>x. x\<lparr>xe_type := kRtpExtensionNone\<rparr>) (rp_extension_entries p) = rp_extension_entries p"
      by (simp add: p(5) clear_entries_def)
    then have "Packet_new fresh ext capacity = Some p" using new None by (cases p) simp
    then show ?thesis using p by blast
  next
    case (Some m)
    then show ?thesis using IdentifyExtensions_ok [OF p(2), of m] new p(3,4) by (auto simp: Packet_capacity_def)
  qed
qed

end
