(* ===== verification/RtpPacketOps.thy ===== *)
theory RtpPacketOps
  imports RtpPacketInv
begin

text \<open>
  The getters and setters of \<open>rtp::Packet\<close> under the invariant of \<open>RtpPacketInv\<close>: no call faults, every
  getter returns what the bytes say and every setter keeps the invariant.
\<close>

section \<open>Bits of the header bytes\<close>

lemma x80: "(0x80 :: byte) = push_bit 7 1" by simp
lemma x7f: "(0x7f :: byte) = mask 7" by (simp add: mask_eq_decr_exp)
lemma x20: "(0x20 :: byte) = push_bit 5 1" by simp
lemma x10: "(0x10 :: byte) = push_bit 4 1" by simp
lemma x0f: "(0x0f :: byte) = mask 4" by (simp add: mask_eq_decr_exp)
lemma xf0: "(0xF0 :: byte) = push_bit 4 (mask 4)" by (simp add: mask_eq_decr_exp)

lemma flag_iff: "(b AND push_bit k 1 \<noteq> 0) = bit b k" for b :: byte
  by (simp add: bit_iff_and_push_bit_not_eq_0)

lemma marker_bits:
  fixes b :: byte
  shows "(b OR 0x80) AND 0x80 \<noteq> 0" "(b OR 0x80) AND 0x7f = b AND 0x7f"
    "(b AND 0x7f) AND 0x80 = 0" "(b AND 0x7f) AND 0x7f = b AND 0x7f"
proof -
  show "(b OR 0x80) AND 0x80 \<noteq> 0" unfolding x80 flag_iff by (simp add: bit_simps)
  show "(b OR 0x80) AND 0x7f = b AND 0x7f" unfolding x80 x7f
    by (rule bit_word_eqI) (auto simp: bit_simps simp del: push_bit_of_1)
  show "(b AND 0x7f) AND 0x80 = 0" by (simp add: and.assoc)
  show "(b AND 0x7f) AND 0x7f = b AND 0x7f" by (simp add: and.assoc)
qed

lemma type_bits:
  fixes b t :: byte
  assumes "t \<le> 0x7f"
  shows "((b AND 0x80) OR t) AND 0x80 = b AND 0x80" "((b AND 0x80) OR t) AND 0x7f = t"
proof -
  have t: "t AND 0x80 = 0" "t AND 0x7f = t" using or_80(3,4) [OF assms] by auto
  show "((b AND 0x80) OR t) AND 0x80 = b AND 0x80" by (simp add: bit.conj_disj_distrib2 t and.assoc)
  show "((b AND 0x80) OR t) AND 0x7f = t" by (simp add: bit.conj_disj_distrib2 t and.assoc)
qed

section \<open>Access through the invariant\<close>

lemma contents_nth: "Buffer_IsConsistent b \<Longrightarrow> i < rb_size b \<Longrightarrow> contents b ! i = rb_data b ! i"
  by (simp add: contents_def)

lemma data_at_inv:
  assumes "packet_inv p" "i < rb_size (rp_buffer p)"
  shows "data_at p i = Some (contents (rp_buffer p) ! i)"
  using assms by (simp add: data_at_def byte_at_def packet_inv_def buffer_defs)

lemma be_word_cong: "(\<And>i. i < B \<Longrightarrow> xs ! i = ys ! i) \<Longrightarrow> be_word B xs = be_word B ys"
  unfolding be_word_def by (intro foldl_cong) auto

lemma be_word_contents:
  "a + B \<le> rb_size b \<Longrightarrow> Buffer_IsConsistent b \<Longrightarrow> be_word B (drop a (rb_data b)) = be_word B (drop a (contents b))"
  by (rule be_word_cong) (simp add: contents_def buffer_defs)

lemma packet_inv_facts:
  assumes "packet_inv p"
  shows "Buffer_IsConsistent (rp_buffer p)" "length (rp_extension_entries p) = 14"
    "length (contents (rp_buffer p)) < 2 ^ 16" "rtp_valid (contents (rp_buffer p))"
    "hdr_agrees (contents (rp_buffer p)) p" "layout_agrees (contents (rp_buffer p)) p"
    "12 \<le> rb_size (rp_buffer p)" "csrc_end (contents (rp_buffer p)) \<le> rb_size (rp_buffer p)"
  using assms packet_inv_capacity(3) [OF assms] by (auto simp: packet_inv_def rtp_valid_def)

section \<open>Getters\<close>

lemma getters_ok:
  assumes inv: "packet_inv p"
  shows "Marker p = Some (rp_marker p)" "PayloadType p = Some (rp_payload_type p)"
    "SequenceNumber p = Some (rp_sequence_number p)" "Timestamp p = Some (rp_timestamp p)" "Ssrc p = Some (rp_ssrc p)"
proof -
  note facts = packet_inv_facts [OF inv]
  have len: "12 \<le> length (rb_data (rp_buffer p))" using facts(1,7) by (simp add: buffer_defs)
  show "Marker p = Some (rp_marker p)" "PayloadType p = Some (rp_payload_type p)"
    using facts(5,7) data_at_inv [OF inv, of 1] by (simp_all add: Marker_def PayloadType_def checked_def hdr_agrees_def)
  have "be_word 2 (drop 2 (rb_data (rp_buffer p))) = rp_sequence_number p"
    "be_word 4 (drop 4 (rb_data (rp_buffer p))) = rp_timestamp p" "be_word 4 (drop 8 (rb_data (rp_buffer p))) = rp_ssrc p"
    using facts(1,5,7) by (simp_all add: be_word_contents hdr_agrees_def)
  then show "SequenceNumber p = Some (rp_sequence_number p)" "Timestamp p = Some (rp_timestamp p)" "Ssrc p = Some (rp_ssrc p)"
    using len by (simp_all add: SequenceNumber_def Timestamp_def Ssrc_def checked_def data_from_def ReadBigEndian_eq)
qed

lemma Packet_size_ok:
  assumes "packet_inv p"
  shows "Packet_size p = Some (rb_size (rp_buffer p))" "FreeCapacity p = Some (Packet_capacity p - rb_size (rp_buffer p))"
proof -
  show size: "Packet_size p = Some (rb_size (rp_buffer p))"
    using layout_agrees_size packet_inv_facts(6) [OF assms] packet_inv_capacity(3) [OF assms]
    by (simp add: Packet_size_def Let_def)
  show "FreeCapacity p = Some (Packet_capacity p - rb_size (rp_buffer p))"
    using size packet_inv_capacity(2) [OF assms] by (simp add: FreeCapacity_def)
qed

definition csrc_list :: "byte list \<Rightarrow> uint32 list" where
  "csrc_list D = map (\<lambda>i. be_word 4 (drop (12 + 4 * i) D)) [0..<unat (D ! 0 AND 0x0f)]"

lemma read_items_words:
  "4 * n \<le> length data \<Longrightarrow> read_items (ReadBigEndian 4) 4 n data = Some (map (\<lambda>i. be_word 4 (drop (4 * i) data) :: uint32) [0..<n])"
proof (induction n arbitrary: data)
  case (Suc n)
  have "map (\<lambda>i. be_word 4 (drop (4 * i) data)) [0..<Suc n] =
      (be_word 4 data :: uint32) # map (\<lambda>i. be_word 4 (drop (4 * i) (drop 4 data))) [0..<n]"
    by (simp add: upt_conv_Cons map_Suc_upt [symmetric] add.commute del: upt_Suc)
  then show ?case using Suc by (simp add: ReadBigEndian_eq del: upt_Suc)
qed simp

lemma Csrcs_ok:
  assumes inv: "packet_inv p"
  shows "Csrcs p = Some (csrc_list (contents (rp_buffer p)))"
proof -
  note facts = packet_inv_facts [OF inv]
  let ?n = "unat (contents (rp_buffer p) ! 0 AND 0x0f)"
  have n: "12 + 4 * ?n \<le> rb_size (rp_buffer p)" using facts(8) by (simp add: csrc_end_def)
  have cap: "rb_size (rp_buffer p) \<le> length (rb_data (rp_buffer p))" using facts(1) by (simp add: buffer_defs)
  have b0: "data_at p 0 = Some (contents (rp_buffer p) ! 0)" using data_at_inv [OF inv, of 0] facts(7) by simp
  have "(be_word 4 (drop (4 * i) (data_from p 12)) :: uint32) = be_word 4 (drop (12 + 4 * i) (contents (rp_buffer p)))" if "i < ?n" for i
    using be_word_contents [of "12 + 4 * i" 4 "rp_buffer p", where ?'a = 32] facts(1) n that by (simp add: data_from_def add.commute)
  then have "map (\<lambda>i. be_word 4 (drop (4 * i) (data_from p 12)) :: uint32) [0..<?n] = csrc_list (contents (rp_buffer p))"
    by (simp add: csrc_list_def)
  moreover have "4 * ?n \<le> length (data_from p 12)" using n cap by (simp add: data_from_def)
  ultimately have "read_items (ReadBigEndian 4) 4 ?n (data_from p 12) = Some (csrc_list (contents (rp_buffer p)))"
    using read_items_words [of ?n "data_from p 12"] by simp
  moreover have "\<not> Packet_capacity p < 12 + ?n * 4" using n cap by (simp add: Packet_capacity_def Buffer_capacity_def)
  ultimately show ?thesis by (simp add: Csrcs_def b0)
qed

section \<open>Setters of the fixed header\<close>

lemma WriteAt_inside:
  assumes "Buffer_IsConsistent (rp_buffer p)" "off + length bs \<le> rb_size (rp_buffer p)"
  shows "\<exists>b. WriteAt off bs p = Some (p\<lparr>rp_buffer := b\<rparr>) \<and> Buffer_IsConsistent b \<and>
     contents b = splice_at off bs (contents (rp_buffer p)) \<and> Buffer_capacity b = Packet_capacity p"
  using Buffer_write_ok [OF assms] by (auto simp: WriteAt_def Packet_capacity_def)

lemma layout_cong:
  assumes "rtp_valid D" "length D' = length D" "D' ! 0 = D ! 0" "drop 12 D' = drop 12 D"
  shows "csrc_end D' = csrc_end D" "hdr_end D' = hdr_end D" "ext_block D' = ext_block D" "pad_len D' = pad_len D" "rtp_valid D'"
proof -
  have bits: "has_ext D' = has_ext D" "has_pad D' = has_pad D" and c: "csrc_end D' = csrc_end D"
    using assms(3) by (simp_all add: has_ext_def has_pad_def csrc_end_def)
  have d: "drop k D' = drop k D" if "12 \<le> k" for k
    using arg_cong [OF assms(4), of "drop (k - 12)"] that by simp
  have "12 \<le> csrc_end D" by (simp add: csrc_end_def)
  then have ext: "ext_profile D' = ext_profile D" "ext_bytes D' = ext_bytes D" "drop (csrc_end D + 4) D' = drop (csrc_end D + 4) D"
    by (simp_all add: ext_profile_def ext_bytes_def c d)
  have pad: "D' ! (length D - 1) = D ! (length D - 1)" if "has_pad D"
  proof -
    have "0 < unat (pad_len D)" using that assms(1) by (auto simp: rtp_valid_def unat_gt_0)
    then have "13 \<le> length D" using assms(1) by (auto simp: rtp_valid_def hdr_end_def csrc_end_def split: if_splits)
    then show ?thesis using arg_cong [OF d [of "length D - 1"], of hd] assms(2) by (simp add: hd_drop_conv_nth)
  qed
  show "csrc_end D' = csrc_end D" "hdr_end D' = hdr_end D" "ext_block D' = ext_block D" "pad_len D' = pad_len D"
    using assms(2) by (simp_all add: c hdr_end_def ext_block_def bits ext pad_len_def pad del: One_nat_def)
  then show "rtp_valid D'" using assms by (simp add: rtp_valid_def bits)
qed

text \<open>A write into bytes 1 to 11 and the fields that go with it.\<close>

lemma fixed_write:
  assumes inv: "packet_inv p" and at: "1 \<le> off" "off + length bs \<le> 12"
    and q: "hdr_agrees (splice_at off bs (contents (rp_buffer p))) q" "rp_buffer q = rp_buffer p"
      "rp_padding_size q = rp_padding_size p" "rp_payload_offset q = rp_payload_offset p" "rp_payload_size q = rp_payload_size p"
      "rp_extension_entries q = rp_extension_entries p" "rp_extensions_size q = rp_extensions_size p"
  shows "\<exists>b. WriteAt off bs q = Some (q\<lparr>rp_buffer := b\<rparr>) \<and> packet_inv (q\<lparr>rp_buffer := b\<rparr>) \<and>
     contents b = splice_at off bs (contents (rp_buffer p)) \<and> Buffer_capacity b = Packet_capacity p"
proof -
  note facts = packet_inv_facts [OF inv]
  let ?D = "contents (rp_buffer p)"
  let ?D' = "splice_at off bs ?D"
  have len: "off + length bs \<le> length ?D" "12 \<le> length ?D" using at facts(7) packet_inv_capacity(3) [OF inv] by auto
  obtain b where b: "WriteAt off bs q = Some (q\<lparr>rp_buffer := b\<rparr>)" "Buffer_IsConsistent b" "contents b = ?D'"
    "Buffer_capacity b = Packet_capacity p"
    using WriteAt_inside [of q off bs] facts(1) len(1) packet_inv_capacity(3) [OF inv] q(2)
    by (auto simp: Packet_capacity_def)
  have "length ?D' = length ?D" "?D' ! 0 = ?D ! 0" "drop 12 ?D' = drop 12 ?D"
    using len at nth_splice_at [OF len(1), of 0] by (cases ?D; auto simp: drop_splice_at_after)+
  note layout = layout_cong [OF facts(4) this]
  have "layout_agrees ?D' q"
    using facts(6) q(3-7) len(1) by (simp add: layout_agrees_def ext_agrees_def layout)
  then have "packet_inv (q\<lparr>rp_buffer := b\<rparr>)"
    using b facts(2,3) q len(1) layout(5) by (intro packet_invI) auto
  then show ?thesis using b by blast
qed

lemma fixed_fields:
  assumes "12 \<le> length D" "off + length bs \<le> 12"
  shows "\<not> (off \<le> 1 \<and> 1 < off + length bs) \<Longrightarrow> splice_at off bs D ! 1 = D ! 1"
    and "a + B \<le> off \<or> off + length bs \<le> a \<Longrightarrow> a + B \<le> 12 \<Longrightarrow> be_word B (drop a (splice_at off bs D)) = be_word B (drop a D)"
proof -
  have nth: "splice_at off bs D ! i = D ! i" if "i < 12" "i < off \<or> off + length bs \<le> i" for i
    using nth_splice_at [of off bs D i] assms that by auto
  show "\<not> (off \<le> 1 \<and> 1 < off + length bs) \<Longrightarrow> splice_at off bs D ! 1 = D ! 1"
    using nth [of 1] by auto
  assume *: "a + B \<le> off \<or> off + length bs \<le> a" "a + B \<le> 12"
  show "be_word B (drop a (splice_at off bs D)) = be_word B (drop a D)"
  proof (rule be_word_cong)
    fix i assume i: "i < B"
    have "a + i < 12" "a + i < off \<or> off + length bs \<le> a + i" using * i by auto
    then show "drop a (splice_at off bs D) ! i = drop a D ! i" using nth [of "a + i"] assms i * by simp
  qed
qed

text \<open>A setter succeeds, changes one field and, in step with it, the bytes.\<close>

definition sets_field :: "(rtp_packet \<Rightarrow> rtp_packet) \<Rightarrow> rtp_packet \<Rightarrow> rtp_packet option \<Rightarrow> bool" where
  "sets_field f p r \<longleftrightarrow> (\<exists>b. r = Some ((f p)\<lparr>rp_buffer := b\<rparr>) \<and> packet_inv ((f p)\<lparr>rp_buffer := b\<rparr>) \<and>
     Buffer_capacity b = Packet_capacity p \<and> contents b ! 0 = contents (rp_buffer p) ! 0 \<and>
     drop 12 (contents b) = drop 12 (contents (rp_buffer p)))"

lemma fixed_setter:
  assumes inv: "packet_inv p" and at: "1 \<le> off" "off + length bs \<le> 12"
    and q: "hdr_agrees (splice_at off bs (contents (rp_buffer p))) (f p)" "rp_buffer (f p) = rp_buffer p"
      "rp_padding_size (f p) = rp_padding_size p" "rp_payload_offset (f p) = rp_payload_offset p" "rp_payload_size (f p) = rp_payload_size p"
      "rp_extension_entries (f p) = rp_extension_entries p" "rp_extensions_size (f p) = rp_extensions_size p"
  shows "sets_field f p (WriteAt off bs (f p))"
proof -
  have len: "off + length bs \<le> 12" "12 \<le> length (contents (rp_buffer p))"
    using at packet_inv_facts(7) [OF inv] packet_inv_capacity(3) [OF inv] by auto
  then have "off + length bs \<le> length (contents (rp_buffer p))" "0 < length (contents (rp_buffer p))" by linarith+
  then have "splice_at off bs (contents (rp_buffer p)) ! 0 = contents (rp_buffer p) ! 0"
    using nth_splice_at [of off bs "contents (rp_buffer p)" 0] at(1) by auto
  then show ?thesis using fixed_write [OF assms] len unfolding sets_field_def
    by (auto simp: drop_splice_at_after)
qed

lemma hdr_len: "packet_inv p \<Longrightarrow> 12 \<le> length (contents (rp_buffer p))"
  using packet_inv_facts(7) packet_inv_capacity(3) by simp

lemma nth_1_splice: "2 \<le> length D \<Longrightarrow> splice_at (Suc 0) [x] D ! Suc 0 = x"
  by (simp add: nth_splice_at)

lemma SetMarker_ok:
  assumes inv: "packet_inv p"
  shows "sets_field (\<lambda>p. p\<lparr>rp_marker := m\<rparr>) p (SetMarker m p)"
proof -
  let ?D = "contents (rp_buffer p)"
  let ?x = "if m then ?D ! 1 OR 0x80 else ?D ! 1 AND 0x7f"
  note agrees = packet_inv_facts(5) [OF inv, unfolded hdr_agrees_def] and len = hdr_len [OF inv]
  have "hdr_agrees (splice_at 1 [?x] ?D) (p\<lparr>rp_marker := m\<rparr>)"
    using agrees marker_bits [of "?D ! 1"] len unfolding hdr_agrees_def
    by (auto simp: fixed_fields(2) [OF len] nth_1_splice)
  then have "sets_field (\<lambda>p. p\<lparr>rp_marker := m\<rparr>) p (WriteAt 1 [?x] (p\<lparr>rp_marker := m\<rparr>))"
    by (intro fixed_setter [OF inv]) simp_all
  then show ?thesis using data_at_inv [OF inv, of 1] packet_inv_facts(7) [OF inv]
    by (cases m) (simp_all add: SetMarker_def)
qed

lemma SetPayloadType_ok:
  assumes inv: "packet_inv p" and t: "t \<le> 0x7f"
  shows "sets_field (\<lambda>p. p\<lparr>rp_payload_type := t\<rparr>) p (SetPayloadType t p)"
proof -
  let ?D = "contents (rp_buffer p)"
  let ?x = "(?D ! 1 AND 0x80) OR t"
  note agrees = packet_inv_facts(5) [OF inv, unfolded hdr_agrees_def] and len = hdr_len [OF inv]
  have "hdr_agrees (splice_at 1 [?x] ?D) (p\<lparr>rp_payload_type := t\<rparr>)"
    using agrees type_bits [OF t, of "?D ! 1"] len unfolding hdr_agrees_def
    by (auto simp: fixed_fields(2) [OF len] nth_1_splice)
  then have "sets_field (\<lambda>p. p\<lparr>rp_payload_type := t\<rparr>) p (WriteAt 1 [?x] (p\<lparr>rp_payload_type := t\<rparr>))"
    by (intro fixed_setter [OF inv]) simp_all
  then show ?thesis using data_at_inv [OF inv, of 1] packet_inv_facts(7) [OF inv] t
    by (simp add: SetPayloadType_def not_less [symmetric])
qed

lemma be_word_written:
  assumes "off + B \<le> length D" "8 * B = LENGTH('a)"
  shows "be_word B (drop off (splice_at off (WriteBigEndian B (v :: 'a::len word)) D)) = v"
  using assms by (simp add: drop_splice_at be_word_WriteBigEndian take_bit_ge_length)

lemma word_setters_ok:
  assumes inv: "packet_inv p"
  shows "sets_field (\<lambda>p. p\<lparr>rp_sequence_number := seq\<rparr>) p (SetSequenceNumber seq p)"
    "sets_field (\<lambda>p. p\<lparr>rp_timestamp := ts\<rparr>) p (SetTimestamp ts p)"
    "sets_field (\<lambda>p. p\<lparr>rp_ssrc := ssrc\<rparr>) p (SetSsrc ssrc p)"
proof -
  note agrees = packet_inv_facts(5) [OF inv] and len = hdr_len [OF inv]
  show "sets_field (\<lambda>p. p\<lparr>rp_sequence_number := seq\<rparr>) p (SetSequenceNumber seq p)"
    unfolding SetSequenceNumber_def using agrees len
    by (intro fixed_setter [OF inv]) (simp_all add: hdr_agrees_def fixed_fields [OF len, simplified] be_word_written)
  show "sets_field (\<lambda>p. p\<lparr>rp_timestamp := ts\<rparr>) p (SetTimestamp ts p)"
    unfolding SetTimestamp_def using agrees len
    by (intro fixed_setter [OF inv]) (simp_all add: hdr_agrees_def fixed_fields [OF len, simplified] be_word_written)
  show "sets_field (\<lambda>p. p\<lparr>rp_ssrc := ssrc\<rparr>) p (SetSsrc ssrc p)"
    unfolding SetSsrc_def using agrees len
    by (intro fixed_setter [OF inv]) (simp_all add: hdr_agrees_def fixed_fields [OF len, simplified] be_word_written)
qed

section \<open>Payload and padding\<close>

definition same_headers :: "byte list \<Rightarrow> byte list \<Rightarrow> bool" where
  "same_headers D D' \<longleftrightarrow> hdr_end D \<le> length D' \<and> D' ! 0 AND 0x0f = D ! 0 AND 0x0f \<and> has_ext D' = has_ext D \<and>
     drop_bit 6 (D' ! 0) = drop_bit 6 (D ! 0) \<and> (\<forall>i. 1 \<le> i \<and> i < hdr_end D \<longrightarrow> D' ! i = D ! i)"

lemma same_headers_take:
  assumes "take (hdr_end D) D' = take (hdr_end D) D" "hdr_end D \<le> length D'"
  shows "same_headers D D'" "has_pad D' = has_pad D"
proof -
  have nth: "D' ! i = D ! i" if "i < hdr_end D" for i using assms(1) that by (metis nth_take)
  moreover have "0 < hdr_end D" by (simp add: hdr_end_def csrc_end_def)
  ultimately show "same_headers D D'" "has_pad D' = has_pad D"
    using assms(2) by (simp_all add: same_headers_def has_ext_def has_pad_def)
qed

lemma be_word_same:
  assumes "same_headers D D'" "1 \<le> a" "a + B \<le> hdr_end D" "hdr_end D \<le> length D"
  shows "be_word B (drop a D') = be_word B (drop a D)"
  using assms by (intro be_word_cong) (simp add: same_headers_def)

lemma same_headers_layout:
  assumes same: "same_headers D D'" and he: "hdr_end D \<le> length D"
  shows "csrc_end D' = csrc_end D" "hdr_end D' = hdr_end D" "ext_block D' = ext_block D" "D' ! 1 = D ! 1" "12 \<le> hdr_end D"
proof -
  show he12: "12 \<le> hdr_end D" by (simp add: hdr_end_def csrc_end_def)
  then show "D' ! 1 = D ! 1" using same by (simp add: same_headers_def)
  show c: "csrc_end D' = csrc_end D" using same by (simp add: same_headers_def csrc_end_def)
  have x: "has_ext D' = has_ext D" using same by (simp add: same_headers_def)
  have ext: "ext_profile D' = ext_profile D" "ext_bytes D' = ext_bytes D"
    "take (ext_bytes D) (drop (csrc_end D + 4) D') = take (ext_bytes D) (drop (csrc_end D + 4) D)" if "has_ext D"
  proof -
    have e: "hdr_end D = csrc_end D + 4 + ext_bytes D" using that by (simp add: hdr_end_def)
    have c12: "12 \<le> csrc_end D" by (simp add: csrc_end_def)
    show "ext_profile D' = ext_profile D" "ext_bytes D' = ext_bytes D"
      using e c12 by (simp_all add: ext_profile_def ext_bytes_def c be_word_same [OF same _ _ he])
    show "take (ext_bytes D) (drop (csrc_end D + 4) D') = take (ext_bytes D) (drop (csrc_end D + 4) D)"
      using same he e by (intro nth_equalityI) (auto simp: same_headers_def)
  qed
  then show "hdr_end D' = hdr_end D" "ext_block D' = ext_block D"
    by (auto simp: hdr_end_def ext_block_def c x)
qed

text \<open>New contents behind the same headers.\<close>

lemma resize_inv:
  assumes inv: "packet_inv p" and D: "D = contents (rp_buffer p)"
    and b: "Buffer_IsConsistent b" "same_headers D (contents b)" "length (contents b) < 2 ^ 16"
      "length (contents b) = hdr_end D + n + unat pad"
      "pad = (if has_pad (contents b) then contents b ! (length (contents b) - 1) else 0)"
      "has_pad (contents b) \<longrightarrow> pad \<noteq> 0"
  shows "packet_inv (p\<lparr>rp_payload_size := n, rp_padding_size := pad, rp_buffer := b\<rparr>)"
proof -
  note facts = packet_inv_facts [OF inv, folded D]
  have he: "hdr_end D \<le> length D"
    using layout_agrees_size [OF facts(6)] facts(6) by (simp add: layout_agrees_def)
  note layout = same_headers_layout [OF b(2) he] and word = be_word_same [OF b(2) _ _ he]
  have pad: "pad_len (contents b) = pad" using b(5) by (simp add: pad_len_def)
  let ?q = "p\<lparr>rp_payload_size := n, rp_padding_size := pad\<rparr>"
  have "csrc_end D \<le> hdr_end D" "has_ext D \<Longrightarrow> csrc_end D + 4 \<le> hdr_end D" by (simp_all add: hdr_end_def)
  then have "rtp_valid (contents b)"
    using facts(4) b(2,4,6) layout(5) by (auto simp: rtp_valid_def layout(1-4) pad same_headers_def)
  moreover have "hdr_agrees (contents b) ?q" using facts(5) layout(4,5) by (simp add: hdr_agrees_def word)
  moreover have "layout_agrees (contents b) ?q"
    using facts(6) b(4) by (simp add: layout_agrees_def ext_agrees_def layout pad)
  ultimately show ?thesis using b(1,3) facts(2) packet_invI [of b "contents b" ?q] by simp
qed

lemma pad_size_iff: "packet_inv p \<Longrightarrow> rp_padding_size p \<noteq> 0 \<longleftrightarrow> has_pad (contents (rp_buffer p))"
  by (auto simp: packet_inv_def layout_agrees_def rtp_valid_def pad_len_def)

text \<open>Changing the size of the buffer within its capacity, at least to the end of the headers.\<close>

lemma SetSize_prefix:
  assumes inv: "packet_inv p" and n: "rp_payload_offset p \<le> n" "n \<le> Packet_capacity p"
  shows "Buffer_SetSize fresh n (rp_buffer p) = (rp_buffer p)\<lparr>rb_size := n\<rparr>"
    "Buffer_IsConsistent ((rp_buffer p)\<lparr>rb_size := n\<rparr>)"
    "length (contents ((rp_buffer p)\<lparr>rb_size := n\<rparr>)) = n"
    "take (rp_payload_offset p) (contents ((rp_buffer p)\<lparr>rb_size := n\<rparr>)) = take (rp_payload_offset p) (contents (rp_buffer p))"
    "rp_payload_offset p = hdr_end (contents (rp_buffer p))" "rp_payload_offset p \<le> rb_size (rp_buffer p)"
proof -
  note facts = packet_inv_facts [OF inv]
  show "Buffer_SetSize fresh n (rp_buffer p) = (rp_buffer p)\<lparr>rb_size := n\<rparr>"
    using n(2) by (simp add: Buffer_SetSize_within Packet_capacity_def)
  show "Buffer_IsConsistent ((rp_buffer p)\<lparr>rb_size := n\<rparr>)" "length (contents ((rp_buffer p)\<lparr>rb_size := n\<rparr>)) = n"
    using n(2) by (simp_all add: buffer_defs Packet_capacity_def)
  show "rp_payload_offset p = hdr_end (contents (rp_buffer p))" "rp_payload_offset p \<le> rb_size (rp_buffer p)"
    using facts(6) layout_agrees_size [OF facts(6)] packet_inv_capacity(3) [OF inv] by (simp_all add: layout_agrees_def)
  then show "take (rp_payload_offset p) (contents ((rp_buffer p)\<lparr>rb_size := n\<rparr>)) = take (rp_payload_offset p) (contents (rp_buffer p))"
    using n by (simp add: contents_def)
qed

lemma SetSize_inv:
  assumes inv: "packet_inv p" and pad: "rp_padding_size p = 0"
    and n: "rp_payload_offset p + n \<le> Packet_capacity p" "rp_payload_offset p + n < 2 ^ 16"
  shows "packet_inv (p\<lparr>rp_payload_size := n, rp_buffer := (rp_buffer p)\<lparr>rb_size := rp_payload_offset p + n\<rparr>\<rparr>)"
proof -
  let ?D = "contents (rp_buffer p)" and ?b = "(rp_buffer p)\<lparr>rb_size := rp_payload_offset p + n\<rparr>"
  note b = SetSize_prefix [OF inv le_add1 n(1)]
  have no: "\<not> has_pad ?D" using pad_size_iff [OF inv] pad by simp
  have same: "same_headers ?D (contents ?b)" "has_pad (contents ?b) = has_pad ?D"
    using same_headers_take [of ?D "contents ?b"] b(3-5) by simp_all
  have "packet_inv (p\<lparr>rp_payload_size := n, rp_padding_size := 0, rp_buffer := ?b\<rparr>)"
    using b same no n(2) by (intro resize_inv [OF inv refl]) simp_all
  moreover have "p\<lparr>rp_padding_size := 0\<rparr> = p" using pad by (cases p) simp
  ultimately show ?thesis by (metis (no_types, lifting) rtp_packet.surjective rtp_packet.update_convs)
qed

lemma AllocatePayload_ok:
  assumes inv: "packet_inv p" and pad: "rp_padding_size p = 0"
  shows "Packet_capacity p < rp_payload_offset p + n \<Longrightarrow> AllocatePayload fresh n p = Some (None, p)"
    and "rp_payload_offset p + n \<le> Packet_capacity p \<Longrightarrow> rp_payload_offset p + n < 2 ^ 16 \<Longrightarrow>
      \<exists>q. AllocatePayload fresh n p = Some (Some (rp_payload_offset p), q) \<and> packet_inv q \<and>
        q = p\<lparr>rp_payload_size := n, rp_buffer := (rp_buffer p)\<lparr>rb_size := rp_payload_offset p + n\<rparr>\<rparr>"
proof -
  show "Packet_capacity p < rp_payload_offset p + n \<Longrightarrow> AllocatePayload fresh n p = Some (None, p)"
    using pad by (simp add: AllocatePayload_def)
  assume fits: "rp_payload_offset p + n \<le> Packet_capacity p" "rp_payload_offset p + n < 2 ^ 16"
  then show "\<exists>q. AllocatePayload fresh n p = Some (Some (rp_payload_offset p), q) \<and> packet_inv q \<and>
        q = p\<lparr>rp_payload_size := n, rp_buffer := (rp_buffer p)\<lparr>rb_size := rp_payload_offset p + n\<rparr>\<rparr>"
    using SetSize_inv [OF inv pad fits] pad
    by (simp add: AllocatePayload_def SetBufferSize_def Buffer_SetSize_within Packet_capacity_def Buffer_capacity_def Let_def)
qed

lemma SetPayloadSize_ok:
  assumes inv: "packet_inv p" and pad: "rp_padding_size p = 0" and n: "n \<le> rp_payload_size p"
  shows "\<exists>q. SetPayloadSize fresh n p = Some q \<and> packet_inv q \<and>
     q = p\<lparr>rp_payload_size := n, rp_buffer := (rp_buffer p)\<lparr>rb_size := rp_payload_offset p + n\<rparr>\<rparr>"
proof -
  note facts = packet_inv_facts [OF inv] and cap = packet_inv_capacity [OF inv]
  have "rp_payload_offset p + rp_payload_size p = rb_size (rp_buffer p)"
    using layout_agrees_size [OF facts(6)] pad cap(3) by simp
  then have fits: "rp_payload_offset p + n \<le> Packet_capacity p" "rp_payload_offset p + n < 2 ^ 16"
    "rp_payload_offset p + n \<le> rb_size (rp_buffer p)"
    using n cap(2,3) facts(3) by auto
  show ?thesis using SetSize_inv [OF inv pad fits(1,2)] pad n fits
    by (simp add: SetPayloadSize_def SetBufferSize_def Buffer_SetSize_within Packet_capacity_def contents_def)
qed

lemma pad_flag_bits:
  fixes x :: byte
  shows "(x OR 0x20) AND 0x0f = x AND 0x0f" "(x OR 0x20) AND 0x10 = x AND 0x10" "drop_bit 6 (x OR 0x20) = drop_bit 6 x"
    "(x OR 0x20) AND 0x20 \<noteq> 0"
    "(x AND NOT 0x20) AND 0x0f = x AND 0x0f" "(x AND NOT 0x20) AND 0x10 = x AND 0x10"
    "drop_bit 6 (x AND NOT 0x20) = drop_bit 6 x" "(x AND NOT 0x20) AND 0x20 = 0"
proof -
  show "(x OR 0x20) AND 0x20 \<noteq> 0" unfolding x20 flag_iff by (simp add: bit_simps)
  show "(x OR 0x20) AND 0x0f = x AND 0x0f" "(x OR 0x20) AND 0x10 = x AND 0x10" "drop_bit 6 (x OR 0x20) = drop_bit 6 x"
    "(x AND NOT 0x20) AND 0x0f = x AND 0x0f" "(x AND NOT 0x20) AND 0x10 = x AND 0x10"
    "drop_bit 6 (x AND NOT 0x20) = drop_bit 6 x" "(x AND NOT 0x20) AND 0x20 = 0"
    unfolding x20 x10 x0f
    by (rule bit_word_eqI, auto simp: bit_simps simp del: push_bit_of_1 dest: bit_imp_le_length)+
qed

lemma write_random_ok:
  assumes "r \<noteq> 0" "\<forall>i \<in> set offs. k \<le> i \<and> i < length (rb_data (rp_buffer p))"
  shows "\<exists>b r'. for_each (\<lambda>offset (p, random). do {
        (x, random) \<leftarrow> Rand_uint8 random;
        p \<leftarrow> WriteAt offset [x] p;
        Some (p, random) }) offs (p, r) = Some (p\<lparr>rp_buffer := b\<rparr>, r') \<and>
      r' \<noteq> 0 \<and> rb_size b = rb_size (rp_buffer p) \<and> length (rb_data b) = length (rb_data (rp_buffer p)) \<and>
      take k (rb_data b) = take k (rb_data (rp_buffer p))"
  using assms
proof (induction offs arbitrary: p r)
  case Nil
  then show ?case by (intro exI [of _ "rp_buffer p"] exI [of _ r]) simp
next
  case (Cons i offs)
  obtain x s where x: "Rand_uint8 r = Some (x, s)" "s \<noteq> 0" using Rand_uint8_ok [OF Cons.prems(1)] by blast
  let ?b = "(rp_buffer p)\<lparr>rb_data := splice_at i [x] (rb_data (rp_buffer p))\<rparr>"
  have i: "k \<le> i" "i < length (rb_data (rp_buffer p))" using Cons.prems(2) by auto
  have w: "WriteAt i [x] p = Some (p\<lparr>rp_buffer := ?b\<rparr>)"
    using i by (simp add: WriteAt_def Buffer_write_def Buffer_capacity_def)
  have "length (rb_data ?b) = length (rb_data (rp_buffer p))" "take k (rb_data ?b) = take k (rb_data (rp_buffer p))"
    using i by (simp_all add: take_splice_at_before)
  then show ?case using Cons.IH [of s "p\<lparr>rp_buffer := ?b\<rparr>"] Cons.prems(2) x w by simp
qed

lemma Packet_payload_contents:
  assumes "rp_payload_offset p + rp_payload_size p \<le> rb_size (rp_buffer p)"
  shows "Packet_payload p = take (rp_payload_size p) (drop (rp_payload_offset p) (contents (rp_buffer p)))"
  using assms by (simp add: Packet_payload_def data_from_def contents_def drop_take)

text \<open>The last step of \<open>SetPadding\<close>: the padding flag, on a buffer that ends with the padding.\<close>

lemma set_flag_inv:
  assumes inv: "packet_inv p" and q: "q = p\<lparr>rp_padding_size := n, rp_buffer := b\<rparr>"
    and b: "rb_size b = rp_payload_offset p + rp_payload_size p + unat n" "rb_size b \<le> length (rb_data b)" "rb_size b < 2 ^ 16"
      "take (rp_payload_offset p + rp_payload_size p) (rb_data b) = take (rp_payload_offset p + rp_payload_size p) (contents (rp_buffer p))"
      "n \<noteq> 0 \<Longrightarrow> rb_data b ! (rb_size b - 1) = n"
    and x: "x = (if n \<noteq> 0 then rb_data b ! 0 OR 0x20 else rb_data b ! 0 AND NOT 0x20)"
  shows "\<exists>c. WriteAt 0 [x] q = Some (p\<lparr>rp_padding_size := n, rp_buffer := c\<rparr>) \<and> packet_inv (p\<lparr>rp_padding_size := n, rp_buffer := c\<rparr>) \<and>
    Packet_payload (p\<lparr>rp_padding_size := n, rp_buffer := c\<rparr>) = Packet_payload p \<and> Buffer_capacity c = length (rb_data b) \<and>
    same_headers (contents (rp_buffer p)) (contents c)"
proof -
  let ?D = "contents (rp_buffer p)" and ?k = "hdr_end (contents (rp_buffer p)) + rp_payload_size p"
  let ?b = "b\<lparr>rb_data := splice_at 0 [x] (rb_data b)\<rparr>"
  note facts = packet_inv_facts [OF inv]
  have po: "rp_payload_offset p = hdr_end ?D" using facts(6) by (simp add: layout_agrees_def)
  note b = b [unfolded po]
  have k: "12 \<le> hdr_end ?D" "?k \<le> length ?D"
    using layout_agrees_size [OF facts(6)] by (auto simp: po) (simp add: hdr_end_def csrc_end_def)
  have same: "rb_data b ! i = ?D ! i" if "i < ?k" for i using b(4) that by (metis nth_take)
  have pos: "0 < rb_size b" "?k \<le> rb_size b" using b(1) k(1) by auto
  have len: "length (splice_at 0 [x] (rb_data b)) = length (rb_data b)" using b(2) pos by simp
  have nth: "contents ?b ! i = (if i = 0 then x else rb_data b ! i)" if "i < rb_size b" for i
    using that b(2) nth_splice_at [of 0 "[x]" "rb_data b" i] by (simp add: contents_def)
  have c_len: "length (contents ?b) = rb_size b" using b(2) len by (simp add: contents_def)
  have b0: "contents ?b ! 0 = x" "rb_data b ! 0 = ?D ! 0" using nth [OF pos(1)] same [of 0] k(1) by simp_all
  have headers: "same_headers ?D (contents ?b)"
    unfolding same_headers_def has_ext_def b0(1)
  proof (intro conjI allI impI)
    show "hdr_end ?D \<le> length (contents ?b)" using c_len pos(2) by simp
    show "x AND 0x0f = ?D ! 0 AND 0x0f" "(x AND 0x10 \<noteq> 0) = (?D ! 0 AND 0x10 \<noteq> 0)" "drop_bit 6 x = drop_bit 6 (?D ! 0)"
      using pad_flag_bits [of "?D ! 0"] by (simp_all add: x b0(2))
    fix i assume "1 \<le> i \<and> i < hdr_end ?D"
    then show "contents ?b ! i = ?D ! i" using nth [of i] same [of i] pos(2) by simp
  qed
  have "has_pad (contents ?b) \<longleftrightarrow> n \<noteq> 0"
    unfolding has_pad_def b0(1) using pad_flag_bits [of "rb_data b ! 0"] by (simp add: x)
  moreover have "contents ?b ! (rb_size b - 1) = n" if "n \<noteq> 0"
    using nth [of "rb_size b - 1"] b(5) [OF that] k(1) pos by auto
  moreover have "Buffer_IsConsistent ?b" using b(2) len by (simp add: buffer_defs)
  ultimately have "packet_inv (p\<lparr>rp_payload_size := rp_payload_size p, rp_padding_size := n, rp_buffer := ?b\<rparr>)"
    using b(3) c_len b(1) headers by (intro resize_inv [OF inv refl]) simp_all
  then have inv': "packet_inv (q\<lparr>rp_buffer := ?b\<rparr>)" by (simp add: q)
  have w: "WriteAt 0 [x] q = Some (q\<lparr>rp_buffer := ?b\<rparr>)"
    using b(2) pos by (simp add: WriteAt_def Buffer_write_def Buffer_capacity_def q)
  have "take (rp_payload_size p) (drop (hdr_end ?D) (contents ?b)) = take (rp_payload_size p) (drop (hdr_end ?D) ?D)"
    using nth same k pos c_len by (intro nth_equalityI) simp_all
  moreover have "?k \<le> rb_size (rp_buffer p)" using k(2) packet_inv_capacity(3) [OF inv] by simp
  ultimately have "Packet_payload (q\<lparr>rp_buffer := ?b\<rparr>) = Packet_payload p"
    using Packet_payload_contents [of p] Packet_payload_contents [of "q\<lparr>rp_buffer := ?b\<rparr>"] pos(2) by (simp add: q po)
  then show ?thesis using w inv' len headers by (intro exI [of _ ?b]) (simp add: q Buffer_capacity_def)
qed

lemma SetPadding_ok:
  assumes inv: "packet_inv p" and r: "r \<noteq> 0"
    and fits: "rp_payload_offset p + rp_payload_size p + unat n \<le> Packet_capacity p"
      "rp_payload_offset p + rp_payload_size p + unat n < 2 ^ 16"
  shows "\<exists>d r'. SetPadding fresh n r p = Some (True, p\<lparr>rp_padding_size := n, rp_buffer := d\<rparr>, r') \<and> r' \<noteq> 0 \<and>
     packet_inv (p\<lparr>rp_padding_size := n, rp_buffer := d\<rparr>) \<and>
     Packet_payload (p\<lparr>rp_padding_size := n, rp_buffer := d\<rparr>) = Packet_payload p \<and>
     Buffer_capacity d = Packet_capacity p \<and> same_headers (contents (rp_buffer p)) (contents d)"
proof -
  let ?k = "rp_payload_offset p + rp_payload_size p"
  let ?e = "?k + unat n"
  let ?b = "(rp_buffer p)\<lparr>rb_size := ?e\<rparr>"
  let ?p = "p\<lparr>rp_padding_size := n, rp_buffer := ?b\<rparr>"
  note facts = packet_inv_facts [OF inv]
  have cap: "?e \<le> length (rb_data (rp_buffer p))" using fits(1) by (simp add: Packet_capacity_def Buffer_capacity_def)
  have k: "?k \<le> rb_size (rp_buffer p)" "0 < ?k"
    using layout_agrees_size [OF facts(6)] packet_inv_capacity(3) [OF inv] facts(6)
    by (auto simp: layout_agrees_def hdr_end_def csrc_end_def)
  have take_k: "take ?k (rb_data (rp_buffer p)) = take ?k (contents (rp_buffer p))" using k by (simp add: contents_def)
  have size: "SetBufferSize fresh ?e (p\<lparr>rp_padding_size := n\<rparr>) = ?p"
    using fits(1) by (simp add: SetBufferSize_def Buffer_SetSize_within Packet_capacity_def)
  have b0: "data_at q 0 = Some (rb_data (rp_buffer q) ! 0)" if "0 < length (rb_data (rp_buffer q))" for q
    using that by (simp add: data_at_def byte_at_def)
  have ne: "0 < length (rb_data (rp_buffer p))" using k(2) cap by linarith
  show ?thesis
  proof (cases "n = 0")
    case True
    obtain d where "WriteAt 0 [rb_data ?b ! 0 AND NOT 0x20] ?p = Some (p\<lparr>rp_padding_size := n, rp_buffer := d\<rparr>)" "packet_inv (p\<lparr>rp_padding_size := n, rp_buffer := d\<rparr>)"
      "Packet_payload (p\<lparr>rp_padding_size := n, rp_buffer := d\<rparr>) = Packet_payload p" "Buffer_capacity d = length (rb_data ?b)"
      "same_headers (contents (rp_buffer p)) (contents d)"
      using set_flag_inv [OF inv refl, where n = n and b = ?b, OF _ _ _ _ _ refl] True cap fits(2) take_k by auto
    then show ?thesis using True fits(1) size r b0 [of ?p] ne
      by (intro exI [of _ d] exI [of _ r]) (simp add: SetPadding_def Let_def Packet_capacity_def Buffer_capacity_def)
  next
    case False
    then have n: "0 < unat n" "0 < n" by (simp_all add: unat_gt_0 word_gt_0)
    have "\<forall>i \<in> set [?k..<?e - 1]. ?k \<le> i \<and> i < length (rb_data (rp_buffer ?p))" using cap by auto
    then obtain c r' where loop: "for_each (\<lambda>offset (p, random). do {
        (x, random) \<leftarrow> Rand_uint8 random;
        p \<leftarrow> WriteAt offset [x] p;
        Some (p, random) }) [?k..<?e - 1] (?p, r) = Some (?p\<lparr>rp_buffer := c\<rparr>, r')" "r' \<noteq> 0" "rb_size c = ?e"
      "length (rb_data c) = length (rb_data (rp_buffer p))" "take ?k (rb_data c) = take ?k (rb_data (rp_buffer p))"
      using write_random_ok [OF r, of "[?k..<?e - 1]" ?k ?p] by auto
    let ?c = "c\<lparr>rb_data := splice_at (?e - 1) [n] (rb_data c)\<rparr>"
    let ?q = "p\<lparr>rp_padding_size := n, rp_buffer := ?c\<rparr>"
    have last: "WriteAt (?e - 1) [n] (?p\<lparr>rp_buffer := c\<rparr>) = Some ?q"
      using loop(4) cap n by (simp add: WriteAt_def Buffer_write_def Buffer_capacity_def)
    have c: "length (rb_data ?c) = length (rb_data (rp_buffer p))" using loop(4) cap n by simp
    have "take ?k (rb_data ?c) = take ?k (contents (rp_buffer p))"
      using loop(4,5) cap n take_k by (simp add: take_splice_at_before)
    moreover have "rb_data ?c ! (?e - 1) = n" using nth_splice_at [of "?e - 1" "[n]" "rb_data c" "?e - 1"] loop(4) cap n by simp
    ultimately obtain d where "WriteAt 0 [rb_data ?c ! 0 OR 0x20] ?q = Some (p\<lparr>rp_padding_size := n, rp_buffer := d\<rparr>)" "packet_inv (p\<lparr>rp_padding_size := n, rp_buffer := d\<rparr>)"
      "Packet_payload (p\<lparr>rp_padding_size := n, rp_buffer := d\<rparr>) = Packet_payload p" "Buffer_capacity d = length (rb_data ?c)"
      "same_headers (contents (rp_buffer p)) (contents d)"
      using set_flag_inv [OF inv refl, where n = n and b = ?c, OF _ _ _ _ _ refl] False cap fits(2) loop(3) c by auto
    moreover have "0 < length (rb_data ?c)" using c ne by linarith
    then have "data_at ?q 0 = Some (rb_data ?c ! 0)" using b0 [of ?q] by simp
    ultimately show ?thesis using n fits(1) size loop(1,2) last c
      by (intro exI [of _ d] exI [of _ r']) (simp add: SetPadding_def Let_def Packet_capacity_def Buffer_capacity_def)
  qed
qed

section \<open>Contributing sources and copies\<close>

lemma write_csrcs:
  assumes "off + 4 * length csrcs \<le> length (rb_data (rp_buffer p))"
  shows "for_each (\<lambda>csrc (offset, p). do {
      p \<leftarrow> WriteAt offset (WriteBigEndian 4 csrc) p;
      Some (offset + 4, p) }) csrcs (off, p) =
    Some (off + 4 * length csrcs, p\<lparr>rp_buffer := (rp_buffer p)\<lparr>rb_data :=
      splice_at off (concat (map (WriteBigEndian 4) csrcs)) (rb_data (rp_buffer p))\<rparr>\<rparr>)"
  using assms
proof (induction csrcs arbitrary: off p)
  case (Cons c cs)
  let ?b = "(rp_buffer p)\<lparr>rb_data := splice_at off (WriteBigEndian 4 c) (rb_data (rp_buffer p))\<rparr>"
  have "WriteAt off (WriteBigEndian 4 c) p = Some (p\<lparr>rp_buffer := ?b\<rparr>)"
    using Cons.prems by (simp add: WriteAt_def Buffer_write_def Buffer_capacity_def)
  moreover have "length (concat (map (WriteBigEndian 4) cs)) = 4 * length cs"
    by (rule length_concat_const) simp
  then have "splice_at (off + 4) (concat (map (WriteBigEndian 4) cs)) (rb_data ?b) =
      splice_at off (WriteBigEndian 4 c @ concat (map (WriteBigEndian 4) cs)) (rb_data (rp_buffer p))"
    using splice_at_adjacent [of off "WriteBigEndian 4 c" "concat (map (WriteBigEndian 4) cs)" "rb_data (rp_buffer p)"] Cons.prems
    by simp
  ultimately show ?case using Cons.IH [of "off + 4" "p\<lparr>rp_buffer := ?b\<rparr>"] Cons.prems by simp
qed simp

lemma csrc_bits:
  fixes x :: byte
  assumes "n \<le> 15"
  shows "unat (((x AND 0xF0) OR of_nat n) AND 0x0f) = n" "((x AND 0xF0) OR of_nat n) AND 0x10 = x AND 0x10"
    "((x AND 0xF0) OR of_nat n) AND 0x20 = x AND 0x20" "drop_bit 6 ((x AND 0xF0) OR of_nat n) = drop_bit 6 x"
proof -
  define w where "w = (of_nat n :: byte)"
  have u: "unat w = n" using assms by (simp add: w_def unat_of_nat take_bit_nat_eq_self)
  then have t: "take_bit 4 w = w"
    using assms by (simp add: word_unat_eq_iff unsigned_take_bit_eq take_bit_nat_eq_self)
  have hi: "\<not> bit w k" if "4 \<le> k" for k using t that by (metis bit_take_bit_iff not_le)
  have "((x AND 0xF0) OR w) AND 0x0f = w"
    unfolding xf0 x0f by (rule bit_word_eqI) (auto simp: bit_simps intro: ccontr dest: hi [OF leI])
  then show "unat (((x AND 0xF0) OR of_nat n) AND 0x0f) = n" using u by (simp add: w_def)
  show "((x AND 0xF0) OR of_nat n) AND 0x10 = x AND 0x10" "((x AND 0xF0) OR of_nat n) AND 0x20 = x AND 0x20"
    unfolding xf0 x10 x20 w_def [symmetric] by (rule bit_word_eqI, auto simp: bit_simps hi simp del: push_bit_of_1)+
  show "drop_bit 6 ((x AND 0xF0) OR of_nat n) = drop_bit 6 x"
    unfolding xf0 w_def [symmetric] by (rule bit_word_eqI) (auto simp: bit_simps hi dest: bit_imp_le_length)
qed

lemma CopyHeaderFrom_ok:
  assumes "allocates fresh" and inv: "packet_inv s" and pad: "rp_padding_size s = 0"
    and cap: "headers_size s \<le> Packet_capacity p"
  shows "\<exists>b. CopyHeaderFrom fresh s p = Some (s\<lparr>rp_payload_size := 0, rp_buffer := b\<rparr>) \<and>
     packet_inv (s\<lparr>rp_payload_size := 0, rp_buffer := b\<rparr>) \<and> contents b = take (headers_size s) (contents (rp_buffer s))"
proof -
  let ?D = "contents (rp_buffer s)"
  let ?bs = "take (headers_size s) (data_from s 0)"
  let ?b = "Buffer_SetData fresh ?bs (rp_buffer p)"
  note facts = packet_inv_facts [OF inv] and b = Buffer_SetData_ok [OF assms(1), where bs = ?bs and b = "rp_buffer p"]
  have po: "headers_size s = hdr_end ?D" "hdr_end ?D \<le> length ?D"
    using facts(6) layout_agrees_size [OF facts(6)] by (auto simp: layout_agrees_def headers_size_def)
  then have bs: "?bs = take (hdr_end ?D) ?D" using packet_inv_capacity(3) [OF inv]
    by (simp add: data_from_def contents_def)
  have no: "\<not> has_pad ?D" using pad_size_iff [OF inv] pad by simp
  have "same_headers ?D (contents ?b)" "has_pad (contents ?b) = has_pad ?D"
    using same_headers_take [of ?D "contents ?b"] b(2) bs po(2) by simp_all
  then have "packet_inv (s\<lparr>rp_payload_size := 0, rp_padding_size := 0, rp_buffer := ?b\<rparr>)"
    using b bs po(2) no facts(3) by (intro resize_inv [OF inv refl]) auto
  moreover have s: "s\<lparr>rp_padding_size := 0\<rparr> = s" using pad by (cases s) simp
  then have "s\<lparr>rp_payload_size := 0, rp_padding_size := 0, rp_buffer := ?b\<rparr> = s\<lparr>rp_payload_size := 0, rp_buffer := ?b\<rparr>"
    by (cases s) simp
  moreover have "CopyHeaderFrom fresh s p = Some (s\<lparr>rp_payload_size := 0, rp_padding_size := 0, rp_buffer := ?b\<rparr>)"
    using cap by (cases s; cases p) (simp add: CopyHeaderFrom_def not_less [symmetric])
  ultimately show ?thesis using b(2) bs po(1) by auto
qed

lemma csrc_list_written:
  assumes "drop 12 D = concat (map (WriteBigEndian 4) csrcs)" "unat (D ! 0 AND 0x0f) = length csrcs"
  shows "csrc_list D = csrcs"
proof -
  have "read_items (ReadBigEndian 4) 4 (length csrcs) (drop 12 D) = Some csrcs"
    unfolding assms(1) by (rule u32.read_items_exact) (simp add: list_all_iff)
  moreover have "4 * length csrcs \<le> length (drop 12 D)"
    unfolding assms(1) by (simp add: u32.length_enc_all)
  ultimately have "map (\<lambda>i. be_word 4 (drop (4 * i) (drop 12 D)) :: uint32) [0..<length csrcs] = csrcs"
    using read_items_words by (metis option.inject)
  then show ?thesis by (simp add: csrc_list_def assms(2) add.commute)
qed

lemma hdr_agrees_cong:
  assumes "hdr_agrees D p" "\<And>i. 1 \<le> i \<Longrightarrow> i < 12 \<Longrightarrow> D' ! i = D ! i" "12 \<le> length D" "12 \<le> length D'"
  shows "hdr_agrees D' p"
proof -
  have "(be_word 2 (drop 2 D') :: uint16) = be_word 2 (drop 2 D)" "(be_word 4 (drop 4 D') :: uint32) = be_word 4 (drop 4 D)"
    "(be_word 4 (drop 8 D') :: uint32) = be_word 4 (drop 8 D)"
    using assms(2-4) by (intro be_word_cong; simp)+
  then show ?thesis using assms(1) assms(2) [of 1] by (simp add: hdr_agrees_def)
qed

text \<open>The bytes after \<open>SetCsrcs\<close>: the fixed header with a new count, and the sources.\<close>

lemma csrcs_layout:
  assumes D: "rtp_valid D" "\<not> has_ext D" "\<not> has_pad D" and n: "length csrcs \<le> 15"
    and D': "D' = ((D ! 0 AND 0xF0) OR of_nat (length csrcs)) # take 11 (drop 1 D) @ concat (map (WriteBigEndian 4) csrcs)"
  shows "length D' = 12 + 4 * length csrcs" "csrc_list D' = csrcs" "\<not> has_ext D'" "\<not> has_pad D'"
    "csrc_end D' = 12 + 4 * length csrcs" "rtp_valid D'" "hdr_agrees D p \<Longrightarrow> hdr_agrees D' p"
proof -
  have len: "12 \<le> length D" using D(1) by (simp add: rtp_valid_def)
  have bs: "length (concat (map (WriteBigEndian 4) csrcs)) = 4 * length csrcs" by (rule length_concat_const) simp
  show l: "length D' = 12 + 4 * length csrcs" using len bs by (simp add: D')
  have b0: "D' ! 0 = (D ! 0 AND 0xF0) OR of_nat (length csrcs)" by (simp add: D')
  have nth: "D' ! i = D ! i" if "1 \<le> i" "i < 12" for i
    using that len by (cases i) (simp_all add: D' nth_append)
  have "drop 12 D' = concat (map (WriteBigEndian 4) csrcs)" using len by (simp add: D')
  note bits = csrc_bits [OF n, of "D ! 0", folded b0]
  then show "csrc_list D' = csrcs" using \<open>drop 12 D' = _\<close> by (intro csrc_list_written)
  show flags: "\<not> has_ext D'" "\<not> has_pad D'" and e: "csrc_end D' = 12 + 4 * length csrcs"
    using D(2,3) bits by (simp_all add: has_ext_def has_pad_def csrc_end_def)
  show "rtp_valid D'" using D(1) bits(4) l flags e by (simp add: rtp_valid_def hdr_end_def pad_len_def)
  show "hdr_agrees D p \<Longrightarrow> hdr_agrees D' p" using nth len l by (auto intro: hdr_agrees_cong)
qed

lemma buffer_fields: "b\<lparr>rb_data := d, rb_size := n\<rparr> = \<lparr>rb_size = n, rb_data = d\<rparr>" for b :: rtc_buffer
  by (cases b) simp

lemma SetCsrcs_ok:
  assumes inv: "packet_inv p" and clean: "\<not> has_ext (contents (rp_buffer p))" "rp_payload_size p = 0" "rp_padding_size p = 0"
    and n: "length csrcs \<le> 15" "12 + 4 * length csrcs \<le> Packet_capacity p"
  shows "\<exists>b. SetCsrcs fresh csrcs p = Some (p\<lparr>rp_payload_offset := 12 + 4 * length csrcs, rp_buffer := b\<rparr>) \<and>
     packet_inv (p\<lparr>rp_payload_offset := 12 + 4 * length csrcs, rp_buffer := b\<rparr>) \<and> csrc_list (contents b) = csrcs \<and>
     \<not> has_ext (contents b) \<and> Buffer_capacity b = Packet_capacity p"
proof -
  note facts = packet_inv_facts [OF inv]
  let ?D = "contents (rp_buffer p)" and ?data = "rb_data (rp_buffer p)"
    and ?k = "12 + 4 * length csrcs" and ?bs = "concat (map (WriteBigEndian 4) csrcs)"
  define x where "x = (?D ! 0 AND 0xF0) OR of_nat (length csrcs)"
  define d where "d = splice_at 12 ?bs (splice_at 0 [x] ?data)"
  let ?b = "\<lparr>rb_size = ?k, rb_data = d\<rparr>" and ?q = "p\<lparr>rp_payload_offset := ?k\<rparr>"
  have bs: "length ?bs = 4 * length csrcs" by (rule length_concat_const) simp
  have cap: "?k \<le> length ?data" using n(2) by (simp add: Packet_capacity_def Buffer_capacity_def)
  then have len: "length d = length ?data" using bs by (simp add: d_def)
  have "take ?k d = take 12 (splice_at 0 [x] ?data) @ ?bs"
    using take_splice_at [of 12 ?bs "splice_at 0 [x] ?data"] cap bs by (simp add: d_def)
  also have "take 12 (splice_at 0 [x] ?data) = x # take 11 (drop 1 ?data)" by (simp add: splice_at_def)
  also have "take 11 (drop 1 ?data) = take 11 (drop 1 ?D)" using facts(7) by (simp add: contents_def drop_take)
  finally have c: "contents ?b = x # take 11 (drop 1 ?D) @ ?bs" by (simp add: contents_def)
  have "\<not> has_pad ?D" using clean(3) pad_size_iff [OF inv] by simp
  note layout = csrcs_layout [OF facts(4) clean(1) this n(1) c [unfolded x_def]]
  have es: "rp_extensions_size p = 0"
    using facts(6) clean(1) by (auto simp: layout_agrees_def ext_agrees_def ext_block_def unat_eq_zero)
  have "hdr_agrees (contents ?b) ?q" using facts(5) layout(7) [of ?q] by (simp add: hdr_agrees_def)
  moreover have "layout_agrees (contents ?b) ?q"
    using clean facts(6) es layout(1,3-5) by (simp add: layout_agrees_def hdr_end_def pad_len_def ext_agrees_def ext_block_def)
  moreover have "Buffer_IsConsistent ?b" using len cap by (simp add: buffer_defs)
  ultimately have inv': "packet_inv (?q\<lparr>rp_buffer := ?b\<rparr>)"
    using facts(2) n(1) layout(1,6) by (intro packet_invI [OF _ refl]) simp_all
  let ?q1 = "?q\<lparr>rp_buffer := (rp_buffer p)\<lparr>rb_data := splice_at 0 [x] ?data\<rparr>\<rparr>"
  have b0: "data_at ?q 0 = Some (?D ! 0)" using data_at_inv [OF inv, of 0] facts(7) by (simp add: data_at_def)
  have first: "WriteAt 0 [x] ?q = Some ?q1"
    using cap by (simp add: WriteAt_def Buffer_write_def Buffer_capacity_def)
  have loop: "for_each (\<lambda>csrc (offset, p). do {
      p \<leftarrow> WriteAt offset (WriteBigEndian 4 csrc) p;
      Some (offset + 4, p) }) csrcs (12, ?q1) = Some (?k, ?q\<lparr>rp_buffer := (rp_buffer p)\<lparr>rb_data := d\<rparr>\<rparr>)"
    using write_csrcs [of 12 csrcs ?q1] cap by (simp add: d_def)
  have "SetCsrcs fresh csrcs p = Some (?q\<lparr>rp_buffer := ?b\<rparr>)"
    using n es clean(2,3) b0 first loop cap len
    by (simp add: SetCsrcs_def SetBufferSize_def Buffer_SetSize_within Buffer_capacity_def Let_def buffer_fields flip: x_def)
  then show ?thesis using inv' layout(2,3) len by (auto simp: Packet_capacity_def Buffer_capacity_def)
qed

end
