(* ===== verification/RtpHeaderParse.thy ===== *)
theory RtpHeaderParse
  imports RtpPacketOps
begin

text \<open>
  \<open>RtpHeaderParser\<close> and \<open>rtp::Packet\<close> read the same packets: both find the fixed header, the sources,
  the padding and the elements of the extension block at the same places. Neither reads outside the
  buffer.
\<close>

section \<open>The extension block\<close>

text \<open>The elements of the reference reader, taken by their registered type.\<close>

fun apply_elements :: "extension_map \<Rightarrow> byte list \<Rightarrow> element list \<Rightarrow> rtp_header_extension \<Rightarrow> rtp_header_extension option" where
  "apply_elements m block [] e = Some e"
| "apply_elements m block ((i, pos, len) # xs) e = do {
     t \<leftarrow> GetType (of_nat i) m;
     r \<leftarrow> (if t = kRtpExtensionNone then Some (Inr e) else ParseElement t (len - 1) (drop pos block) e);
     case r of
       Inl _ \<Rightarrow> Some e
     | Inr e \<Rightarrow> apply_elements m block xs e }"

lemma high_nibble: "drop_bit 4 (b AND 0xf0) = drop_bit 4 b" "drop_bit 4 b AND 0xf = drop_bit 4 b" for b :: byte
  unfolding xf0 x0f by (rule bit_word_eqI, auto simp: bit_simps dest: bit_imp_le_length)+

lemma ParseOneByte_Cons:
  "ParseOneByteExtensionHeader m (b # ptr) e =
     (if drop_bit 4 b = 0 then ParseOneByteExtensionHeader m ptr e
      else if drop_bit 4 b = 15 then Some e
      else if length ptr < unat (b AND 0x0f) + 1 then Some e
      else GetType (drop_bit 4 b) m \<bind> (\<lambda>t.
        (if t = kRtpExtensionNone then Some (Inr e) else ParseElement t (unat (b AND 0x0f)) ptr e) \<bind> (\<lambda>r.
        case r of Inl _ \<Rightarrow> Some e | Inr e \<Rightarrow> ParseOneByteExtensionHeader m (drop (unat (b AND 0x0f) + 1) ptr) e)))"
  by (simp only: ParseOneByteExtensionHeader.simps high_nibble(1) Let_def)

declare ParseOneByteExtensionHeader.simps(2) [simp del]

lemma ParseOneByteExtensionHeader_scan:
  "n \<le> length block \<Longrightarrow> ParseOneByteExtensionHeader m (drop n block) e = apply_elements m block (fst (scan block n)) e"
proof (induction "length block - n" arbitrary: n e rule: less_induct)
  case less
  show ?case
  proof (cases "n < length block")
    case False
    then show ?thesis by (simp add: scan_stop)
  next
    case True
    let ?b = "block ! n" and ?k = "n + 1 + element_size (block ! n)"
    have d: "drop n block = ?b # drop (n + 1) block" using True by (simp add: Cons_nth_drop_Suc)
    have ids: "drop_bit 4 ?b = 0 \<longleftrightarrow> element_id ?b = 0" "drop_bit 4 ?b = 15 \<longleftrightarrow> element_id ?b = 15" by (simp_all add: element_id_eq)
    have dd: "drop (unat (?b AND 0x0f) + 1) (drop (n + 1) block) = drop ?k block" by (simp add: add.commute add.left_commute)
    consider (pad) "element_id ?b = 0" | (stop) "element_id ?b = 15 \<or> element_id ?b \<noteq> 0 \<and> length block < ?k"
      | (element) "element_id ?b \<noteq> 0" "element_id ?b \<noteq> 15" "?k \<le> length block" by linarith
    then show ?thesis
    proof cases
      case pad
      have "scan block n = scan block (n + 1) \<or> n + 1 = length block" using scan_pad [OF _ pad] True by linarith
      then have "fst (scan block n) = fst (scan block (n + 1))" using scan_stop [of block n] scan_stop [of block "n + 1"] by auto
      then show ?thesis unfolding d using pad ids less.hyps [of "n + 1"] True by (simp add: ParseOneByte_Cons)
    next
      case stop
      then show ?thesis unfolding d using True ids scan_stop [of block n] by (auto simp: ParseOneByte_Cons)
    next
      case element
      have el: "fst (scan block n) = (element_id ?b, n + 1, element_size ?b) # fst (scan block ?k)"
        using scan_element [OF element] by simp
      have room: "\<not> length (drop (n + 1) block) < unat (?b AND 0x0f) + 1" using element(3) by simp
      have rec: "ParseOneByteExtensionHeader m (drop ?k block) e = apply_elements m block (fst (scan block ?k)) e" for e
        using less.hyps [OF _ element(3)] True by simp
      have "of_nat (element_id ?b) = drop_bit 4 ?b" by simp
      then show ?thesis unfolding d el ParseOneByte_Cons dd rec apply_elements.simps add_diff_cancel_right' using element(1,2) ids room
        by (simp del: One_nat_def)
    qed
  qed
qed

lemma ParseElement_safe:
  assumes "0 < ext_index t" "ext_index t < 7" "len + 1 \<le> length ptr"
  shows "ParseElement t len ptr e \<noteq> None"
proof -
  have rot: "ConvertCVOByteToVideoRotation b \<noteq> None" for b by (rule ConvertCVOByteToVideoRotation_total)
  have off: "ReadBigEndianSigned TYPE(32) 3 ptr \<noteq> None" if "3 \<le> length ptr"
    using ext_transmission_offset.Parse_safe [OF that] by (simp add: TransmissionOffset_Parse_def)
  show ?thesis using assms off
    by (cases t) (auto simp: ParseElement_def byte_at_def ReadBigEndian_eq Let_def split: Option.bind_splits dest: rot [THEN notE])
qed

lemma apply_elements_safe:
  assumes m: "em_inv m" and "\<forall>(i, pos, len) \<in> set xs. 1 \<le> i \<and> i \<le> 14 \<and> 1 \<le> len \<and> pos + len \<le> length block"
  shows "apply_elements m block xs e \<noteq> None"
  using assms(2)
proof (induction xs arbitrary: e)
  case (Cons x xs)
  obtain i pos len where x: "x = (i, pos, len)" by (cases x)
  have i: "1 \<le> i" "i \<le> 14" "1 \<le> len" "pos + len \<le> length block" using Cons.prems x by auto
  have u: "unat (of_nat i :: byte) = i" using i(2) by (simp add: unat_of_nat take_bit_nat_eq_self)
  have t: "GetType (of_nat i) m = Some (em_types m ! i)"
    using i(1,2) by (simp add: GetType_def word_less_nat_alt u)
  show ?case
  proof (cases "em_types m ! i = kRtpExtensionNone")
    case True
    then show ?thesis using Cons by (simp add: x t)
  next
    case False
    have "0 < ext_index (em_types m ! i)" "ext_index (em_types m ! i) < 7"
      using em_inv_types(2) [OF m _ False] i ext_index_0 [of "em_types m ! i"] False by (auto simp del: ext_index_0)
    moreover have "len - 1 + 1 \<le> length (drop pos block)" using i by simp
    ultimately obtain r where "ParseElement (em_types m ! i) (len - 1) (drop pos block) e = Some r"
      using ParseElement_safe [of "em_types m ! i" "len - 1" "drop pos block" e] by blast
    then show ?thesis using Cons by (cases r) (simp_all add: x t False)
  qed
qed simp

lemma ParseOneByteExtensionHeader_safe:
  assumes "em_inv m"
  shows "ParseOneByteExtensionHeader m block e = apply_elements m block (fst (scan block 0)) e"
    "ParseOneByteExtensionHeader m block e \<noteq> None"
proof -
  show eq: "ParseOneByteExtensionHeader m block e = apply_elements m block (fst (scan block 0)) e"
    using ParseOneByteExtensionHeader_scan [of 0 block m e] by simp
  have p: "path block 0 (snd (scan block 0)) = Some (fst (scan block 0))" using path_scan by blast
  have "snd (scan block 0) \<le> length block" using scan_end [of 0 block] by auto
  then have "\<forall>(i, pos, len) \<in> set (fst (scan block 0)). 1 \<le> i \<and> i \<le> 14 \<and> 1 \<le> len \<and> pos + len \<le> length block"
    using path_elements [OF p] by fastforce
  then show "ParseOneByteExtensionHeader m block e \<noteq> None" unfolding eq by (rule apply_elements_safe [OF assms])
qed

section \<open>The header\<close>

text \<open>What the parser accepts: a padding length of zero is not an error here.\<close>

definition header_valid :: "byte list \<Rightarrow> bool" where
  "header_valid D \<longleftrightarrow> 12 \<le> length D \<and> drop_bit 6 (D ! 0) = 2 \<and> csrc_end D \<le> length D \<and>
     (has_ext D \<longrightarrow> csrc_end D + 4 \<le> length D) \<and> hdr_end D + unat (pad_len D) \<le> length D"

lemma rtp_valid_header: "rtp_valid D \<longleftrightarrow> header_valid D \<and> (has_pad D \<longrightarrow> pad_len D \<noteq> 0)"
  by (auto simp: rtp_valid_def header_valid_def)

lemma sequence_number_word:
  assumes "4 \<le> length D"
  shows "push_bit 8 (ucast (D ! 2)) + ucast (D ! 3) = (be_word 2 (drop 2 D) :: uint16)"
proof -
  have "push_bit 8 (ucast (D ! 2)) + ucast (D ! 3) = (push_bit 8 (ucast (D ! 2)) OR ucast (D ! 3) :: uint16)"
    by (rule disjunctive_add) (auto simp: bit_simps dest: bit_imp_le_length)
  then show ?thesis using assms by (simp add: be_word_def numeral_eq_Suc)
qed

text \<open>The header that the bytes determine, with \<open>e\<close> for what the extension block says.\<close>

definition header_of :: "byte list \<Rightarrow> rtp_header_extension \<Rightarrow> rtp_header \<Rightarrow> rtp_header" where
  "header_of D e h = h\<lparr>markerBit := D ! 1 AND 0x80 \<noteq> 0, payloadType := D ! 1 AND 0x7f, sequenceNumber := be_word 2 (drop 2 D),
     timestamp := be_word 4 (drop 4 D), hdr_ssrc := be_word 4 (drop 8 D), numCSRCs := D ! 0 AND 0x0f,
     paddingLength := unat (pad_len D), arrOfCSRCs := splice_at 0 (csrc_list D) (arrOfCSRCs h),
     hdr_extension := e, headerLength := hdr_end D\<rparr>"

lemma HeaderParser_Parse_eq:
  assumes m: "em_inv m"
  shows "if header_valid D
    then \<exists>e. apply_elements m (ext_block D) (fst (scan (ext_block D) 0)) (clear_extension (hdr_extension h)) = Some e \<and>
      HeaderParser_Parse D (Some m) h = Some (True, header_of D e h)
    else \<exists>h'. HeaderParser_Parse D (Some m) h = Some (False, h')"
proof (cases "12 \<le> length D")
  case False
  then show ?thesis by (simp add: HeaderParser_Parse_def header_valid_def)
next
  case len: True
  have bits: "(D ! 0 AND 0x10 \<noteq> 0) = has_ext D" "(D ! 0 AND 0x20 \<noteq> 0) = has_pad D" "12 + unat (D ! 0 AND 0x0f) * 4 = csrc_end D"
    by (simp_all add: has_ext_def has_pad_def csrc_end_def)
  have reads: "byte_at D 0 = Some (D ! 0)" "byte_at D 1 = Some (D ! 1)" "byte_at D 2 = Some (D ! 2)" "byte_at D 3 = Some (D ! 3)"
    "byte_at D (length D - 1) = Some (D ! (length D - 1))"
    "ReadBigEndian 4 (drop 4 D) = Some (be_word 4 (drop 4 D) :: uint32)" "ReadBigEndian 4 (drop 8 D) = Some (be_word 4 (drop 8 D) :: uint32)"
    using len by (auto simp: byte_at_def ReadBigEndian_eq)
  have padding: "(if has_pad D then byte_at D (length D - 1) else Some 0) = Some (pad_len D)" using reads(5) by (simp add: pad_len_def)
  have seq: "push_bit 8 (ucast (D ! 2)) + ucast (D ! 3) = (be_word 2 (drop 2 D) :: uint16)" by (rule sequence_number_word) (use len in simp)
  note parse = HeaderParser_Parse_def reads bits padding seq Let_def
  show ?thesis
  proof (cases "drop_bit 6 (D ! 0) = 2 \<and> csrc_end D \<le> length D")
    case False
    then have "\<exists>h'. HeaderParser_Parse D (Some m) h = Some (False, h')" using len by (auto simp: parse simp del: One_nat_def)
    then show ?thesis using False by (auto simp: header_valid_def)
  next
    case start: True
    have csrcs: "read_items (ReadBigEndian 4) 4 (unat (D ! 0 AND 0x0f)) (drop 12 D) = Some (csrc_list D)"
    proof -
      have "4 * unat (D ! 0 AND 0x0f) \<le> length (drop 12 D)" using start unfolding csrc_end_def length_drop by linarith
      then show ?thesis using read_items_words [of "unat (D ! 0 AND 0x0f)" "drop 12 D"] by (simp add: csrc_list_def add.commute)
    qed
    note parse = parse csrcs
    show ?thesis
    proof (cases "has_ext D")
      case False
      then show ?thesis using start len
        by (simp add: parse header_valid_def header_of_def hdr_end_def ext_block_def scan_stop del: One_nat_def)
    next
      case ext: True
      define ptr where "ptr = drop (csrc_end D) D"
      have lp: "length ptr = length D - csrc_end D" by (simp add: ptr_def)
      have words: "ReadBigEndian 2 ptr = Some (ext_profile D)"
        "ReadBigEndian 2 (drop 2 ptr) = Some (be_word 2 (drop (csrc_end D + 2) D) :: uint16)"
        "unat (be_word 2 (drop (csrc_end D + 2) D) :: uint16) * 4 = ext_bytes D" if "4 \<le> length ptr"
        using that by (simp_all add: ReadBigEndian_eq ext_profile_def ext_bytes_def ptr_def add.commute)
      note parse = parse ptr_def [symmetric]
      show ?thesis
      proof (cases "csrc_end D + 4 + ext_bytes D \<le> length D")
        case False
        have "\<exists>h'. HeaderParser_Parse D (Some m) h = Some (False, h')"
        proof (cases "length ptr < 4")
          case True
          then show ?thesis using start len ext by (simp add: parse del: One_nat_def)
        next
          case short: False
          then have "length ptr < 4 + ext_bytes D" using False lp start by linarith
          then show ?thesis using start len ext short words by (simp add: parse del: One_nat_def drop_drop)
        qed
        then show ?thesis using False ext by (auto simp: header_valid_def hdr_end_def)
      next
        case True
        then have room: "4 \<le> length ptr" "\<not> length ptr < 4 + ext_bytes D" using lp by linarith+
        have block: "ext_block D = (if ext_profile D = kOneByteExtensionId then take (ext_bytes D) (drop 4 ptr) else [])"
          using ext by (simp add: ext_block_def ptr_def add.commute)
        obtain e where e: "(if ext_profile D = kOneByteExtensionId
            then ParseOneByteExtensionHeader m (take (ext_bytes D) (drop 4 ptr)) (clear_extension (hdr_extension h))
            else Some (clear_extension (hdr_extension h))) = Some e"
          "apply_elements m (ext_block D) (fst (scan (ext_block D) 0)) (clear_extension (hdr_extension h)) = Some e"
          using ParseOneByteExtensionHeader_safe [OF m, of "ext_block D" "clear_extension (hdr_extension h)"]
          by (auto simp: block scan_stop split: if_splits)
        have he: "hdr_end D = csrc_end D + 4 + ext_bytes D" using ext by (simp add: hdr_end_def)
        have "HeaderParser_Parse D (Some m) h = Some (hdr_end D + unat (pad_len D) \<le> length D, header_of D e h)"
          using start len ext room e(1) words [OF room(1)]
          by (cases "ext_profile D = kOneByteExtensionId") (simp_all add: parse header_of_def he del: One_nat_def drop_drop)
        moreover have "header_valid D \<longleftrightarrow> hdr_end D + unat (pad_len D) \<le> length D"
          using start len True by (auto simp: header_valid_def)
        ultimately show ?thesis using e(2) by auto
      qed
    qed
  qed
qed

text \<open>A header object that is used again keeps the flag of an old transport sequence number.\<close>

lemma HeaderParser_keeps_sequence_flag:
  assumes "em_inv m" "header_valid D" "\<not> has_ext D"
  shows "\<exists>h'. HeaderParser_Parse D (Some m) h = Some (True, h') \<and>
    hasTransportSequenceNumber (hdr_extension h') = hasTransportSequenceNumber (hdr_extension h) \<and>
    hasAbsoluteSendTime (hdr_extension h') = False"
  using HeaderParser_Parse_eq [OF assms(1), of D h] assms(2,3)
  by (auto simp: ext_block_def scan_stop header_of_def clear_extension_def)

text \<open>A playout delay with a minimum above the maximum is rejected by one parser and taken over by the other.\<close>

lemma PlayoutDelay_parsers_differ:
  "PlayoutDelayLimits_Parse [0, 0x20, 1] = Some None"
  "map_option (map_sum id playoutDelay) (ParseElement kRtpExtensionPlayoutDelay 2 [0, 0x20, 1] RTPHeaderExtension_new) =
     Some (Inr \<lparr>min_ms = 20, max_ms = 10\<rparr>)"
  by code_simp+



end
