(* ===== verification/RtpPacketExt.thy ===== *)
theory RtpPacketExt
  imports RtpPacketOps
begin

text \<open>
  Header extensions of \<open>rtp::Packet\<close>: \<open>AllocateExtension\<close> appends an element to the extension block
  and keeps the invariant, a value that is set is the value that is read, and setting one extension
  leaves the others alone.
\<close>

section \<open>Bits\<close>

lemma ext_flag_bits:
  fixes b :: byte
  shows "(b OR 0x10) AND 0x0f = b AND 0x0f" "drop_bit 6 (b OR 0x10) = drop_bit 6 b"
    "(b OR 0x10) AND 0x20 = b AND 0x20" "(b OR 0x10) AND 0x10 \<noteq> 0" "b AND 0x10 \<noteq> 0 \<Longrightarrow> b OR 0x10 = b"
proof -
  show "(b OR 0x10) AND 0x10 \<noteq> 0" unfolding x10 flag_iff by (simp add: bit_simps)
  show "(b OR 0x10) AND 0x0f = b AND 0x0f" "(b OR 0x10) AND 0x20 = b AND 0x20" "drop_bit 6 (b OR 0x10) = drop_bit 6 b"
    unfolding x20 x10 x0f
    by (rule bit_word_eqI, auto simp: bit_simps simp del: push_bit_of_1 dest: bit_imp_le_length)+
  show "b OR 0x10 = b" if "b AND 0x10 \<noteq> 0"
  proof (rule bit_word_eqI)
    fix n assume "n < LENGTH(8)"
    have "bit b 4" using that unfolding x10 flag_iff .
    then show "bit (b OR 0x10) n = bit b n" unfolding x10 by (auto simp: bit_simps simp del: push_bit_of_1)
  qed
qed

lemma element_header:
  fixes len :: byte
  assumes "i < 14" "0 < len" "len \<le> 16"
  shows "element_id (push_bit 4 (of_nat (i + 1)) OR (len - 1)) = i + 1"
    "element_size (push_bit 4 (of_nat (i + 1)) OR (len - 1)) = unat len"
proof -
  define x :: byte where "x = of_nat (i + 1)"
  define y :: byte where "y = len - 1"
  have ux: "unat x = i + 1" using assms(1) unfolding x_def unat_of_nat by (simp add: take_bit_nat_eq_self)
  have uy: "unat y = unat len - 1" using assms(2) unfolding y_def by (simp add: unat_minus_one)
  have l: "1 \<le> unat len" "unat len \<le> 16" using assms(2,3) by (auto simp: word_le_nat_alt word_less_nat_alt)
  have tx: "take_bit 4 x = x"
    using ux assms(1) by (simp add: word_unat_eq_iff unsigned_take_bit_eq take_bit_nat_eq_self)
  have ty: "take_bit 4 y = y"
    using uy l by (simp add: word_unat_eq_iff unsigned_take_bit_eq take_bit_nat_eq_self)
  have by4: "\<not> bit y n" if "4 \<le> n" for n using ty that by (metis bit_take_bit_iff not_le)
  have "drop_bit 4 (push_bit 4 x OR y) = take_bit 4 x"
    by (rule bit_word_eqI) (auto simp: bit_simps by4 dest: bit_imp_le_length)
  then have d: "drop_bit 4 (push_bit 4 x OR y) = x" by (simp only: tx)
  have m: "(push_bit 4 x OR y) AND 0xf = y"
  proof -
    have "(push_bit 4 x OR y) AND mask 4 = take_bit 4 y"
      by (rule bit_word_eqI) (auto simp: bit_simps)
    then show ?thesis by (simp only: ty x0f)
  qed
  show "element_id (push_bit 4 (of_nat (i + 1)) OR (len - 1)) = i + 1"
    unfolding x_def [symmetric] y_def [symmetric] d by (rule ux)
  show "element_size (push_bit 4 (of_nat (i + 1)) OR (len - 1)) = unat len"
    unfolding x_def [symmetric] y_def [symmetric] m uy using l by simp
qed

section \<open>Appending an element\<close>

text \<open>The bytes \<open>D'\<close> are those of \<open>D\<close> with an element of id \<open>i + 1\<close> and \<open>n\<close> bytes behind position \<open>es\<close> of the block.\<close>

definition element_appended :: "byte list \<Rightarrow> nat \<Rightarrow> nat \<Rightarrow> nat \<Rightarrow> byte list \<Rightarrow> bool" where
  "element_appended D es i n D' \<longleftrightarrow>
     (let c = csrc_end D; w = (es + 1 + n + 3) div 4 in
      length D' = c + 4 + 4 * w \<and> D' ! 0 = D ! 0 OR 0x10 \<and> (\<forall>j. 1 \<le> j \<and> j < c \<longrightarrow> D' ! j = D ! j) \<and>
      be_word 2 (drop c D') = kOneByteExtensionId \<and> be_word 2 (drop (c + 2) D') = (of_nat w :: uint16) \<and>
      (\<forall>j < es. D' ! (c + 4 + j) = D ! (c + 4 + j)) \<and>
      element_id (D' ! (c + 4 + es)) = i + 1 \<and> element_size (D' ! (c + 4 + es)) = n \<and>
      (\<forall>j. c + 4 + es + 1 + n \<le> j \<and> j < length D' \<longrightarrow> D' ! j = 0))"

lemma ceil4: "n \<le> 4 * ((n + 3) div 4)" "4 * ((n + 3) div 4) < n + 4" for n :: nat
  by presburger+

lemma appended_layout:
  assumes app: "element_appended D es i n D'" and D: "rtp_valid D" "\<not> has_pad D" "es \<noteq> 0 \<or> \<not> has_ext D"
    and block: "path (ext_block D) 0 es = Some xs" "es \<le> length (ext_block D)" and small: "length D' < 2 ^ 16" and i: "i < 14"
  shows "csrc_end D' = csrc_end D" "hdr_end D' = length D'" "\<not> has_pad D'" "rtp_valid D'"
    "path (ext_block D') 0 (es + 1 + n) = Some (xs @ [(i + 1, es + 1, n)])"
    "es + 1 + n \<le> length (ext_block D')" "fst (scan (ext_block D') (es + 1 + n)) = []" "has_ext D'"
proof -
  define c where "c = csrc_end D"
  define w where "w = (es + 1 + n + 3) div 4"
  have len: "length D' = c + 4 + 4 * w" and b0: "D' ! 0 = D ! 0 OR 0x10"
    and profile: "be_word 2 (drop c D') = kOneByteExtensionId" and words: "be_word 2 (drop (c + 2) D') = (of_nat w :: uint16)"
    and old: "\<And>j. j < es \<Longrightarrow> D' ! (c + 4 + j) = D ! (c + 4 + j)"
    and new: "element_id (D' ! (c + 4 + es)) = i + 1" "element_size (D' ! (c + 4 + es)) = n"
    and zeros: "\<And>j. c + 4 + es + 1 + n \<le> j \<Longrightarrow> j < length D' \<Longrightarrow> D' ! j = 0"
    using app by (auto simp: element_appended_def Let_def c_def w_def)
  show c': "csrc_end D' = csrc_end D" using b0 by (simp add: csrc_end_def ext_flag_bits)
  show ext': "has_ext D'" and pad': "\<not> has_pad D'"
    using b0 D(2) by (simp_all add: has_ext_def has_pad_def ext_flag_bits)
  have ww: "w < 2 ^ 16" and sz: "es + 1 + n \<le> 4 * w" using len small ceil4(1) [of "es + 1 + n"] by (auto simp: w_def)
  have bytes': "ext_bytes D' = 4 * w" using words unat16 [OF ww] by (simp add: ext_bytes_def c' c_def [symmetric])
  show he': "hdr_end D' = length D'" using ext' bytes' len by (simp add: hdr_end_def c' c_def)
  have blk': "ext_block D' = drop (c + 4) D'"
    using ext' bytes' len profile by (simp add: ext_block_def ext_profile_def c' c_def)
  have lb: "length (ext_block D') = 4 * w" using len by (simp add: blk')
  have "12 \<le> c" by (simp add: c_def csrc_end_def)
  then show "rtp_valid D'" using D(1) b0 len ext' pad' he'
    by (simp add: rtp_valid_def c' c_def [symmetric] ext_flag_bits pad_len_def)
  have same: "take es (ext_block D') = take es (ext_block D)"
  proof (cases "es = 0")
    case False
    then have bd: "has_ext D" "ext_block D = take (ext_bytes D) (drop (c + 4) D)"
      using block(2) by (auto simp: ext_block_def c_def split: if_splits)
    show ?thesis
      using old block(2) sz lb bd(2) by (intro nth_equalityI) (auto simp: blk')
  qed simp
  have to_es: "path (ext_block D') 0 es = Some xs"
    using block path_cong [OF same, of 0] sz lb by simp
  have hd: "ext_block D' ! es = D' ! (c + 4 + es)" using sz lb len by (simp add: blk')
  have "element_id (ext_block D' ! es) \<noteq> 0" "element_id (ext_block D' ! es) \<noteq> 15" unfolding hd new using i by simp_all
  from path_snoc [OF to_es this, unfolded hd new]
  show "path (ext_block D') 0 (es + 1 + n) = Some (xs @ [(i + 1, es + 1, n)])" .
  show le: "es + 1 + n \<le> length (ext_block D')" using sz lb by simp
  have "drop (es + 1 + n) (ext_block D') = replicate (4 * w - (es + 1 + n)) 0"
    using zeros len sz by (intro nth_equalityI) (auto simp: blk')
  then show "fst (scan (ext_block D') (es + 1 + n)) = []" by (rule scan_zeros [OF le])
qed

lemma WriteAt_capacity:
  "off + length bs \<le> Packet_capacity p \<Longrightarrow>
    WriteAt off bs p = Some (p\<lparr>rp_buffer := (rp_buffer p)\<lparr>rb_data := splice_at off bs (rb_data (rp_buffer p))\<rparr>\<rparr>)"
  by (simp add: WriteAt_def Buffer_write_def Packet_capacity_def)

text \<open>The extension bit and the profile, in place before the first element.\<close>

definition ext_started :: "byte list \<Rightarrow> nat \<Rightarrow> byte list \<Rightarrow> bool" where
  "ext_started D es B \<longleftrightarrow> B ! 0 = D ! 0 OR 0x10 \<and> (\<forall>j. 1 \<le> j \<and> j < csrc_end D \<longrightarrow> B ! j = D ! j) \<and>
     be_word 2 (drop (csrc_end D) B) = kOneByteExtensionId \<and>
     (\<forall>j < es. B ! (csrc_end D + 4 + j) = D ! (csrc_end D + 4 + j))"

lemma element_written:
  assumes start: "ext_started D es B" and fits: "csrc_end D + 4 + 4 * w \<le> length B" and w: "w = (es + 1 + n + 3) div 4" "w < 2 ^ 16"
    and h: "element_id h = i + 1" "element_size h = n"
    and B': "B' = splice_at (csrc_end D + 4 + (es + 1 + n)) (replicate (4 * w - (es + 1 + n)) 0)
       (splice_at (csrc_end D + 2) (WriteBigEndian 2 (of_nat w :: uint16)) (splice_at (csrc_end D + 4 + es) [h] B))"
  shows "element_appended D es i n (take (csrc_end D + 4 + 4 * w) B')" "length B' = length B"
proof -
  define c where "c = csrc_end D"
  have c12: "12 \<le> c" by (simp add: c_def csrc_end_def)
  have sz: "es + 1 + n \<le> 4 * w" using ceil4(1) [of "es + 1 + n"] w(1) by simp
  have wb: "length (WriteBigEndian 2 (of_nat w :: uint16)) = 2" by simp
  have len: "c + 4 + 4 * w \<le> length B" using fits by (simp add: c_def)
  show len': "length B' = length B" using len sz by (simp add: B' c_def [symmetric])
  have nth: "B' ! j = (if c + 4 + (es + 1 + n) \<le> j then 0 else if j = c + 2 \<or> j = c + 3
       then WriteBigEndian 2 (of_nat w :: uint16) ! (j - (c + 2)) else if j = c + 4 + es then h else B ! j)"
    if "j < c + 4 + 4 * w" for j
    using that len sz by (auto simp: B' c_def [symmetric] nth_splice_at)
  have "be_word 2 (drop c (take (c + 4 + 4 * w) B')) = (be_word 2 (drop c B) :: uint16)"
    using len len' nth by (intro be_word_cong) simp
  moreover have "be_word 2 (drop (c + 2) (take (c + 4 + 4 * w) B')) = (be_word 2 (WriteBigEndian 2 (of_nat w :: uint16)) :: uint16)"
    using len len' nth by (intro be_word_cong) (auto simp: less_2_cases_iff)
  moreover have "be_word 2 (WriteBigEndian 2 (of_nat w :: uint16)) = (of_nat w :: uint16)"
    by (simp add: be_word_WriteBigEndian [of 2 _ "[]", simplified] take_bit_ge_length)
  ultimately show "element_appended D es i n (take (csrc_end D + 4 + 4 * w) B')"
    using start h len len' nth c12 sz unfolding element_appended_def ext_started_def Let_def w(1) [symmetric] c_def [symmetric]
    by simp
qed

text \<open>What a call needs to append an element for the registered type at index \<open>i\<close>.\<close>

definition can_append :: "rtp_extension_type \<Rightarrow> nat \<Rightarrow> byte \<Rightarrow> rtp_packet \<Rightarrow> bool" where
  "can_append t i len p \<longleftrightarrow> packet_inv p \<and> index_of (\<lambda>x. xe_type x = t) (rp_extension_entries p) = Some i \<and>
     xe_length (rp_extension_entries p ! i) = 0 \<and> rp_payload_size p = 0 \<and> rp_padding_size p = 0 \<and> 0 < len \<and> len \<le> 16 \<and>
     (rp_extensions_size p \<noteq> 0 \<or> \<not> has_ext (contents (rp_buffer p))) \<and> Packet_capacity p < 2 ^ 16 \<and>
     csrc_end (contents (rp_buffer p)) + 4 + 4 * ((unat (rp_extensions_size p) + 1 + unat len + 3) div 4) \<le> Packet_capacity p"

lemma index_of_Some: "index_of P xs = Some i \<Longrightarrow> i < length xs \<and> P (xs ! i) \<and> (\<forall>j < i. \<not> P (xs ! j))"
proof (induction xs arbitrary: i)
  case (Cons x xs)
  show ?case
  proof (cases "P x")
    case False
    then obtain k where "i = Suc k" "index_of P xs = Some k" using Cons.prems by auto
    then show ?thesis using Cons.IH [of k] False by (auto simp: nth_Cons split: nat.splits)
  qed (use Cons.prems in auto)
qed simp

lemma ext_start:
  assumes inv: "packet_inv p" and D: "D = contents (rp_buffer p)" "B = rb_data (rp_buffer p)"
    and ext: "rp_extensions_size p \<noteq> 0 \<or> \<not> has_ext D" and fits: "csrc_end D + 4 \<le> length B"
  shows "ext_started D (unat (rp_extensions_size p)) (if unat (rp_extensions_size p) = 0
      then splice_at (csrc_end D) (WriteBigEndian 2 kOneByteExtensionId) (splice_at 0 [D ! 0 OR 0x10] B) else B)"
proof -
  note facts = packet_inv_facts [OF inv, folded D(1)]
  have c12: "12 \<le> csrc_end D" by (simp add: csrc_end_def)
  have nth: "B ! j = D ! j" if "j < length D" for j using that by (simp add: D contents_def)
  have cl: "csrc_end D \<le> length D" using facts(4) by (simp add: rtp_valid_def)
  show ?thesis
  proof (cases "rp_extensions_size p = 0")
    case True
    let ?C = "splice_at 0 [D ! 0 OR 0x10] B"
    have "length ?C = length B" using fits by simp
    then have "be_word 2 (drop (csrc_end D) (splice_at (csrc_end D) (WriteBigEndian 2 kOneByteExtensionId) ?C)) = kOneByteExtensionId"
      using fits by (simp add: be_word_written)
    moreover have "splice_at (csrc_end D) (WriteBigEndian 2 kOneByteExtensionId) ?C ! j = (if j = 0 then D ! 0 OR 0x10 else D ! j)"
      if "j < csrc_end D" for j
    proof -
      have "0 < length B" using fits by linarith
      then show ?thesis using nth [of j] that fits cl by (subst nth_splice_at; simp add: nth_splice_at)
    qed
    moreover have "0 < csrc_end D" using c12 by simp
    ultimately show ?thesis using True by (simp add: ext_started_def)
  next
    case False
    then have es: "unat (rp_extensions_size p) \<noteq> 0" by (simp add: unat_eq_zero)
    have "unat (rp_extensions_size p) \<le> length (ext_block D)" using facts(6) by (auto simp: layout_agrees_def ext_agrees_def)
    then have e: "has_ext D" "ext_profile D = kOneByteExtensionId" "unat (rp_extensions_size p) \<le> ext_bytes D"
      using es by (auto simp: ext_block_def split: if_splits)
    have he: "csrc_end D + 4 + ext_bytes D \<le> length D" using facts(4) e(1) by (simp add: rtp_valid_def hdr_end_def)
    have "be_word 2 (drop (csrc_end D) B) = ext_profile D"
      unfolding ext_profile_def using he nth D fits by (intro be_word_cong) simp
    moreover have "D ! 0 OR 0x10 = D ! 0" using e(1) by (intro ext_flag_bits(5)) (simp add: has_ext_def)
    moreover have "B ! 0 = D ! 0" by (rule nth) (use he c12 in linarith)
    ultimately show ?thesis using es e he nth cl by (simp add: ext_started_def)
  qed
qed

lemma AllocateExtension_run:
  assumes can: "can_append t i len p"
    and D: "D = contents (rp_buffer p)" and es: "es = unat (rp_extensions_size p)" and w: "w = (es + 1 + unat len + 3) div 4"
  shows "\<exists>b. AllocateExtension fresh t len p = Some (Some (of_nat (csrc_end D + 4 + (es + 1))),
      p\<lparr>rp_extension_entries := (rp_extension_entries p)[i := (rp_extension_entries p ! i)\<lparr>xe_length := len, xe_offset := of_nat (csrc_end D + 4 + (es + 1))\<rparr>],
        rp_extensions_size := of_nat (es + 1 + unat len), rp_payload_offset := csrc_end D + 4 + 4 * w, rp_buffer := b\<rparr>) \<and>
    Buffer_IsConsistent b \<and> Buffer_capacity b = Packet_capacity p \<and> element_appended D es i (unat len) (contents b)"
proof -
  define c where "c = csrc_end D"
  define B where "B = rb_data (rp_buffer p)"
  define C where "C = (if es = 0 then splice_at c (WriteBigEndian 2 kOneByteExtensionId) (splice_at 0 [D ! 0 OR 0x10] B) else B)"
  define h where "h = (push_bit 4 (of_nat (i + 1)) OR (len - 1) :: byte)"
  define E where "E = splice_at (c + 4 + (es + 1 + unat len)) (replicate (4 * w - (es + 1 + unat len)) 0)
       (splice_at (c + 2) (WriteBigEndian 2 (of_nat w :: uint16)) (splice_at (c + 4 + es) [h] C))"

  have inv: "packet_inv p" and idx: "index_of (\<lambda>x. xe_type x = t) (rp_extension_entries p) = Some i"
    and unset: "xe_length (rp_extension_entries p ! i) = 0" "rp_payload_size p = 0" "rp_padding_size p = 0"
    and len: "0 < len" "len \<le> 16" and ext: "rp_extensions_size p \<noteq> 0 \<or> \<not> has_ext D"
    and cap: "Packet_capacity p < 2 ^ 16" "c + 4 + 4 * w \<le> Packet_capacity p"
    using can unfolding can_append_def w c_def D es by auto
  have lB: "length B = Packet_capacity p" by (simp add: B_def Packet_capacity_def Buffer_capacity_def)
  have sz: "es + 1 + unat len \<le> 4 * w" using ceil4(1) [of "es + 1 + unat len"] w by simp
  have w16: "w < 2 ^ 16" "es + 1 + unat len < 2 ^ 16" using cap sz by auto
  have i: "i < 14" using index_of_Some [OF idx] packet_inv_facts(2) [OF inv] by simp
  have started: "ext_started D es C"
    unfolding C_def c_def es by (rule ext_start [OF inv D B_def ext]) (use cap lB c_def in linarith)
  have lC: "length C = length B" using cap lB by (simp add: C_def)
  have app: "element_appended D es i (unat len) (take (c + 4 + 4 * w) E)" "length E = length C"
    using element_written [OF started, of w "unat len" h i E] element_header [OF i len] cap lB lC w w16
    by (simp_all add: E_def c_def h_def)
  have b0: "data_at p 0 = Some (D ! 0)" using data_at_inv [OF inv, of 0] packet_inv_facts(7) [OF inv] by (simp add: D)
  have n: "kFixedHeaderSize + unat (D ! 0 AND 0x0F) * 4 = c" by (simp add: c_def csrc_end_def)
  have po: "es = 0 \<Longrightarrow> rp_payload_offset p = c"
    using packet_inv_facts(6) [OF inv, folded D] ext by (auto simp: layout_agrees_def hdr_end_def c_def es unat_eq_zero)
  have nes: "rp_extensions_size p + 1 + ucast len = of_nat (es + 1 + unat len)" by (simp add: es)
  have u: "unat (of_nat (es + 1 + unat len) :: uint16) = es + 1 + unat len" "unat (of_nat w :: uint16) = w" 
    using unat16 [OF w16(2)] unat16 [OF w16(1)] .
  let ?start = "if es = 0 then (if rp_payload_offset p \<noteq> c then None
      else WriteAt 0 [D ! 0 OR 0x10] p \<bind> WriteAt c (WriteBigEndian 2 kOneByteExtensionId)) else Some p"
  have start: "?start = Some (p\<lparr>rp_buffer := (rp_buffer p)\<lparr>rb_data := C\<rparr>\<rparr>)"
    using po cap lB by (simp add: C_def B_def WriteAt_def Buffer_write_def Buffer_capacity_def)
  have offs: "c + 4 - 4 = c" "c + 4 - 2 = c + 2" "c + 4 + 1 + es = c + 4 + (es + 1)" by simp_all
  let ?x = "(rp_extension_entries p ! i)\<lparr>xe_length := len, xe_offset := of_nat (c + 4 + (es + 1))\<rparr>"
  let ?b = "\<lparr>rb_size = c + 4 + 4 * w, rb_data = E\<rparr>"
  have fits: "\<not> Packet_capacity p < c + 4 + es + 1 + unat len" using cap(2) sz by linarith
  have buf: "b\<lparr>rb_data := d, rb_size := k\<rparr> = \<lparr>rb_size = k, rb_data = d\<rparr>" for b :: rtc_buffer and d k by (cases b) simp
  have "AllocateExtension fresh t len p = Some (Some (of_nat (c + 4 + (es + 1))),
      p\<lparr>rp_extension_entries := (rp_extension_entries p)[i := ?x],
        rp_extensions_size := of_nat (es + 1 + unat len), rp_payload_offset := c + 4 + 4 * w, rp_buffer := ?b\<rparr>)"
    unfolding AllocateExtension_def idx option.case Let_def b0 unset es [symmetric] nes u w [symmetric]
    unfolding n Option.bind.bind_lunit offs start h_def [symmetric] if_not_P [OF fits]
    using len cap lB lC sz app(2)
    by (simp add: WriteAt_capacity Packet_capacity_def Buffer_capacity_def SetBufferSize_def Buffer_SetSize_within E_def buf)
  moreover have "Buffer_IsConsistent ?b" "Buffer_capacity ?b = Packet_capacity p" "contents ?b = take (c + 4 + 4 * w) E"
    using app(2) lC lB cap(2) by (simp_all add: buffer_defs)
  ultimately show ?thesis using app(1) by (auto simp: c_def)
qed

lemma set_entry_same: "set_entry off (i + 1, pos, n) xs = xs[i := (xs ! i)\<lparr>xe_length := of_nat n, xe_offset := of_nat (off + pos)\<rparr>]"
  by (cases "xs ! i") (simp add: set_entry_def)

lemma AllocateExtension_ok:
  assumes can: "can_append t i len p" and D: "D = contents (rp_buffer p)" and es: "es = unat (rp_extensions_size p)"
    and w: "w = (es + 1 + unat len + 3) div 4"
    and q: "q = p\<lparr>rp_extension_entries := set_entry (csrc_end D + 4) (i + 1, es + 1, unat len) (rp_extension_entries p),
      rp_extensions_size := of_nat (es + 1 + unat len), rp_payload_offset := csrc_end D + 4 + 4 * w\<rparr>"
  shows "\<exists>b. AllocateExtension fresh t len p = Some (Some (of_nat (csrc_end D + 4 + (es + 1))), q\<lparr>rp_buffer := b\<rparr>) \<and>
    packet_inv (q\<lparr>rp_buffer := b\<rparr>) \<and> Buffer_capacity b = Packet_capacity p \<and> element_appended D es i (unat len) (contents b)"
proof -
  define c where "c = csrc_end D"
  let ?n = "unat len" and ?e = "set_entry (c + 4) (i + 1, es + 1, unat len) (rp_extension_entries p)"
  obtain b where run: "AllocateExtension fresh t len p = Some (Some (of_nat (c + 4 + (es + 1))),
      p\<lparr>rp_extension_entries := ?e, rp_extensions_size := of_nat (es + 1 + ?n), rp_payload_offset := c + 4 + 4 * w, rp_buffer := b\<rparr>)"
    and b: "Buffer_IsConsistent b" "Buffer_capacity b = Packet_capacity p" and app: "element_appended D es i ?n (contents b)"
    using AllocateExtension_run [OF can D es w, of fresh, folded c_def] unfolding set_entry_same of_nat_unat ucast_id by blast
  have inv: "packet_inv p" and cap: "Packet_capacity p < 2 ^ 16" and ext: "es \<noteq> 0 \<or> \<not> has_ext D"
    and none: "rp_payload_size p = 0" "rp_padding_size p = 0" and idx: "index_of (\<lambda>x. xe_type x = t) (rp_extension_entries p) = Some i"
    using can by (auto simp: can_append_def D es unat_eq_zero)
  note facts = packet_inv_facts [OF inv, folded D]
  have i: "i < 14" using index_of_Some [OF idx] facts(2) by simp
  obtain xs where xs: "path (ext_block D) 0 es = Some xs" "es \<le> length (ext_block D)"
    "rp_extension_entries p = set_entries (c + 4) xs (clear_entries (rp_extension_entries p))"
    using facts(6) by (auto simp: layout_agrees_def ext_agrees_def es c_def)
  have pad: "\<not> has_pad D" using pad_size_iff [OF inv] none(2) by (simp add: D)
  have small: "length (contents b) < 2 ^ 16" using b cap by (simp add: buffer_defs)
  note layout = appended_layout [OF app facts(4) pad ext xs(1,2) small i, folded c_def]
  have len: "length (contents b) = c + 4 + 4 * w" using app by (simp add: element_appended_def Let_def c_def w)
  have fit: "es + 1 + ?n \<le> 4 * w" using ceil4(1) [of "es + 1 + ?n"] by (simp add: w)
  have "unat (of_nat (es + 1 + ?n) :: uint16) = es + 1 + ?n" using fit len small by (intro unat16) linarith
  note u = this
  note q = q [folded c_def]
  have "?e = set_entries (c + 4) (xs @ [(i + 1, es + 1, ?n)]) (clear_entries ?e)"
    using xs(3) clear_entries_cong [of ?e "rp_extension_entries p"] by simp
  then have "ext_agrees (contents b) q"
    unfolding ext_agrees_def q using layout u by auto
  then have "layout_agrees (contents b) q" using none layout len by (simp add: layout_agrees_def pad_len_def q)
  moreover have "hdr_agrees (contents b) q"
  proof -
    have "hdr_agrees (contents b) p"
      using app facts(4) len by (intro hdr_agrees_cong [OF facts(5)]) (auto simp: element_appended_def Let_def csrc_end_def c_def rtp_valid_def)
    then show ?thesis by (simp add: hdr_agrees_def q)
  qed
  ultimately have "packet_inv (q\<lparr>rp_buffer := b\<rparr>)"
    using b(1) small layout(4) facts(2) by (intro packet_invI) (auto simp: q)
  then show ?thesis using run app b(2) by (auto simp: q c_def [symmetric])
qed

section \<open>Values\<close>

lemma find_index_of: "find P xs = map_option (nth xs) (index_of P xs)"
  by (induction xs) (simp_all add: option.map_comp comp_def)

text \<open>The value of a set extension; to a user a packet is a map from extension types to values.\<close>

definition ext_value :: "rtp_packet \<Rightarrow> rtp_extension_type \<Rightarrow> byte list option" where
  "ext_value p t = (case find (\<lambda>x. xe_type x = t) (rp_extension_entries p) of
     None \<Rightarrow> None
   | Some x \<Rightarrow> if xe_length x = 0 then None
               else Some (take (unat (xe_length x)) (drop (unat (xe_offset x)) (contents (rp_buffer p)))))"

text \<open>An entry that is set points to an element of the block.\<close>

lemma entry_element:
  assumes inv: "packet_inv p" and D: "D = contents (rp_buffer p)" and i: "i < 14"
    and x: "x = rp_extension_entries p ! i" "xe_length x \<noteq> 0" and xs: "path (ext_block D) 0 (unat (rp_extensions_size p)) = Some xs"
  shows "\<exists>pos. (i + 1, pos, unat (xe_length x)) \<in> set xs \<and> unat (xe_offset x) = csrc_end D + 4 + pos \<and>
     pos + unat (xe_length x) \<le> unat (rp_extensions_size p)"
    and "unat (rp_extensions_size p) \<le> length (ext_block D)" "0 < length (ext_block D)"
proof -
  note facts = packet_inv_facts [OF inv, folded D]
  have ag: "unat (rp_extensions_size p) \<le> length (ext_block D)"
    "rp_extension_entries p = set_entries (csrc_end D + 4) xs (clear_entries (rp_extension_entries p))"
    using facts(6) xs by (auto simp: layout_agrees_def ext_agrees_def)
  have ids: "\<forall>(j, _, _) \<in> set xs. 1 \<le> j" using path_elements(3) [OF xs] by blast
  have l: "i < length (rp_extension_entries p)" using i facts(2) by simp
  have x': "x = set_entries (csrc_end D + 4) xs (clear_entries (rp_extension_entries p)) ! i" using ag(2) x(1) by simp
  have "xe_length (clear_entries (rp_extension_entries p) ! i) = 0" using l by (simp add: clear_entries_nth)
  then obtain pos n where e: "(i + 1, pos, n) \<in> set xs" "xe_offset x = of_nat (csrc_end D + 4 + pos)" "xe_length x = of_nat n"
    using set_entries_nth [OF l ids, of "csrc_end D + 4"] x(2) unfolding x' [symmetric] by auto
  note el = path_elements [OF xs e(1)]
  have n: "unat (xe_length x) = n" using e(3) el(6) by (simp add: unat_of_nat take_bit_nat_eq_self)
  show "unat (rp_extensions_size p) \<le> length (ext_block D)" by (rule ag)
  then show ne: "0 < length (ext_block D)" using el by linarith
  then have "length (ext_block D) + csrc_end D + 4 \<le> length D"
    using facts(4) by (auto simp: ext_block_def rtp_valid_def hdr_end_def split: if_splits)
  then have "csrc_end D + 4 + pos < 2 ^ 16" using el ag(1) facts(3) by linarith
  then have "unat (xe_offset x) = csrc_end D + 4 + pos" unfolding e(2) by (rule unat16)
  then show "\<exists>pos. (i + 1, pos, unat (xe_length x)) \<in> set xs \<and> unat (xe_offset x) = csrc_end D + 4 + pos \<and>
     pos + unat (xe_length x) \<le> unat (rp_extensions_size p)" using e(1) el(2) n by blast
qed

text \<open>A value written over another one of the same length changes nothing else.\<close>

lemma value_layout:
  assumes valid: "rtp_valid D" and ext: "0 < length (ext_block D)" and at: "pos + length bs \<le> length (ext_block D)"
    and D': "D' = splice_at (csrc_end D + 4 + pos) bs D"
  shows "csrc_end D' = csrc_end D" "hdr_end D' = hdr_end D" "ext_block D' = splice_at pos bs (ext_block D)"
    "pad_len D' = pad_len D" "rtp_valid D'" "length D' = length D" "\<And>i. i < csrc_end D \<Longrightarrow> D' ! i = D ! i"
proof -
  define c where "c = csrc_end D"
  have c12: "12 \<le> c" by (simp add: c_def csrc_end_def)
  have e: "has_ext D" "ext_profile D = kOneByteExtensionId" and blk: "ext_block D = take (ext_bytes D) (drop (c + 4) D)"
    using ext by (auto simp: ext_block_def c_def split: if_splits)
  have he: "hdr_end D = c + 4 + ext_bytes D" "hdr_end D \<le> length D" using e valid by (auto simp: rtp_valid_def hdr_end_def c_def)
  have lb: "length (ext_block D) = ext_bytes D" using he by (simp add: blk)
  have fit: "c + 4 + pos + length bs \<le> length D" using at lb he by simp
  show len: "length D' = length D" using fit by (simp add: D' c_def)
  have nth: "D' ! i = (if c + 4 + pos \<le> i \<and> i < c + 4 + pos + length bs then bs ! (i - (c + 4 + pos)) else D ! i)" if "i < length D" for i
    using nth_splice_at [OF fit that] by (simp add: D' c_def)
  show low: "D' ! i = D ! i" if "i < csrc_end D" for i using nth [of i] that he c_def by simp
  have b0: "D' ! 0 = D ! 0" using low c12 c_def by simp
  show c': "csrc_end D' = csrc_end D" using b0 by (simp add: csrc_end_def)
  have flags: "has_ext D' = has_ext D" "has_pad D' = has_pad D" using b0 by (simp_all add: has_ext_def has_pad_def)
  have word: "be_word 2 (drop a D') = (be_word 2 (drop a D) :: uint16)" if "a + 2 \<le> c + 4" for a
    using nth len that he by (intro be_word_cong) simp
  have ext': "ext_profile D' = ext_profile D" "ext_bytes D' = ext_bytes D"
    by (simp_all add: ext_profile_def ext_bytes_def c' word c_def [symmetric])
  show he': "hdr_end D' = hdr_end D" by (simp add: hdr_end_def flags c' ext')
  have "ext_block D' = take (ext_bytes D) (drop (c + 4) D')" using e by (simp add: ext_block_def flags ext' c' c_def)
  also have "\<dots> = splice_at pos bs (ext_block D)"
    using at lb he len nth by (intro nth_equalityI) (auto simp: blk nth_splice_at)
  finally show "ext_block D' = splice_at pos bs (ext_block D)" .
  have "D' ! (length D - 1) = D ! (length D - 1)" if "has_pad D"
  proof -
    have "0 < unat (pad_len D)" using that valid by (auto simp: rtp_valid_def unat_gt_0)
    then have "hdr_end D < length D" using valid by (simp add: rtp_valid_def)
    then have "length D - 1 < length D" "\<not> length D - 1 < c + 4 + pos + length bs" using at lb he by linarith+
    then show ?thesis using nth [of "length D - 1"] by (simp del: One_nat_def)
  qed
  then show pad': "pad_len D' = pad_len D" by (simp add: pad_len_def flags len)
  show "rtp_valid D'" using valid by (simp add: rtp_valid_def c' he' pad' flags len b0)
qed

lemma entry_type:
  fixes xs ys :: "extension_entry list"
  assumes "index_of (\<lambda>x. xe_type x = t) xs = Some i" "map xe_type ys = map xe_type xs"
  shows "index_of (\<lambda>x. xe_type x = t) ys = Some i"
proof -
  have "index_of (\<lambda>x. xe_type x = t) zs = index_of (\<lambda>x. x = t) (map xe_type zs)" for zs :: "extension_entry list"
    by (induction zs) simp_all
  then show ?thesis using assms by simp
qed

lemma csrc_list_cong:
  assumes "D' ! 0 AND 0x0f = D ! 0 AND 0x0f" "\<And>i. 1 \<le> i \<Longrightarrow> i < csrc_end D \<Longrightarrow> D' ! i = D ! i"
    and "csrc_end D \<le> length D" "csrc_end D \<le> length D'"
  shows "csrc_list D' = csrc_list D"
proof -
  have "(be_word 4 (drop (12 + 4 * i) D') :: uint32) = be_word 4 (drop (12 + 4 * i) D)" if "i < unat (D ! 0 AND 0x0f)" for i
    using assms(2-4) that by (intro be_word_cong) (simp add: csrc_end_def)
  then show ?thesis by (simp add: csrc_list_def assms(1))
qed

lemma ext_value_set:
  assumes "index_of (\<lambda>x. xe_type x = t) (rp_extension_entries p) = Some i"
  shows "ext_value p t = (let x = rp_extension_entries p ! i in if xe_length x = 0 then None
     else Some (take (unat (xe_length x)) (drop (unat (xe_offset x)) (contents (rp_buffer p)))))"
  using assms by (simp add: ext_value_def find_index_of Let_def)

text \<open>Other extensions keep their value when their entries and the bytes they point to are kept.\<close>

lemma ext_value_other:
  assumes types: "map xe_type (rp_extension_entries q) = map xe_type (rp_extension_entries p)"
    and idx: "index_of (\<lambda>x. xe_type x = t) (rp_extension_entries p) = Some i" and t: "t' \<noteq> t"
    and others: "\<And>j. j < length (rp_extension_entries p) \<Longrightarrow> j \<noteq> i \<Longrightarrow> rp_extension_entries q ! j = rp_extension_entries p ! j"
    and bytes: "\<And>j x. j < length (rp_extension_entries p) \<Longrightarrow> j \<noteq> i \<Longrightarrow> x = rp_extension_entries p ! j \<Longrightarrow> xe_length x \<noteq> 0 \<Longrightarrow>
      take (unat (xe_length x)) (drop (unat (xe_offset x)) (contents (rp_buffer q))) =
      take (unat (xe_length x)) (drop (unat (xe_offset x)) (contents (rp_buffer p)))"
  shows "ext_value q t' = ext_value p t'"
proof (cases "index_of (\<lambda>x. xe_type x = t') (rp_extension_entries p)")
  case None
  then have "index_of (\<lambda>x. xe_type x = t') (rp_extension_entries q) = None"
    using entry_type [OF _ types [symmetric]] by (cases "index_of (\<lambda>x. xe_type x = t') (rp_extension_entries q)") auto
  then show ?thesis using None by (simp add: ext_value_def find_index_of)
next
  case (Some j)
  have j: "j < length (rp_extension_entries p)" "j \<noteq> i" using index_of_Some [OF Some] index_of_Some [OF idx] t by auto
  show ?thesis using others [OF j] bytes [OF j refl]
    by (simp add: ext_value_set [OF Some] ext_value_set [OF entry_type [OF Some types]] Let_def)
qed

lemma write_value:
  assumes inv: "packet_inv p" and idx: "index_of (\<lambda>x. xe_type x = t) (rp_extension_entries p) = Some i"
    and x: "x = rp_extension_entries p ! i" "xe_length x \<noteq> 0" and bs: "length bs = unat (xe_length x)"
  shows "\<exists>b. WriteAt (unat (xe_offset x)) bs p = Some (p\<lparr>rp_buffer := b\<rparr>) \<and> packet_inv (p\<lparr>rp_buffer := b\<rparr>) \<and>
     Buffer_capacity b = Packet_capacity p \<and> ext_value (p\<lparr>rp_buffer := b\<rparr>) = (ext_value p)(t \<mapsto> bs) \<and>
     csrc_list (contents b) = csrc_list (contents (rp_buffer p)) \<and>
     drop (rp_payload_offset p) (contents b) = drop (rp_payload_offset p) (contents (rp_buffer p))"
proof -
  define D where "D = contents (rp_buffer p)"
  define es where "es = unat (rp_extensions_size p)"
  note facts = packet_inv_facts [OF inv, folded D_def]
  have i: "i < 14" using index_of_Some [OF idx] facts(2) by simp
  obtain xs where xs: "path (ext_block D) 0 es = Some xs" "fst (scan (ext_block D) es) = []"
      "rp_extension_entries p = set_entries (csrc_end D + 4) xs (clear_entries (rp_extension_entries p))"
    using facts(6) by (auto simp: layout_agrees_def ext_agrees_def es_def)
  note element = entry_element [OF inv D_def i x xs(1) [unfolded es_def], folded es_def]
  obtain pos where pos: "(i + 1, pos, length bs) \<in> set xs" "unat (xe_offset x) = csrc_end D + 4 + pos" "pos + length bs \<le> es"
    using element(1) bs by auto
  define D' where "D' = splice_at (csrc_end D + 4 + pos) bs D"
  have fit: "pos + length bs \<le> length (ext_block D)" using pos(3) element(2) by simp
  note layout = value_layout [OF facts(4) element(3) fit D'_def]
  have blk: "csrc_end D + 4 + length (ext_block D) \<le> length D"
    using element(3) facts(4) by (auto simp: ext_block_def rtp_valid_def hdr_end_def split: if_splits)
  obtain b where b: "WriteAt (unat (xe_offset x)) bs p = Some (p\<lparr>rp_buffer := b\<rparr>)" "Buffer_IsConsistent b" "contents b = D'"
    "Buffer_capacity b = Packet_capacity p"
    using WriteAt_inside [OF facts(1), of "unat (xe_offset x)" bs] pos(2) fit blk packet_inv_capacity(3) [OF inv]
    by (auto simp: D'_def D_def)
  have "path (ext_block D') 0 es = Some xs" using path_value [OF xs(1) pos(1) refl element(2)] by (simp add: layout)
  moreover have "fst (scan (ext_block D') es) = []"
    using xs(2) pos(3) fit scan_cong [of "ext_block D'" "ext_block D" es] element(2) by (simp add: layout drop_splice_at_after)
  moreover have "es \<le> length (ext_block D')" using element(2) fit by (simp add: layout)
  ultimately have "ext_agrees D' p"
    unfolding ext_agrees_def es_def [symmetric] layout(1) using xs(3) by blast
  then have "layout_agrees D' p" using facts(6) by (simp add: layout_agrees_def layout)
  moreover have c12: "12 \<le> csrc_end D" "12 \<le> length D" using facts(4) by (simp_all add: csrc_end_def rtp_valid_def)
  have "hdr_agrees D' p"
    by (rule hdr_agrees_cong [OF facts(5)]) (use c12 layout(6,7) in simp_all)
  ultimately have inv': "packet_inv (p\<lparr>rp_buffer := b\<rparr>)" using b(2,3) facts(2,3) layout(5,6) by (intro packet_invI) simp_all
  let ?q = "p\<lparr>rp_buffer := b\<rparr>"
  have "ext_value ?q t' = ext_value p t'" if "t' \<noteq> t" for t'
  proof (rule ext_value_other [OF _ idx that])
    fix j y assume j: "j < length (rp_extension_entries p)" "j \<noteq> i" and y: "y = rp_extension_entries p ! j" "xe_length y \<noteq> 0"
    have "j < 14" using j(1) facts(2) by simp
    then obtain pos' where pos': "(j + 1, pos', unat (xe_length y)) \<in> set xs" "unat (xe_offset y) = csrc_end D + 4 + pos'"
        "pos' + unat (xe_length y) \<le> es"
      using entry_element(1) [OF inv D_def _ y xs(1) [unfolded es_def], folded es_def] by auto
    have "pos + length bs < pos' \<or> pos' + unat (xe_length y) < pos"
      by (rule path_disjoint [OF xs(1) pos(1) pos'(1)]) (use j(2) in simp)
    then have "take (unat (xe_length y)) (drop (csrc_end D + 4 + pos') D') = take (unat (xe_length y)) (drop (csrc_end D + 4 + pos') D)"
      using blk fit pos'(3) element(2) layout(6) by (intro nth_equalityI) (auto simp: D'_def nth_splice_at)
    then show "take (unat (xe_length y)) (drop (unat (xe_offset y)) (contents (rp_buffer ?q))) =
        take (unat (xe_length y)) (drop (unat (xe_offset y)) (contents (rp_buffer p)))"
      using b(3) pos'(2) by (simp add: D_def)
  qed simp_all
  moreover have "ext_value ?q t = Some bs"
    using idx x bs b(3) pos(2) fit blk by (simp add: ext_value_set Let_def D'_def drop_splice_at)
  ultimately have "ext_value ?q = (ext_value p)(t \<mapsto> bs)" by (intro ext) simp
  moreover have "csrc_list D' = csrc_list D"
    by (rule csrc_list_cong) (use c12 layout(6,7) blk in simp_all)
  moreover have "drop (rp_payload_offset p) D' = drop (rp_payload_offset p) D"
  proof -
    have "rp_payload_offset p = hdr_end D" using facts(6) by (simp add: layout_agrees_def)
    moreover have "csrc_end D + 4 + length (ext_block D) \<le> hdr_end D"
      using element(3) by (auto simp: ext_block_def hdr_end_def split: if_splits)
    moreover have "hdr_end D \<le> length D" using facts(4) by (simp add: rtp_valid_def)
    ultimately show ?thesis using fit by (simp add: D'_def drop_splice_at_after)
  qed
  ultimately show ?thesis using b inv' by (auto simp: D_def)
qed

section \<open>The packet as a user sees it\<close>

record rtp_view =
  v_marker :: bool
  v_payload_type :: byte
  v_sequence_number :: uint16
  v_timestamp :: uint32
  v_ssrc :: uint32
  v_csrcs :: "uint32 list"
  v_extensions :: "rtp_extension_type \<Rightarrow> byte list option"
  v_payload :: "byte list"
  v_padding :: byte

definition packet_view :: "rtp_packet \<Rightarrow> rtp_view" where
  "packet_view p = \<lparr>v_marker = rp_marker p, v_payload_type = rp_payload_type p, v_sequence_number = rp_sequence_number p,
     v_timestamp = rp_timestamp p, v_ssrc = rp_ssrc p, v_csrcs = csrc_list (contents (rp_buffer p)),
     v_extensions = ext_value p, v_payload = Packet_payload p, v_padding = rp_padding_size p\<rparr>"

lemma inv_payload:
  assumes "packet_inv p"
  shows "Packet_payload p = take (rp_payload_size p) (drop (rp_payload_offset p) (contents (rp_buffer p)))"
  using layout_agrees_size [OF packet_inv_facts(6) [OF assms]] packet_inv_capacity(3) [OF assms]
  by (intro Packet_payload_contents) simp

text \<open>Appending the element keeps the values that are there, and makes room for the new one.\<close>

lemma append_view:
  assumes can: "can_append t i len p"
  shows "\<exists>q. AllocateExtension fresh t len p = Some (Some (xe_offset (rp_extension_entries q ! i)), q) \<and> packet_inv q \<and>
    index_of (\<lambda>x. xe_type x = t) (rp_extension_entries q) = Some i \<and> xe_length (rp_extension_entries q ! i) = len \<and>
    Packet_capacity q = Packet_capacity p \<and> (\<exists>e. e t = ext_value q t \<and> (\<forall>t'. t' \<noteq> t \<longrightarrow> e t' = ext_value p t') \<and>
    packet_view q = (packet_view p)\<lparr>v_extensions := e\<rparr>)"
proof -
  define D where "D = contents (rp_buffer p)"
  define es where "es = unat (rp_extensions_size p)"
  define w where "w = (es + 1 + unat len + 3) div 4"
  define r where "r = p\<lparr>rp_extension_entries := set_entry (csrc_end D + 4) (i + 1, es + 1, unat len) (rp_extension_entries p),
      rp_extensions_size := of_nat (es + 1 + unat len), rp_payload_offset := csrc_end D + 4 + 4 * w\<rparr>"
  obtain b where run: "AllocateExtension fresh t len p = Some (Some (of_nat (csrc_end D + 4 + (es + 1))), r\<lparr>rp_buffer := b\<rparr>)"
    and inv': "packet_inv (r\<lparr>rp_buffer := b\<rparr>)" and cap: "Buffer_capacity b = Packet_capacity p" and app: "element_appended D es i (unat len) (contents b)"
    using AllocateExtension_ok [OF can D_def es_def w_def r_def] by blast
  have inv: "packet_inv p" and idx: "index_of (\<lambda>x. xe_type x = t) (rp_extension_entries p) = Some i"
    and none: "rp_payload_size p = 0"
    using can by (auto simp: can_append_def)
  note facts = packet_inv_facts [OF inv, folded D_def]
  let ?q = "r\<lparr>rp_buffer := b\<rparr>"
  have i: "i < length (rp_extension_entries p)" using index_of_Some [OF idx] by simp
  have x: "rp_extension_entries ?q ! i = (rp_extension_entries p ! i)\<lparr>xe_offset := of_nat (csrc_end D + 4 + (es + 1)), xe_length := of_nat (unat len)\<rparr>"
    using set_entry_nth [OF i, of "i + 1" "csrc_end D + 4" "es + 1" "unat len"] by (simp add: r_def)
  have types: "map xe_type (rp_extension_entries ?q) = map xe_type (rp_extension_entries p)" by (simp add: r_def)
  have len: "length (contents b) = csrc_end D + 4 + 4 * w" "es + 1 + unat len \<le> 4 * w"
    using app ceil4(1) [of "es + 1 + unat len"] by (auto simp: element_appended_def Let_def w_def)
  obtain xs where xs: "path (ext_block D) 0 es = Some xs" using facts(6) by (auto simp: layout_agrees_def ext_agrees_def es_def)
  have others: "ext_value ?q t' = ext_value p t'" if "t' \<noteq> t" for t'
  proof (rule ext_value_other [OF types idx that])
    fix j assume j: "j < length (rp_extension_entries p)" "j \<noteq> i"
    then show "rp_extension_entries ?q ! j = rp_extension_entries p ! j" by (simp add: r_def set_entry_def)
    fix y assume y: "y = rp_extension_entries p ! j" "xe_length y \<noteq> 0"
    have "j < 14" using j(1) facts(2) by simp
    note element = entry_element [OF inv D_def this y xs [unfolded es_def], folded es_def]
    obtain pos where pos: "unat (xe_offset y) = csrc_end D + 4 + pos" "pos + unat (xe_length y) \<le> es" using element(1) by auto
    have "csrc_end D + 4 + length (ext_block D) \<le> length D"
      using element(3) facts(4) by (auto simp: ext_block_def rtp_valid_def hdr_end_def split: if_splits)
    then have "take (unat (xe_length y)) (drop (csrc_end D + 4 + pos) (contents b)) =
        take (unat (xe_length y)) (drop (csrc_end D + 4 + pos) D)"
      using app pos(2) element(2) len by (intro nth_equalityI) (auto simp: element_appended_def Let_def add.assoc)
    then show "take (unat (xe_length y)) (drop (unat (xe_offset y)) (contents (rp_buffer ?q))) =
        take (unat (xe_length y)) (drop (unat (xe_offset y)) (contents (rp_buffer p)))" by (simp add: pos(1) D_def)
  qed
  have "csrc_list (contents b) = csrc_list D"
    using app facts(4) len(1) by (intro csrc_list_cong) (auto simp: element_appended_def Let_def ext_flag_bits rtp_valid_def)
  moreover have "Packet_payload ?q = Packet_payload p" using none by (simp add: Packet_payload_def r_def)
  ultimately have "packet_view ?q = (packet_view p)\<lparr>v_extensions := ext_value ?q\<rparr>"
    by (simp add: packet_view_def r_def D_def)
  then show ?thesis
    using run inv' others x entry_type [OF idx types] cap
    by (intro exI [of _ ?q]) (auto simp: Packet_capacity_def)
qed

section \<open>Setting a value\<close>

text \<open>An extension can be set when it is there with the same length, or when there is room to append it.\<close>

definition can_set :: "rtp_extension_type \<Rightarrow> byte \<Rightarrow> rtp_packet \<Rightarrow> bool" where
  "can_set t len p \<longleftrightarrow> packet_inv p \<and>
     (case index_of (\<lambda>x. xe_type x = t) (rp_extension_entries p) of
        None \<Rightarrow> False
      | Some i \<Rightarrow> len \<noteq> 0 \<and> xe_length (rp_extension_entries p ! i) = len \<or> can_append t i len p)"

lemma write_view:
  assumes "packet_inv p" "index_of (\<lambda>x. xe_type x = t) (rp_extension_entries p) = Some i"
    and x: "x = rp_extension_entries p ! i" "xe_length x \<noteq> 0" and bs: "length bs = unat (xe_length x)"
  shows "\<exists>q. WriteAt (unat (xe_offset x)) bs p = Some q \<and> packet_inv q \<and> Packet_capacity q = Packet_capacity p \<and>
     packet_view q = (packet_view p)\<lparr>v_extensions := (ext_value p)(t \<mapsto> bs)\<rparr>"
proof -
  obtain b where b: "WriteAt (unat (xe_offset x)) bs p = Some (p\<lparr>rp_buffer := b\<rparr>)" "packet_inv (p\<lparr>rp_buffer := b\<rparr>)"
    "Buffer_capacity b = Packet_capacity p" "ext_value (p\<lparr>rp_buffer := b\<rparr>) = (ext_value p)(t \<mapsto> bs)"
    "csrc_list (contents b) = csrc_list (contents (rp_buffer p))"
    "drop (rp_payload_offset p) (contents b) = drop (rp_payload_offset p) (contents (rp_buffer p))"
    using write_value [OF assms] by blast
  then show ?thesis using inv_payload [OF assms(1)] inv_payload [OF b(2)] by (simp add: packet_view_def Packet_capacity_def)
qed

lemma SetExtension_view:
  assumes can: "can_set t len p" and bs: "length bs = unat len"
  shows "\<exists>q. SetExtension fresh t len (Some bs) p = Some (True, q) \<and> packet_inv q \<and> Packet_capacity q = Packet_capacity p \<and>
     packet_view q = (packet_view p)\<lparr>v_extensions := (ext_value p)(t \<mapsto> bs)\<rparr>"
proof -
  obtain i where inv: "packet_inv p" and idx: "index_of (\<lambda>x. xe_type x = t) (rp_extension_entries p) = Some i"
    and cases: "len \<noteq> 0 \<and> xe_length (rp_extension_entries p ! i) = len \<or> can_append t i len p"
    using can by (auto simp: can_set_def split: option.splits)
  from cases show ?thesis
  proof
    assume set: "len \<noteq> 0 \<and> xe_length (rp_extension_entries p ! i) = len"
    then have "AllocateExtension fresh t len p = Some (Some (xe_offset (rp_extension_entries p ! i)), p)"
      by (simp add: AllocateExtension_def idx Let_def)
    then show ?thesis using write_view [OF inv idx refl, of bs] set bs by (auto simp: SetExtension_def)
  next
    assume app: "can_append t i len p"
    have "len \<noteq> 0" using app by (auto simp: can_append_def)
    obtain q e where q: "AllocateExtension fresh t len p = Some (Some (xe_offset (rp_extension_entries q ! i)), q)" "packet_inv q"
      "index_of (\<lambda>x. xe_type x = t) (rp_extension_entries q) = Some i" "xe_length (rp_extension_entries q ! i) = len"
      "Packet_capacity q = Packet_capacity p" "e t = ext_value q t" "\<forall>t'. t' \<noteq> t \<longrightarrow> e t' = ext_value p t'"
      "packet_view q = (packet_view p)\<lparr>v_extensions := e\<rparr>"
      using append_view [OF app, of fresh] by blast
    have e: "ext_value q = e" using arg_cong [OF q(8), of v_extensions] by (simp add: packet_view_def)
    obtain r where r: "WriteAt (unat (xe_offset (rp_extension_entries q ! i))) bs q = Some r" "packet_inv r"
      "Packet_capacity r = Packet_capacity q" "packet_view r = (packet_view q)\<lparr>v_extensions := (ext_value q)(t \<mapsto> bs)\<rparr>"
      using write_view [OF q(2,3) refl] q(4) \<open>len \<noteq> 0\<close> bs by auto
    have "(ext_value q)(t \<mapsto> bs) = (ext_value p)(t \<mapsto> bs)" using q(7) by (auto simp: e)
    then show ?thesis using q(1,5,8) r by (auto simp: SetExtension_def)
  qed
qed

lemma ReserveExtension_Set: "ReserveExtension fresh t len p = SetExtension fresh t len (Some (replicate (unat len) 0)) p"
  by (auto simp: ReserveExtension_def SetExtension_def split: option.splits intro!: Option.bind_cong)

text \<open>A call that is turned down changes nothing.\<close>

lemma SetExtension_refused:
  "index_of (\<lambda>x. xe_type x = t) (rp_extension_entries p) = None \<Longrightarrow> SetExtension fresh t len bs p = Some (False, p)"
  "index_of (\<lambda>x. xe_type x = t) (rp_extension_entries p) = Some i \<Longrightarrow> xe_length (rp_extension_entries p ! i) \<notin> {0, len} \<Longrightarrow>
    SetExtension fresh t len bs p = Some (False, p)"
  "index_of (\<lambda>x. xe_type x = t) (rp_extension_entries p) = Some i \<Longrightarrow> xe_length (rp_extension_entries p ! i) = 0 \<Longrightarrow>
    0 < rp_payload_size p \<or> 0 < rp_padding_size p \<Longrightarrow> SetExtension fresh t len bs p = Some (False, p)"
  by (auto simp: SetExtension_def AllocateExtension_def Let_def)

section \<open>Reading a value\<close>

lemma value_bounds:
  assumes inv: "packet_inv p" and i: "i < 14" and x: "x = rp_extension_entries p ! i" "xe_length x \<noteq> 0"
  shows "16 \<le> unat (xe_offset x)" "unat (xe_offset x) + unat (xe_length x) \<le> hdr_end (contents (rp_buffer p))"
    "unat (xe_offset x) + unat (xe_length x) \<le> length (contents (rp_buffer p))"
proof -
  let ?D = "contents (rp_buffer p)"
  note facts = packet_inv_facts [OF inv]
  obtain xs where "path (ext_block ?D) 0 (unat (rp_extensions_size p)) = Some xs"
    using facts(6) by (auto simp: layout_agrees_def ext_agrees_def)
  note element = entry_element [OF inv refl i x this]
  show "16 \<le> unat (xe_offset x)" using element(1) by (auto simp: csrc_end_def)
  have "csrc_end ?D + 4 + length (ext_block ?D) \<le> hdr_end ?D" "hdr_end ?D \<le> length ?D"
    using element(3) facts(4) by (auto simp: ext_block_def rtp_valid_def hdr_end_def split: if_splits)
  then show "unat (xe_offset x) + unat (xe_length x) \<le> hdr_end ?D" "unat (xe_offset x) + unat (xe_length x) \<le> length ?D"
    using element(1,2) by auto
qed

text \<open>A reader that looks at the bytes of the value only.\<close>

locale rtp_value_reader = rtp_extension value_size Parse Write valid shown
  for value_size :: nat and Parse :: "byte list \<Rightarrow> 'r option" and Write :: "'v \<Rightarrow> byte list option" and valid shown +
  assumes Parse_prefix: "value_size \<le> length data \<Longrightarrow> Parse (take value_size data) = Parse data"
begin

lemma unat_size: "unat (of_nat value_size :: byte) = value_size"
  using value_size_bounds by (simp add: unat_of_nat take_bit_nat_eq_self)

text \<open>\<open>GetExtension\<close> is a function of the values of the packet, and never faults.\<close>

lemma Get_eq:
  assumes inv: "packet_inv p"
  shows "GetExtension t (of_nat value_size) Parse p = (case ext_value p t of None \<Rightarrow> Some None
     | Some bs \<Rightarrow> if length bs = value_size then map_option Some (Parse bs) else Some None)"
proof (cases "index_of (\<lambda>x. xe_type x = t) (rp_extension_entries p)")
  case None
  then show ?thesis by (simp add: GetExtension_def FindExtension_def ext_value_def find_index_of)
next
  case (Some i)
  define x where "x = rp_extension_entries p ! i"
  define off where "off = unat (xe_offset x)"
  let ?D = "contents (rp_buffer p)" and ?n = "unat (xe_length x)"
  show ?thesis
  proof (cases "xe_length x = 0")
    case True
    then show ?thesis by (simp add: GetExtension_def FindExtension_def ext_value_def find_index_of Some x_def)
  next
    case False
    have "i < 14" using index_of_Some [OF Some] packet_inv_facts(2) [OF inv] by simp
    then have len: "off + ?n \<le> length ?D" using value_bounds(3) [OF inv _ x_def False] by (simp add: off_def)
    have same: "of_nat value_size = xe_length x \<longleftrightarrow> value_size = ?n"
      by (metis of_nat_unat ucast_id unat_size)
    have "ext_value p t = Some (take ?n (drop off ?D))" using False by (simp add: ext_value_set [OF Some] Let_def x_def off_def)
    moreover have "take ?n (drop off ?D) = take ?n (data_from p off)"
      using len by (intro nth_equalityI) (auto simp: data_from_def contents_def)
    moreover have "?n \<le> length (data_from p off)" using len by (auto simp: data_from_def contents_def)
    ultimately show ?thesis
      using False same Parse_prefix [of "data_from p off"] len
      by (simp add: GetExtension_def FindExtension_def find_index_of Some x_def [symmetric] off_def [symmetric])
  qed
qed

lemma Get_defined: "packet_inv p \<Longrightarrow> GetExtension t (of_nat value_size) Parse p \<noteq> None"
  using Parse_safe by (auto simp: Get_eq split: option.splits)

text \<open>What is set is what is got, and nothing else of the packet changes.\<close>

lemma Set_Get:
  assumes can: "can_set t (of_nat value_size) p" and v: "valid v"
  shows "\<exists>q bs. Write v = Some bs \<and> SetExtension fresh t (of_nat value_size) (Write v) p = Some (True, q) \<and> packet_inv q \<and>
     Packet_capacity q = Packet_capacity p \<and> packet_view q = (packet_view p)\<lparr>v_extensions := (ext_value p)(t \<mapsto> bs)\<rparr> \<and>
     GetExtension t (of_nat value_size) Parse q = Some (Some (shown v))"
proof -
  obtain bs where bs: "Write v = Some bs" "length bs = value_size" using Write_size [OF v] by blast
  obtain q where q: "SetExtension fresh t (of_nat value_size) (Some bs) p = Some (True, q)" "packet_inv q"
    "Packet_capacity q = Packet_capacity p" "packet_view q = (packet_view p)\<lparr>v_extensions := (ext_value p)(t \<mapsto> bs)\<rparr>"
    using SetExtension_view [OF can, of bs fresh] bs(2) unat_size by auto
  have "ext_value q t = Some bs" using arg_cong [OF q(4), of v_extensions] by (simp add: packet_view_def)
  then have "GetExtension t (of_nat value_size) Parse q = Some (Some (shown v))"
    using Get_eq [OF q(2), of t] Parse_Write [OF v bs(1), of "[]"] bs(2) by simp
  then show ?thesis using bs q by auto
qed

end

lemma be_word_take: "B \<le> n \<Longrightarrow> be_word B (take n data) = be_word B data"
  by (rule be_word_cong) simp

lemma ReadBigEndian_take: "ReadBigEndian B (take B data) = ReadBigEndian B data"
  by (simp add: ReadBigEndian_eq be_word_take)

interpretation val_absolute_send_time: rtp_value_reader 3 AbsoluteSendTime_Parse AbsoluteSendTime_Write ms_valid
  "\<lambda>t. word_of_int ((t * 262144 + 500) div 1000) AND 0x00FFFFFF"
  by unfold_locales (simp add: AbsoluteSendTime_Parse_def ReadBigEndian_take)

interpretation val_audio_level: rtp_value_reader 1 AudioLevel_Parse AudioLevel_Write "\<lambda>(_, level). level \<le> 0x7f" "\<lambda>v. v"
  by unfold_locales (auto simp: AudioLevel_Parse_def byte_at_def)

interpretation val_transmission_offset: rtp_value_reader 3 TransmissionOffset_Parse TransmissionOffset_Write
  "\<lambda>v. v \<le> 0xffffff" "signed_take_bit 23"
  by unfold_locales (simp add: TransmissionOffset_Parse_def ReadBigEndianSigned_def ReadBigEndian_take)

interpretation val_transport_sequence_number: rtp_value_reader 2 TransportSequenceNumber_Parse
  TransportSequenceNumber_Write "\<lambda>_. True" "\<lambda>v. v"
  by unfold_locales (simp add: TransportSequenceNumber_Parse_def ReadBigEndian_take)

interpretation val_video_orientation: rtp_value_reader 1 VideoOrientation_Parse VideoOrientation_Write "\<lambda>_. True" "\<lambda>v. v"
  by unfold_locales (auto simp: VideoOrientation_Parse_def byte_at_def)

interpretation val_video_orientation_byte: rtp_value_reader 1 VideoOrientation_ParseByte VideoOrientation_WriteByte
  "\<lambda>_. True" "\<lambda>v. v"
  by unfold_locales (auto simp: VideoOrientation_ParseByte_def byte_at_def)

interpretation val_playout_delay: rtp_value_reader 3 PlayoutDelayLimits_Parse PlayoutDelayLimits_Write playout_valid
  "\<lambda>d. Some \<lparr>min_ms = min_ms d - min_ms d mod 10, max_ms = max_ms d - max_ms d mod 10\<rparr>"
  by unfold_locales (simp add: PlayoutDelayLimits_Parse_def ReadBigEndian_take)

end
