(* ===== verification/RtpPacketView.thy ===== *)
theory RtpPacketView
  imports RtpPacketExt
begin

text \<open>
  \<open>rtp::Packet\<close> against its abstract view: every operation changes the view the way its name says and
  nothing else, parsing the bytes of a packet gives a packet with the same view, and every packet that
  the operations build satisfies the invariant.
\<close>

section \<open>Operations on the view\<close>

lemma ext_value_same_bytes:
  assumes inv: "packet_inv p" and e: "rp_extension_entries q = rp_extension_entries p"
    and d: "drop 12 (contents (rp_buffer q)) = drop 12 (contents (rp_buffer p))"
  shows "ext_value q t = ext_value p t"
proof (cases "index_of (\<lambda>x. xe_type x = t) (rp_extension_entries p)")
  case None
  then show ?thesis by (simp add: ext_value_def e find_index_of)
next
  case (Some i)
  define x where "x = rp_extension_entries p ! i"
  have i: "i < 14" using index_of_Some [OF Some] packet_inv_facts(2) [OF inv] by simp
  show ?thesis
  proof (cases "xe_length x = 0")
    case False
    have "drop k (contents (rp_buffer q)) = drop k (contents (rp_buffer p))" if "12 \<le> k" for k
      using arg_cong [OF d, of "drop (k - 12)"] that by simp
    then show ?thesis using value_bounds(1) [OF inv i x_def False] Some
      by (simp add: ext_value_def e find_index_of x_def [symmetric])
  qed (use Some in \<open>simp add: ext_value_def e find_index_of x_def\<close>)
qed

lemma same_rest:
  assumes inv: "packet_inv p" "packet_inv q" and e: "rp_extension_entries q = rp_extension_entries p"
    and po: "rp_payload_offset q = rp_payload_offset p" "rp_payload_size q = rp_payload_size p"
    and b: "contents (rp_buffer q) ! 0 = contents (rp_buffer p) ! 0" and d: "drop 12 (contents (rp_buffer q)) = drop 12 (contents (rp_buffer p))"
  shows "csrc_list (contents (rp_buffer q)) = csrc_list (contents (rp_buffer p))" "ext_value q = ext_value p"
    "Packet_payload q = Packet_payload p"
proof -
  have dk: "drop k (contents (rp_buffer q)) = drop k (contents (rp_buffer p))" if "12 \<le> k" for k
    using arg_cong [OF d, of "drop (k - 12)"] that by simp
  show "csrc_list (contents (rp_buffer q)) = csrc_list (contents (rp_buffer p))" by (simp add: csrc_list_def b dk)
  show "ext_value q = ext_value p" by (rule ext) (rule ext_value_same_bytes [OF inv(1) e d])
  have "12 \<le> rp_payload_offset p" using packet_inv_facts(6) [OF inv(1)] by (simp add: layout_agrees_def hdr_end_def csrc_end_def)
  then show "Packet_payload q = Packet_payload p" by (simp add: inv_payload [OF inv(1)] inv_payload [OF inv(2)] po dk)
qed

text \<open>The call succeeds, keeps the invariant and the capacity and acts on the view as \<open>f\<close>.\<close>

definition acts :: "rtp_packet \<Rightarrow> (rtp_view \<Rightarrow> rtp_view) \<Rightarrow> rtp_packet option \<Rightarrow> bool" where
  "acts p f r \<longleftrightarrow> (\<exists>q. r = Some q \<and> packet_inv q \<and> Packet_capacity q = Packet_capacity p \<and> packet_view q = f (packet_view p))"

lemma setter_acts:
  assumes inv: "packet_inv p" and s: "sets_field f p r"
    and f: "rp_extension_entries (f p) = rp_extension_entries p" "rp_payload_offset (f p) = rp_payload_offset p" "rp_payload_size (f p) = rp_payload_size p"
    and g: "\<And>b. csrc_list (contents b) = csrc_list (contents (rp_buffer p)) \<Longrightarrow> ext_value ((f p)\<lparr>rp_buffer := b\<rparr>) = ext_value p \<Longrightarrow>
      Packet_payload ((f p)\<lparr>rp_buffer := b\<rparr>) = Packet_payload p \<Longrightarrow> packet_view ((f p)\<lparr>rp_buffer := b\<rparr>) = g (packet_view p)"
  shows "acts p g r"
proof -
  obtain b where b: "r = Some ((f p)\<lparr>rp_buffer := b\<rparr>)" "packet_inv ((f p)\<lparr>rp_buffer := b\<rparr>)" "Buffer_capacity b = Packet_capacity p"
    "contents b ! 0 = contents (rp_buffer p) ! 0" "drop 12 (contents b) = drop 12 (contents (rp_buffer p))"
    using s by (auto simp: sets_field_def)
  have "packet_view ((f p)\<lparr>rp_buffer := b\<rparr>) = g (packet_view p)"
    by (rule g) (use same_rest [OF inv b(2)] f b(4,5) in simp_all)
  then show ?thesis using b by (auto simp: acts_def Packet_capacity_def)
qed

lemma header_setters_act:
  assumes inv: "packet_inv p"
  shows "acts p (\<lambda>v. v\<lparr>v_marker := m\<rparr>) (SetMarker m p)"
    and "t \<le> 0x7f \<Longrightarrow> acts p (\<lambda>v. v\<lparr>v_payload_type := t\<rparr>) (SetPayloadType t p)"
    and "acts p (\<lambda>v. v\<lparr>v_sequence_number := seq\<rparr>) (SetSequenceNumber seq p)"
    and "acts p (\<lambda>v. v\<lparr>v_timestamp := ts\<rparr>) (SetTimestamp ts p)"
    and "acts p (\<lambda>v. v\<lparr>v_ssrc := s\<rparr>) (SetSsrc s p)"
proof -
  note words = word_setters_ok [OF inv]
  show "acts p (\<lambda>v. v\<lparr>v_marker := m\<rparr>) (SetMarker m p)"
    by (rule setter_acts [OF inv SetMarker_ok [OF inv]]) (simp_all add: packet_view_def)
  show "acts p (\<lambda>v. v\<lparr>v_payload_type := t\<rparr>) (SetPayloadType t p)" if "t \<le> 0x7f"
    by (rule setter_acts [OF inv SetPayloadType_ok [OF inv that]]) (simp_all add: packet_view_def)
  show "acts p (\<lambda>v. v\<lparr>v_sequence_number := seq\<rparr>) (SetSequenceNumber seq p)"
    by (rule setter_acts [OF inv words(1)]) (simp_all add: packet_view_def)
  show "acts p (\<lambda>v. v\<lparr>v_timestamp := ts\<rparr>) (SetTimestamp ts p)"
    by (rule setter_acts [OF inv words(2)]) (simp_all add: packet_view_def)
  show "acts p (\<lambda>v. v\<lparr>v_ssrc := s\<rparr>) (SetSsrc s p)"
    by (rule setter_acts [OF inv words(3)]) (simp_all add: packet_view_def)
qed

text \<open>What lies in the headers is kept when the headers are.\<close>

lemma same_headers_rest:
  assumes inv: "packet_inv p" and e: "rp_extension_entries q = rp_extension_entries p"
    and same: "same_headers (contents (rp_buffer p)) (contents (rp_buffer q))"
  shows "csrc_list (contents (rp_buffer q)) = csrc_list (contents (rp_buffer p))" "ext_value q = ext_value p"
proof -
  let ?D = "contents (rp_buffer p)" and ?D' = "contents (rp_buffer q)"
  note facts = packet_inv_facts [OF inv]
  have he: "csrc_end ?D \<le> hdr_end ?D" "hdr_end ?D \<le> length ?D" "hdr_end ?D \<le> length ?D'"
    using facts(4) same by (auto simp: rtp_valid_def hdr_end_def same_headers_def)
  show "csrc_list ?D' = csrc_list ?D" using same he by (intro csrc_list_cong) (auto simp: same_headers_def)
  show "ext_value q = ext_value p"
  proof
    fix t
    show "ext_value q t = ext_value p t"
    proof (cases "index_of (\<lambda>x. xe_type x = t) (rp_extension_entries p)")
      case None
      then show ?thesis by (simp add: ext_value_def e find_index_of)
    next
      case (Some i)
      define x where "x = rp_extension_entries p ! i"
      have i: "i < 14" using index_of_Some [OF Some] facts(2) by simp
      have "take (unat (xe_length x)) (drop (unat (xe_offset x)) ?D') = take (unat (xe_length x)) (drop (unat (xe_offset x)) ?D)"
        if "xe_length x \<noteq> 0"
      proof -
        have "1 \<le> unat (xe_offset x)" "unat (xe_offset x) + unat (xe_length x) \<le> hdr_end ?D"
          using value_bounds(1) [OF inv i x_def that] value_bounds(2) [OF inv i x_def that] by auto
        then show ?thesis using same he(2) by (intro nth_equalityI) (auto simp: same_headers_def)
      qed
      then show ?thesis using Some by (simp add: ext_value_def e find_index_of x_def)
    qed
  qed
qed

lemma payload_views:
  assumes inv: "packet_inv p" and pad: "rp_padding_size p = 0"
  shows "rp_payload_offset p + n \<le> Packet_capacity p \<Longrightarrow> rp_payload_offset p + n < 2 ^ 16 \<Longrightarrow>
      \<exists>q bs. AllocatePayload fresh n p = Some (Some (rp_payload_offset p), q) \<and> packet_inv q \<and>
        Packet_capacity q = Packet_capacity p \<and> length bs = n \<and> take (rp_payload_size p) bs = take n (Packet_payload p) \<and>
        packet_view q = (packet_view p)\<lparr>v_payload := bs\<rparr>"
    and "n \<le> rp_payload_size p \<Longrightarrow> acts p (\<lambda>v. v\<lparr>v_payload := take n (v_payload v)\<rparr>) (SetPayloadSize fresh n p)"
proof -
  let ?q = "\<lambda>n. p\<lparr>rp_payload_size := n, rp_buffer := (rp_buffer p)\<lparr>rb_size := rp_payload_offset p + n\<rparr>\<rparr>"
  have po: "rp_payload_offset p = hdr_end (contents (rp_buffer p))" "rp_payload_offset p + rp_payload_size p = length (contents (rp_buffer p))"
    using packet_inv_facts(6) [OF inv] pad by (auto simp: layout_agrees_def)
  have b: "rb_size (rp_buffer p) \<le> length (rb_data (rp_buffer p))" "length (contents (rp_buffer p)) = rb_size (rp_buffer p)"
    using packet_inv_capacity(2,3) [OF inv] by (simp_all add: Packet_capacity_def Buffer_capacity_def)
  have view: "packet_view (?q n) = (packet_view p)\<lparr>v_payload := Packet_payload (?q n)\<rparr>"
    "Packet_payload (?q n) = take n (drop (rp_payload_offset p) (rb_data (rp_buffer p)))" if "packet_inv (?q n)" for n
  proof -
    have "rp_payload_offset p + n = length (contents (rp_buffer (?q n)))"
      using layout_agrees_size [OF packet_inv_facts(6) [OF that]] pad by simp
    moreover have "take (rp_payload_offset p) (contents (rp_buffer (?q n))) = take (rp_payload_offset p) (contents (rp_buffer p))"
      using po(2) b by (simp add: contents_def)
    ultimately have "same_headers (contents (rp_buffer p)) (contents (rp_buffer (?q n)))"
      using same_headers_take(1) [of "contents (rp_buffer p)" "contents (rp_buffer (?q n))"] po(1) by simp
    then show "packet_view (?q n) = (packet_view p)\<lparr>v_payload := Packet_payload (?q n)\<rparr>"
      using same_headers_rest [OF inv, of "?q n"] by (simp add: packet_view_def)
    show "Packet_payload (?q n) = take n (drop (rp_payload_offset p) (rb_data (rp_buffer p)))"
      by (simp add: Packet_payload_def data_from_def)
  qed
  have old: "Packet_payload p = take (rp_payload_size p) (drop (rp_payload_offset p) (rb_data (rp_buffer p)))"
    by (simp add: Packet_payload_def data_from_def)
  have cap: "Packet_capacity (?q n) = Packet_capacity p" for n by (simp add: Packet_capacity_def Buffer_capacity_def)
  show "\<exists>q bs. AllocatePayload fresh n p = Some (Some (rp_payload_offset p), q) \<and> packet_inv q \<and>
        Packet_capacity q = Packet_capacity p \<and> length bs = n \<and> take (rp_payload_size p) bs = take n (Packet_payload p) \<and>
        packet_view q = (packet_view p)\<lparr>v_payload := bs\<rparr>"
    if "rp_payload_offset p + n \<le> Packet_capacity p" "rp_payload_offset p + n < 2 ^ 16"
  proof -
    have q: "AllocatePayload fresh n p = Some (Some (rp_payload_offset p), ?q n)" "packet_inv (?q n)"
      using AllocatePayload_ok(2) [OF inv pad that] by auto
    moreover have "length (Packet_payload (?q n)) = n" using that(1) view(2) [OF q(2)]
      by (simp add: Packet_capacity_def Buffer_capacity_def)
    moreover have "take (rp_payload_size p) (Packet_payload (?q n)) = take n (Packet_payload p)"
      using view(2) [OF q(2)] old by (simp add: min.commute)
    ultimately show ?thesis using cap view(1) [OF q(2)] by blast
  qed
  show "acts p (\<lambda>v. v\<lparr>v_payload := take n (v_payload v)\<rparr>) (SetPayloadSize fresh n p)" if "n \<le> rp_payload_size p"
  proof -
    have q: "SetPayloadSize fresh n p = Some (?q n)" "packet_inv (?q n)" using SetPayloadSize_ok [OF inv pad that] by auto
    have "Packet_payload (?q n) = take n (Packet_payload p)" using view(2) [OF q(2)] old that by (simp add: min_def)
    then show ?thesis using q cap view(1) [OF q(2)] by (auto simp: acts_def packet_view_def)
  qed
qed

lemma padding_view:
  assumes inv: "packet_inv p" and r: "r \<noteq> 0"
    and fits: "rp_payload_offset p + rp_payload_size p + unat n \<le> Packet_capacity p"
      "rp_payload_offset p + rp_payload_size p + unat n < 2 ^ 16"
  shows "\<exists>q r'. SetPadding fresh n r p = Some (True, q, r') \<and> r' \<noteq> 0 \<and> packet_inv q \<and> Packet_capacity q = Packet_capacity p \<and>
    packet_view q = (packet_view p)\<lparr>v_padding := n\<rparr>"
proof -
  obtain d r' where d: "SetPadding fresh n r p = Some (True, p\<lparr>rp_padding_size := n, rp_buffer := d\<rparr>, r')" "r' \<noteq> 0"
     "packet_inv (p\<lparr>rp_padding_size := n, rp_buffer := d\<rparr>)"
     "Packet_payload (p\<lparr>rp_padding_size := n, rp_buffer := d\<rparr>) = Packet_payload p"
     "Buffer_capacity d = Packet_capacity p" "same_headers (contents (rp_buffer p)) (contents d)"
    using SetPadding_ok [OF assms] by blast
  have "packet_view (p\<lparr>rp_padding_size := n, rp_buffer := d\<rparr>) = (packet_view p)\<lparr>v_padding := n\<rparr>"
    using same_headers_rest [OF inv, of "p\<lparr>rp_padding_size := n, rp_buffer := d\<rparr>"] d(4,6) by (simp add: packet_view_def)
  then show ?thesis using d(1-3,5) by (auto simp: Packet_capacity_def)
qed

lemma no_ext_values:
  assumes inv: "packet_inv p" and ext: "ext_block (contents (rp_buffer p)) = []"
  shows "ext_value p = (\<lambda>_. None)"
proof
  fix t
  show "ext_value p t = None"
  proof (cases "index_of (\<lambda>x. xe_type x = t) (rp_extension_entries p)")
    case None
    then show ?thesis by (simp add: ext_value_def find_index_of)
  next
    case (Some i)
    have i: "i < 14" using index_of_Some [OF Some] packet_inv_facts(2) [OF inv] by simp
    obtain xs where "path (ext_block (contents (rp_buffer p))) 0 (unat (rp_extensions_size p)) = Some xs"
      using packet_inv_facts(6) [OF inv] by (auto simp: layout_agrees_def ext_agrees_def)
    then have "xe_length (rp_extension_entries p ! i) = 0" using entry_element(3) [OF inv refl i refl] ext by auto
    then show ?thesis by (simp add: ext_value_set [OF Some] Let_def)
  qed
qed

definition empty_view :: rtp_view where
  "empty_view = \<lparr>v_marker = False, v_payload_type = 0, v_sequence_number = 0, v_timestamp = 0, v_ssrc = 0, v_csrcs = [],
     v_extensions = (\<lambda>_. None), v_payload = [], v_padding = 0\<rparr>"

lemma empty_packet_view:
  assumes inv: "packet_inv p" and D: "contents (rp_buffer p) = empty_packet"
  shows "packet_view p = empty_view" "rp_payload_size p = 0" "rp_padding_size p = 0" "\<not> has_ext (contents (rp_buffer p))"
proof -
  note facts = packet_inv_facts [OF inv, unfolded D]
  show size: "rp_payload_size p = 0" "rp_padding_size p = 0" and "\<not> has_ext (contents (rp_buffer p))"
    using facts(6) unfolding D by (simp_all add: layout_agrees_def empty_packet_layout has_ext_def)
  have "Packet_payload p = []" "csrc_list empty_packet = []"
    by (simp_all add: Packet_payload_def size csrc_list_def)
  moreover have "ext_value p = (\<lambda>_. None)" by (rule no_ext_values [OF inv]) (simp only: D empty_packet_layout)
  ultimately show "packet_view p = empty_view" using facts(5) size D
    by (simp add: packet_view_def empty_view_def hdr_agrees_def empty_packet_layout be_word_def numeral_eq_Suc)
qed

lemma clear_view:
  assumes "packet_inv p"
  shows "acts p (\<lambda>_. empty_view) (Packet_Clear fresh p)"
  using Packet_Clear_ok [of p fresh] packet_inv_capacity(1) [OF assms] packet_inv_facts(2) [OF assms] empty_packet_view
  unfolding acts_def by blast

lemma csrcs_view:
  assumes inv: "packet_inv p" and clean: "\<not> has_ext (contents (rp_buffer p))" "rp_payload_size p = 0" "rp_padding_size p = 0"
    and n: "length csrcs \<le> 15" "12 + 4 * length csrcs \<le> Packet_capacity p"
  shows "acts p (\<lambda>v. v\<lparr>v_csrcs := csrcs\<rparr>) (SetCsrcs fresh csrcs p)"
proof -
  let ?q = "\<lambda>b. p\<lparr>rp_payload_offset := 12 + 4 * length csrcs, rp_buffer := b\<rparr>"
  obtain b where b: "SetCsrcs fresh csrcs p = Some (?q b)" "packet_inv (?q b)" "csrc_list (contents b) = csrcs"
     "\<not> has_ext (contents b)" "Buffer_capacity b = Packet_capacity p"
    using SetCsrcs_ok [OF assms] by blast
  have "ext_value (?q b) = ext_value p"
    using no_ext_values [OF inv] no_ext_values [OF b(2)] clean(1) b(4) by (simp add: ext_block_def)
  then have "packet_view (?q b) = (packet_view p)\<lparr>v_csrcs := csrcs\<rparr>"
    using b(3) clean(2) by (simp add: packet_view_def Packet_payload_def)
  then show ?thesis using b by (auto simp: acts_def Packet_capacity_def)
qed

lemma copy_header_view:
  assumes "allocates fresh" and inv: "packet_inv s" and pad: "rp_padding_size s = 0" and cap: "headers_size s \<le> Packet_capacity p"
  shows "\<exists>q. CopyHeaderFrom fresh s p = Some q \<and> packet_inv q \<and> Packet_capacity p \<le> Packet_capacity q \<and>
     map xe_type (rp_extension_entries q) = map xe_type (rp_extension_entries s) \<and>
     packet_view q = (packet_view s)\<lparr>v_payload := []\<rparr>"
proof -
  let ?q = "\<lambda>b. s\<lparr>rp_payload_size := 0, rp_buffer := b\<rparr>" and ?D = "contents (rp_buffer s)"
  obtain b where b: "CopyHeaderFrom fresh s p = Some (?q b)" "packet_inv (?q b)" "contents b = take (headers_size s) ?D"
    using CopyHeaderFrom_ok [OF assms] by blast
  have he: "headers_size s = hdr_end ?D" "hdr_end ?D \<le> length ?D"
    using packet_inv_facts(4,6) [OF inv] by (auto simp: headers_size_def layout_agrees_def rtp_valid_def)
  have "same_headers ?D (contents b)" by (rule same_headers_take) (simp_all add: b(3) he)
  then have "packet_view (?q b) = (packet_view s)\<lparr>v_payload := []\<rparr>"
    using same_headers_rest [OF inv, of "?q b"] pad by (simp add: packet_view_def Packet_payload_def)
  moreover have "Packet_capacity p \<le> Packet_capacity (?q b)"
  proof -
    have "b = Buffer_SetData fresh (take (headers_size s) (data_from s 0)) (rp_buffer p)"
      using arg_cong [OF b(1), of "\<lambda>r. rp_buffer (the r)"] cap by (simp add: CopyHeaderFrom_def)
    then show ?thesis using Buffer_SetData_ok(3) [OF assms(1)] by (simp add: Packet_capacity_def)
  qed
  ultimately show ?thesis using b by auto
qed

section \<open>Parsing what was built\<close>

lemma parse_view:
  assumes fresh: "allocates fresh" and inv: "packet_inv p"
    and types: "map xe_type (rp_extension_entries r) = map xe_type (rp_extension_entries p)"
  shows "\<exists>q. Packet_Parse fresh (contents (rp_buffer p)) r = Some (True, q) \<and> packet_inv q \<and>
     contents (rp_buffer q) = contents (rp_buffer p) \<and> packet_view q = packet_view p"
proof -
  let ?D = "contents (rp_buffer p)"
  note facts = packet_inv_facts [OF inv]
  have len: "length (rp_extension_entries r) = 14" using types_length [OF types] facts(2) by simp
  obtain b where b: "Packet_Parse fresh ?D r = Some (True, (parsed ?D r)\<lparr>rp_buffer := b\<rparr>)" "contents b = ?D"
     "packet_inv ((parsed ?D r)\<lparr>rp_buffer := b\<rparr>)"
    using Packet_Parse_valid [OF fresh facts(4,3) len] by blast
  let ?q = "(parsed ?D r)\<lparr>rp_buffer := b\<rparr>"
  have entries: "rp_extension_entries (parsed ?D r) = rp_extension_entries (parsed ?D p)"
    using clear_entries_cong [OF types] by (simp add: parsed_def)
  have self: "parsed ?D p = p\<lparr>rp_extensions_size := rp_extensions_size (parsed ?D p)\<rparr>"
    by (rule parsed_self [OF facts(5,6)])
  have e: "rp_extension_entries ?q = rp_extension_entries p"
    using entries arg_cong [OF self, of rp_extension_entries] by simp
  have f: "f (parsed ?D r) = f p" if "f (parsed ?D r) = f (parsed ?D p)" "\<And>x. f (p\<lparr>rp_extensions_size := x\<rparr>) = f p" for f :: "rtp_packet \<Rightarrow> 'a"
    using that self by metis
  have ps: "rp_payload_offset (parsed ?D r) = rp_payload_offset p" "rp_payload_size (parsed ?D r) = rp_payload_size p"
    by (rule f; simp add: parsed_def)+
  have "rp_marker ?q = rp_marker p" "rp_payload_type ?q = rp_payload_type p" "rp_sequence_number ?q = rp_sequence_number p"
    "rp_timestamp ?q = rp_timestamp p" "rp_ssrc ?q = rp_ssrc p" "rp_padding_size ?q = rp_padding_size p"
    using facts(5,6) by (simp_all add: parsed_def hdr_agrees_def layout_agrees_def)
  moreover have "ext_value ?q = ext_value p" using e b(2) by (intro ext) (simp add: ext_value_def split: option.splits)
  moreover have "Packet_payload ?q = Packet_payload p"
    using inv_payload [OF inv] inv_payload [OF b(3)] ps b(2) by simp
  ultimately have "packet_view ?q = packet_view p" using b(2) by (simp add: packet_view_def)
  then show ?thesis using b by auto
qed

text \<open>A write through the pointer that \<open>AllocatePayload\<close> returns.\<close>

lemma payload_write_view:
  assumes inv: "packet_inv p" and at: "k + length bs \<le> rp_payload_size p"
  shows "acts p (\<lambda>v. v\<lparr>v_payload := splice_at k bs (v_payload v)\<rparr>) (WriteAt (rp_payload_offset p + k) bs p)"
proof -
  let ?D = "contents (rp_buffer p)"
  note facts = packet_inv_facts [OF inv] and cap = packet_inv_capacity [OF inv]
  define po where "po = rp_payload_offset p"
  have he: "hdr_end ?D = po" "po + rp_payload_size p + unat (rp_padding_size p) = length ?D"
    using facts(6) layout_agrees_size [OF facts(6)] by (simp_all add: layout_agrees_def po_def)
  obtain b where b: "WriteAt (po + k) bs p = Some (p\<lparr>rp_buffer := b\<rparr>)" "Buffer_IsConsistent b" "contents b = splice_at (po + k) bs ?D"
    "Buffer_capacity b = Packet_capacity p"
    using WriteAt_inside [OF facts(1), of "po + k" bs] at he cap(3) by (auto simp: po_def)
  have len: "length (contents b) = length ?D" using b(3) at he(2) by simp
  have fit: "po + k + length bs \<le> length ?D" using at he(2) by linarith
  have nth: "contents b ! i = (if po + k \<le> i \<and> i < po + k + length bs then bs ! (i - (po + k)) else ?D ! i)" if "i < length ?D" for i
    using nth_splice_at [OF fit that] by (simp add: b(3))
  have po12: "12 \<le> po" using he(1) by (simp add: hdr_end_def csrc_end_def flip: he(1))
  have "take po (contents b) = take po ?D" using b(3) fit by (simp add: take_splice_at_before)
  then have same: "same_headers ?D (contents b)" "has_pad (contents b) = has_pad ?D"
    using same_headers_take [of ?D "contents b"] he len by simp_all
  have pad: "rp_padding_size p = (if has_pad ?D then ?D ! (length ?D - 1) else 0)" "has_pad ?D \<longrightarrow> rp_padding_size p \<noteq> 0"
    using facts(4,6) by (auto simp: layout_agrees_def rtp_valid_def pad_len_def)
  have last: "contents b ! (length ?D - 1) = ?D ! (length ?D - 1)" if "has_pad ?D"
  proof -
    have "0 < unat (rp_padding_size p)" using pad(2) that by (simp add: unat_gt_0)
    then have "length ?D - 1 < length ?D" "\<not> length ?D - 1 < po + k + length bs" using at he(2) by linarith+
    then show ?thesis using nth [of "length ?D - 1"] by (simp del: One_nat_def)
  qed
  have "packet_inv (p\<lparr>rp_payload_size := rp_payload_size p, rp_padding_size := rp_padding_size p, rp_buffer := b\<rparr>)"
    using b(2) same facts(3) len he last pad by (intro resize_inv [OF inv refl]) (simp_all del: One_nat_def)
  then have inv': "packet_inv (p\<lparr>rp_buffer := b\<rparr>)" by simp
  have "Packet_payload (p\<lparr>rp_buffer := b\<rparr>) = splice_at k bs (Packet_payload p)"
    using at he(2) nth len by (intro nth_equalityI) (auto simp: inv_payload [OF inv] inv_payload [OF inv'] po_def [symmetric] nth_splice_at)
  then have "packet_view (p\<lparr>rp_buffer := b\<rparr>) = (packet_view p)\<lparr>v_payload := splice_at k bs (Packet_payload p)\<rparr>"
    using same_headers_rest [OF inv, of "p\<lparr>rp_buffer := b\<rparr>"] same(1) by (simp add: packet_view_def)
  then show ?thesis using b(1,4) inv' by (simp add: acts_def po_def Packet_capacity_def packet_view_def)
qed

section \<open>Calls that return\<close>

lemma WriteAt_Some:
  assumes "WriteAt off bs p = Some q"
  shows "off + length bs \<le> Packet_capacity p" "Packet_capacity q = Packet_capacity p"
  using assms by (auto simp: WriteAt_def Buffer_write_def Packet_capacity_def Buffer_capacity_def split: if_splits)

lemma append_needs:
  assumes inv: "packet_inv p" and cap: "Packet_capacity p < 2 ^ 16"
    and idx: "index_of (\<lambda>x. xe_type x = t) (rp_extension_entries p) = Some i" "xe_length (rp_extension_entries p ! i) = 0"
    and run: "AllocateExtension fresh t len p = Some (Some off, q)"
  shows "can_append t i len p"
proof -
  define D where "D = contents (rp_buffer p)"
  define c where "c = csrc_end D"
  define es where "es = unat (rp_extensions_size p)"
  have b0: "data_at p 0 = Some (D ! 0)" using data_at_inv [OF inv, of 0] packet_inv_facts(7) [OF inv] by (simp add: D_def)
  have n: "kFixedHeaderSize + unat (D ! 0 AND 0x0F) * 4 = c" by (simp add: c_def csrc_end_def)
  have nes: "rp_extensions_size p + 1 + ucast len = of_nat (es + 1 + unat len)" by (simp add: es_def)
  have none: "rp_payload_size p = 0" "rp_padding_size p = 0"
    using run idx by (auto simp: AllocateExtension_def Let_def word_gt_0 split: if_splits)
  have len: "0 < len \<and> len \<le> 16" using run idx none by (auto simp: AllocateExtension_def Let_def split: if_splits)
  note alloc = AllocateExtension_def idx option.case Let_def b0 es_def [symmetric] nes none
  have fits: "\<not> Packet_capacity p < c + 4 + es + 1 + unat len"
  proof
    assume "Packet_capacity p < c + 4 + es + 1 + unat len"
    then show False using run unfolding alloc Option.bind.bind_lunit n using len by simp
  qed
  have sz: "es + 1 + unat len < 2 ^ 16" "(es + 1 + unat len + 3) div 4 < 2 ^ 16" using fits cap by auto
  have u: "unat (of_nat (es + 1 + unat len) :: uint16) = es + 1 + unat len"
    "unat (of_nat ((es + 1 + unat len + 3) div 4) :: uint16) = (es + 1 + unat len + 3) div 4"
    using unat16 [OF sz(1)] unat16 [OF sz(2)] .
  let ?start = "if es = 0 then (if rp_payload_offset p \<noteq> c then None
      else WriteAt 0 [D ! 0 OR 0x10] p \<bind> WriteAt (c + 4 - 4) (WriteBigEndian 2 kOneByteExtensionId)) else Some p"
  let ?k = "4 * ((es + 1 + unat len + 3) div 4)"
  obtain p1 p2 p3 p4 off2 bs2 off3 bs3 f where w: "?start = Some p1" "WriteAt off2 bs2 p1 = Some p2" "WriteAt off3 bs3 (f p2) = Some p3"
    "Packet_capacity (f p2) = Packet_capacity p2"
    "WriteAt (c + 4 + (es + 1 + unat len)) (replicate (size_sub ?k (es + 1 + unat len)) 0) p3 = Some p4"
    using run unfolding alloc Option.bind.bind_lunit n u if_not_P [OF fits] using len
    by (auto simp: Option.bind_eq_Some_conv Packet_capacity_def simp del: of_nat_add of_nat_Suc split: if_splits)
  have "Packet_capacity p1 = Packet_capacity p"
    using w(1) by (auto simp: Option.bind_eq_Some_conv split: if_splits) (metis WriteAt_Some(2))
  then have "Packet_capacity p3 = Packet_capacity p" using WriteAt_Some(2) [OF w(2)] WriteAt_Some(2) [OF w(3)] w(4) by simp
  then have room: "c + 4 + ?k \<le> Packet_capacity p"
    using WriteAt_Some(1) [OF w(5)] ceil4(1) [of "es + 1 + unat len"] by simp
  have "rp_payload_offset p = hdr_end D" using packet_inv_facts(6) [OF inv] by (simp add: layout_agrees_def D_def)
  then have "rp_extensions_size p \<noteq> 0 \<or> \<not> has_ext D"
    using w(1) by (auto simp: es_def hdr_end_def c_def split: if_splits)
  then show ?thesis using inv idx none len cap room by (simp add: can_append_def D_def c_def es_def)
qed

lemma AllocateExtension_cases:
  assumes inv: "packet_inv p" and cap: "Packet_capacity p < 2 ^ 16" and run: "AllocateExtension fresh t len p = Some (r, q)"
  shows "r = None \<and> q = p \<or> can_set t len p"
proof (cases "index_of (\<lambda>x. xe_type x = t) (rp_extension_entries p)")
  case None
  then show ?thesis using run by (simp add: AllocateExtension_def)
next
  case (Some i)
  show ?thesis
  proof (cases "xe_length (rp_extension_entries p ! i) = 0")
    case False
    then show ?thesis using run Some inv by (auto simp: AllocateExtension_def can_set_def Let_def split: if_splits)
  next
    case True
    show ?thesis
    proof (cases r)
      case r: (Some off)
      then show ?thesis using append_needs [OF inv cap Some True] run inv Some by (simp add: can_set_def)
    next
      case None
      then show ?thesis using run Some True by (auto simp: AllocateExtension_def Let_def Option.bind_eq_Some_conv split: if_splits)
    qed
  qed
qed

text \<open>A call of \<open>SetExtension\<close> that returns either did nothing or set the value.\<close>

lemma SetExtension_returns:
  assumes inv: "packet_inv p" and cap: "Packet_capacity p < 2 ^ 16" and bs: "length bs = unat len"
    and run: "SetExtension fresh t len (Some bs) p = Some (ok, q)"
  shows "packet_inv q \<and> Packet_capacity q = Packet_capacity p \<and>
     packet_view q = (if ok then (packet_view p)\<lparr>v_extensions := (ext_value p)(t \<mapsto> bs)\<rparr> else packet_view p)"
proof -
  obtain r p' where alloc: "AllocateExtension fresh t len p = Some (r, p')" using run by (auto simp: SetExtension_def Option.bind_eq_Some_conv)
  from AllocateExtension_cases [OF inv cap alloc] show ?thesis
  proof
    assume "r = None \<and> p' = p"
    then show ?thesis using run alloc inv by (auto simp: SetExtension_def)
  next
    assume "can_set t len p"
    then show ?thesis using SetExtension_view [OF _ bs, of t p fresh] run by auto
  qed
qed

section \<open>Packets that the operations build\<close>

text \<open>
  Every call of the interface, with the conditions under which the class may be used: buffers and
  capacities of less than 64 kB, an extension value of the announced length, no sources set behind an
  extension header, no header copied from a padded packet.
\<close>

inductive packet_reachable :: "allocator \<Rightarrow> rtp_packet \<Rightarrow> bool" for fresh where
  created: "Packet_new fresh m capacity = Some p \<Longrightarrow> capacity < 2 ^ 16 \<Longrightarrow> packet_reachable fresh p"
| identified: "packet_reachable fresh p \<Longrightarrow> IdentifyExtensions m p = Some q \<Longrightarrow> packet_reachable fresh q"
| received: "packet_reachable fresh p \<Longrightarrow> length buf < 2 ^ 16 \<Longrightarrow> Packet_Parse fresh buf p = Some (ok, q) \<Longrightarrow>
    Packet_capacity q < 2 ^ 16 \<Longrightarrow> packet_reachable fresh q"
| received_buffer: "packet_reachable fresh p \<Longrightarrow> Buffer_IsConsistent b \<Longrightarrow> Buffer_capacity b < 2 ^ 16 \<Longrightarrow>
    Packet_ParseCow fresh b p = Some (ok, q) \<Longrightarrow> packet_reachable fresh q"
| cleared: "packet_reachable fresh p \<Longrightarrow> Packet_Clear fresh p = Some q \<Longrightarrow> packet_reachable fresh q"
| copied: "packet_reachable fresh p \<Longrightarrow> packet_reachable fresh s \<Longrightarrow> rp_padding_size s = 0 \<Longrightarrow>
    CopyHeaderFrom fresh s p = Some q \<Longrightarrow> Packet_capacity q < 2 ^ 16 \<Longrightarrow> packet_reachable fresh q"
| marked: "packet_reachable fresh p \<Longrightarrow> SetMarker flag p = Some q \<Longrightarrow> packet_reachable fresh q"
| typed: "packet_reachable fresh p \<Longrightarrow> SetPayloadType t p = Some q \<Longrightarrow> packet_reachable fresh q"
| numbered: "packet_reachable fresh p \<Longrightarrow> SetSequenceNumber seq p = Some q \<Longrightarrow> packet_reachable fresh q"
| timed: "packet_reachable fresh p \<Longrightarrow> SetTimestamp ts p = Some q \<Longrightarrow> packet_reachable fresh q"
| sourced: "packet_reachable fresh p \<Longrightarrow> SetSsrc ssrc p = Some q \<Longrightarrow> packet_reachable fresh q"
| contributed: "packet_reachable fresh p \<Longrightarrow> \<not> has_ext (contents (rp_buffer p)) \<Longrightarrow> SetCsrcs fresh csrcs p = Some q \<Longrightarrow>
    packet_reachable fresh q"
| extended: "packet_reachable fresh p \<Longrightarrow> length bs = unat len \<Longrightarrow> SetExtension fresh ty len (Some bs) p = Some (ok, q) \<Longrightarrow>
    packet_reachable fresh q"
| reserved: "packet_reachable fresh p \<Longrightarrow> ReserveExtension fresh ty len p = Some (ok, q) \<Longrightarrow> packet_reachable fresh q"
| allocated: "packet_reachable fresh p \<Longrightarrow> AllocatePayload fresh n p = Some (at, q) \<Longrightarrow> packet_reachable fresh q"
| written: "packet_reachable fresh p \<Longrightarrow> k + length bs \<le> rp_payload_size p \<Longrightarrow> WriteAt (rp_payload_offset p + k) bs p = Some q \<Longrightarrow>
    packet_reachable fresh q"
| shortened: "packet_reachable fresh p \<Longrightarrow> SetPayloadSize fresh n p = Some q \<Longrightarrow> packet_reachable fresh q"
| padded: "packet_reachable fresh p \<Longrightarrow> random \<noteq> 0 \<Longrightarrow> SetPadding fresh size_bytes random p = Some (ok, q, random') \<Longrightarrow>
    packet_reachable fresh q"

definition packet_ok :: "rtp_packet \<Rightarrow> bool" where
  "packet_ok p \<longleftrightarrow> packet_inv p \<and> Packet_capacity p < 2 ^ 16"

lemma acts_ok: "acts p f (Some q) \<Longrightarrow> packet_ok p \<Longrightarrow> packet_ok q"
  by (auto simp: acts_def packet_ok_def)

text \<open>After a failed parse the packet is cleared.\<close>

lemma rejected_ok:
  assumes ok: "packet_ok p" and run: "(do { (ok, p) \<leftarrow> ParseBuffer D p; if ok then g p else do { p \<leftarrow> Packet_Clear fresh p; Some (False, p) } }) = Some (res, q)"
    and D: "\<not> rtp_valid D" "length D < 2 ^ 16"
  shows "packet_ok q"
proof -
  obtain r where r: "ParseBuffer D p = Some (False, r)" "rp_buffer r = rp_buffer p"
    "map xe_type (rp_extension_entries r) = map xe_type (rp_extension_entries p)"
    using ParseBuffer_invalid [OF D, of p] by (auto simp: rejected_def)
  have inv: "packet_inv p" using ok by (simp add: packet_ok_def)
  have cap: "Packet_capacity r = Packet_capacity p" "length (rp_extension_entries r) = 14"
    using r(2) types_length [OF r(3)] packet_inv_facts(2) [OF inv] by (simp_all add: Packet_capacity_def)
  then show ?thesis using Packet_Clear_ok [of r fresh] r(1) run ok packet_inv_capacity(1) [OF inv] by (auto simp: packet_ok_def)
qed

lemma parse_ok:
  assumes fresh: "allocates fresh" and ok: "packet_ok p" and len: "length buf < 2 ^ 16"
    and run: "Packet_Parse fresh buf p = Some (res, q)" "Packet_capacity q < 2 ^ 16"
  shows "packet_ok q"
proof (cases "rtp_valid buf")
  case True
  have "length (rp_extension_entries p) = 14" using ok packet_inv_facts(2) by (simp add: packet_ok_def)
  then show ?thesis using Packet_Parse_valid [OF fresh True len, of p] run by (auto simp: packet_ok_def)
next
  case False
  show ?thesis by (rule rejected_ok [OF ok run(1) [unfolded Packet_Parse_def] False len])
qed

lemma parse_cow_ok:
  assumes ok: "packet_ok p" and b: "Buffer_IsConsistent b" "Buffer_capacity b < 2 ^ 16"
    and run: "Packet_ParseCow fresh b p = Some (res, q)"
  shows "packet_ok q"
proof -
  have len: "length (contents b) < 2 ^ 16" using b by (simp add: buffer_defs)
  show ?thesis
  proof (cases "rtp_valid (contents b)")
    case True
    have "length (rp_extension_entries p) = 14" using ok packet_inv_facts(2) by (simp add: packet_ok_def)
    then show ?thesis using Packet_ParseCow_eq [OF b(1) len _ True, of p] run b(2) by (auto simp: packet_ok_def Packet_capacity_def)
  next
    case False
    show ?thesis by (rule rejected_ok [OF ok run [unfolded Packet_ParseCow_def] False len])
  qed
qed

lemma allocate_payload_ok:
  assumes ok: "packet_ok p" and run: "AllocatePayload fresh n p = Some (at, q)"
  shows "packet_ok q"
proof -
  have pad: "rp_padding_size p = 0" using run by (auto simp: AllocatePayload_def split: if_splits)
  show ?thesis
  proof (cases "rp_payload_offset p + n \<le> Packet_capacity p")
    case True
    then show ?thesis using payload_views(1) [of p n fresh] pad ok run by (auto simp: packet_ok_def)
  next
    case False
    then show ?thesis using run pad ok by (simp add: AllocatePayload_def)
  qed
qed

lemma padding_ok:
  assumes ok: "packet_ok p" and r: "r \<noteq> 0" and run: "SetPadding fresh n r p = Some (res, q, r')"
  shows "packet_ok q"
proof (cases "rp_payload_offset p + rp_payload_size p + unat n \<le> Packet_capacity p")
  case True
  then show ?thesis using padding_view [of p r n fresh] ok r run by (auto simp: packet_ok_def)
next
  case False
  then show ?thesis using run ok by (simp add: SetPadding_def)
qed

lemma csrcs_ok:
  assumes ok: "packet_ok p" and ext: "\<not> has_ext (contents (rp_buffer p))" and run: "SetCsrcs fresh csrcs p = Some q"
  shows "packet_ok q"
proof -
  have "rp_payload_size p = 0" "rp_padding_size p = 0" "length csrcs \<le> 15" "12 + 4 * length csrcs \<le> Packet_capacity p"
    using run by (auto simp: SetCsrcs_def split: if_splits)
  then show ?thesis using acts_ok [OF csrcs_view [of p csrcs fresh, unfolded run]] ok ext by (auto simp: packet_ok_def)
qed

lemma reachable_ok:
  assumes fresh: "allocates fresh" and reach: "packet_reachable fresh p"
  shows "packet_ok p"
  using reach
proof induction
  case (created m capacity p)
  have "12 \<le> capacity" using created(1) by (auto simp: Packet_new_def split: if_splits)
  then show ?case using Packet_new_ok [OF fresh, of capacity m] created by (auto simp: packet_ok_def)
next
  case (identified p m q)
  then show ?case using IdentifyExtensions_ok [of p m] by (auto simp: packet_ok_def Packet_capacity_def)
next
  case (received p buf ok q)
  then show ?case using parse_ok [OF fresh] by blast
next
  case (received_buffer p b ok q)
  then show ?case using parse_cow_ok by blast
next
  case (copied p s q)
  have "headers_size s \<le> Packet_capacity p" using copied.hyps(4) by (auto simp: CopyHeaderFrom_def split: if_splits)
  then show ?case using copy_header_view [OF fresh, of s p] copied by (auto simp: packet_ok_def)
next
  case (cleared p q)
  then show ?case using acts_ok clear_view [of p fresh] by (auto simp: packet_ok_def [of p])
next
  case (typed p t q)
  have "t \<le> 0x7f" using typed.hyps(2) by (auto simp: SetPayloadType_def split: if_splits)
  then show ?case using acts_ok [OF header_setters_act(2) [of p t, unfolded typed.hyps(2)]] typed.IH by (simp add: packet_ok_def)
next
  case (extended p bs len ty ok q)
  then show ?case using SetExtension_returns [of p bs len fresh ty ok q] by (auto simp: packet_ok_def)
next
  case (reserved p ty len ok q)
  then show ?case using SetExtension_returns [of p "replicate (unat len) 0" len fresh ty ok q]
    by (auto simp: packet_ok_def ReserveExtension_Set)
next
  case (allocated p n at q)
  then show ?case using allocate_payload_ok by blast
next
  case (written p k bs q)
  then show ?case using acts_ok [of p _ q] payload_write_view [of p k bs] by (auto simp: packet_ok_def [of p])
next
  case (shortened p n q)
  have "rp_padding_size p = 0" "n \<le> rp_payload_size p" using shortened.hyps(2) by (auto simp: SetPayloadSize_def split: if_splits)
  then show ?case using acts_ok [of p _ q] payload_views(2) [of p n fresh] shortened by (auto simp: packet_ok_def [of p])
next
  case (padded p random size_bytes ok q random')
  then show ?case using padding_ok by blast
next
  case (contributed p csrcs q)
  then show ?case using csrcs_ok by blast
qed (metis acts_ok header_setters_act packet_ok_def)+

end
