(* ===== verification/RtpPacketReach.thy ===== *)
theory RtpPacketReach
  imports RtpPacketView
begin

text \<open>
  The properties of \<open>rtp::Packet\<close> for packets that the interface can build, and the calls on which
  the class breaks its own contract.
\<close>

section \<open>Examples\<close>

abbreviation (input) zeros :: allocator where "zeros \<equiv> (\<lambda>n. replicate n 0)"

definition example_start :: "nat \<Rightarrow> rtp_packet option" where
  "example_start capacity = do {
     (_, m) \<leftarrow> RegisterByType 3 kRtpExtensionTransportSequenceNumber ExtensionMap_new;
     Packet_new zeros (Some m) capacity }"

definition example_packet :: "rtp_packet option" where
  "example_packet = do {
     p \<leftarrow> example_start 32;
     p \<leftarrow> SetPayloadType 96 p;
     p \<leftarrow> SetSequenceNumber 7 p;
     (_, p) \<leftarrow> SetExtension zeros kRtpExtensionTransportSequenceNumber 2 (Some [0x12, 0x34]) p;
     (_, p) \<leftarrow> AllocatePayload zeros 2 p;
     p \<leftarrow> (if 0 + length [1, 2 :: byte] \<le> rp_payload_size p then WriteAt (rp_payload_offset p + 0) [1, 2] p else None);
     (_, p, _) \<leftarrow> SetPadding zeros 3 1 p;
     Some p }"

definition example_bytes :: "byte list" where
  "example_bytes = [0xb0, 96, 0, 7, 0, 0, 0, 0, 0, 0, 0, 0, 0xBE, 0xDE, 0, 1, 0x31, 0x12, 0x34, 0, 1, 2, 29, 29, 3]"

lemma example_runs: "map_option (contents \<circ> rp_buffer) example_packet = Some example_bytes"
  by code_simp

lemma example_packet_reachable:
  "\<exists>p. example_packet = Some p \<and> packet_reachable zeros p \<and> contents (rp_buffer p) = example_bytes"
proof -
  obtain p where p: "example_packet = Some p" "contents (rp_buffer p) = example_bytes"
    using example_runs by (auto simp: map_option_case split: option.splits)
  obtain m p1 p2 p3 p4 p5 p6 at1 at2 ok1 r1 where run: "Packet_new zeros (Some m) 32 = Some p1" "SetPayloadType 96 p1 = Some p2"
    "SetSequenceNumber 7 p2 = Some p3" "SetExtension zeros kRtpExtensionTransportSequenceNumber 2 (Some [0x12, 0x34]) p3 = Some (at1, p4)"
    "AllocatePayload zeros 2 p4 = Some (at2, p5)" "0 + length [1, 2 :: byte] \<le> rp_payload_size p5" "WriteAt (rp_payload_offset p5 + 0) [1, 2] p5 = Some p6"
    "SetPadding zeros 3 1 p6 = Some (ok1, p, r1)"
    using p(1) unfolding example_packet_def example_start_def by (auto simp: Option.bind_eq_Some_conv split: if_splits)
  have "packet_reachable zeros p1" by (rule created [OF run(1)]) simp
  then have "packet_reachable zeros p3" using run(2,3) by (blast intro: typed numbered)
  then have "packet_reachable zeros p4" by (rule extended [OF _ _ run(4)]) simp
  then have "packet_reachable zeros p6" using run(5-7) by (blast intro: allocated written)
  then have "packet_reachable zeros p" by (rule padded [OF _ _ run(8)]) simp
  then show ?thesis using p by auto
qed

lemma example_start_empty:
  "\<exists>p. example_start 32 = Some p \<and> packet_inv p \<and> contents (rp_buffer p) = empty_packet \<and>
     can_set kRtpExtensionTransportSequenceNumber 2 p"
proof -
  have "map_option fst (RegisterByType 3 kRtpExtensionTransportSequenceNumber ExtensionMap_new) = Some True" by code_simp
  then obtain m where m: "RegisterByType 3 kRtpExtensionTransportSequenceNumber ExtensionMap_new = Some (True, m)" by auto
  obtain p where p: "example_start 32 = Some p" "packet_inv p" "contents (rp_buffer p) = empty_packet" "Packet_capacity p = 32"
    using Packet_new_ok [OF allocates_zeros, of 32 "Some m"] by (auto simp: example_start_def m)
  have "map_option (\<lambda>p. (index_of (\<lambda>x. xe_type x = kRtpExtensionTransportSequenceNumber) (rp_extension_entries p),
      xe_length (rp_extension_entries p ! 2), rp_extensions_size p)) (example_start 32) = Some (Some 2, 0, 0)"
    by code_simp
  then have "can_append kRtpExtensionTransportSequenceNumber 2 2 p"
    using p empty_packet_view [OF p(2,3)] empty_packet_layout by (auto simp: can_append_def)
  then show ?thesis using p by (auto simp: can_set_def can_append_def)
qed

section \<open>Packets that were built\<close>





text \<open>
  C7. The setters of a packet built by any sequence of calls change what their name says and nothing
  else that a user can see: marker, payload type, sequence number, timestamp, source, contributing
  sources, padding and payload size. They keep the invariant and the capacity.
\<close>

theorem Packet_setters_refine:
  assumes "allocates fresh" "packet_reachable fresh p"
  shows "acts p (\<lambda>v. v\<lparr>v_marker := m\<rparr>) (SetMarker m p) \<and>
    (t \<le> 0x7f \<longrightarrow> acts p (\<lambda>v. v\<lparr>v_payload_type := t\<rparr>) (SetPayloadType t p)) \<and>
    acts p (\<lambda>v. v\<lparr>v_sequence_number := seq\<rparr>) (SetSequenceNumber seq p) \<and>
    acts p (\<lambda>v. v\<lparr>v_timestamp := ts\<rparr>) (SetTimestamp ts p) \<and>
    acts p (\<lambda>v. v\<lparr>v_ssrc := ssrc\<rparr>) (SetSsrc ssrc p) \<and>
    acts p (\<lambda>_. empty_view) (Packet_Clear fresh p) \<and>
    (\<not> has_ext (contents (rp_buffer p)) \<and> rp_payload_size p = 0 \<and> rp_padding_size p = 0 \<and> length csrcs \<le> 15 \<and>
       12 + 4 * length csrcs \<le> Packet_capacity p \<longrightarrow> acts p (\<lambda>v. v\<lparr>v_csrcs := csrcs\<rparr>) (SetCsrcs fresh csrcs p)) \<and>
    (rp_padding_size p = 0 \<and> n \<le> rp_payload_size p \<longrightarrow>
       acts p (\<lambda>v. v\<lparr>v_payload := take n (v_payload v)\<rparr>) (SetPayloadSize fresh n p)) \<and>
    (random \<noteq> 0 \<longrightarrow> (\<exists>q random'. if rp_payload_offset p + rp_payload_size p + unat k \<le> Packet_capacity p
       then SetPadding fresh k random p = Some (True, q, random') \<and> acts p (\<lambda>v. v\<lparr>v_padding := k\<rparr>) (Some q)
       else SetPadding fresh k random p = Some (False, p, random)))"
proof -
  have inv: "packet_inv p" and cap: "Packet_capacity p < 2 ^ 16" using reachable_ok [OF assms] by (simp_all add: packet_ok_def)
  have pad: "\<exists>q random'. if rp_payload_offset p + rp_payload_size p + unat k \<le> Packet_capacity p
       then SetPadding fresh k random p = Some (True, q, random') \<and> acts p (\<lambda>v. v\<lparr>v_padding := k\<rparr>) (Some q)
       else SetPadding fresh k random p = Some (False, p, random)" if "random \<noteq> 0"
  proof (cases "rp_payload_offset p + rp_payload_size p + unat k \<le> Packet_capacity p")
    case True
    then show ?thesis using padding_view [OF inv that True, of fresh] cap by (fastforce simp: acts_def)
  qed (simp add: SetPadding_def)
  show ?thesis using header_setters_act [OF inv] clear_view [OF inv] csrcs_view [OF inv] payload_views(2) [OF inv] pad by blast
qed

theorem Packet_setters_refine_witness:
  "\<exists>p. example_packet = Some p \<and> acts p (\<lambda>v. v\<lparr>v_payload_type := 8\<rparr>) (SetPayloadType 8 p)"
  using example_packet_reachable Packet_setters_refine [OF allocates_zeros, where t = 8] by fastforce

text \<open>The call writes the extension, changes nothing else, and \<open>GetExtension\<close> then returns \<open>shown\<close>.\<close>

definition stores :: "allocator \<Rightarrow> rtp_extension_type \<Rightarrow> byte \<Rightarrow> byte list option \<Rightarrow> (byte list \<Rightarrow> 'r option) \<Rightarrow> 'r \<Rightarrow> rtp_packet \<Rightarrow> bool" where
  "stores fresh t len written parse shown p \<longleftrightarrow> (\<exists>q bs. written = Some bs \<and> SetExtension fresh t len written p = Some (True, q) \<and>
     acts p (\<lambda>v. v\<lparr>v_extensions := (v_extensions v)(t \<mapsto> bs)\<rparr>) (Some q) \<and> GetExtension t len parse q = Some (Some shown))"

lemma storesI:
  assumes "\<exists>q bs. written = Some bs \<and> SetExtension fresh t len written p = Some (True, q) \<and> packet_inv q \<and>
     Packet_capacity q = Packet_capacity p \<and> packet_view q = (packet_view p)\<lparr>v_extensions := (ext_value p)(t \<mapsto> bs)\<rparr> \<and>
     GetExtension t len parse q = Some (Some shown)"
  shows "stores fresh t len written parse shown p"
proof -
  have "ext_value p = v_extensions (packet_view p)" by (simp add: packet_view_def)
  then show ?thesis using assms unfolding stores_def acts_def by metis
qed

text \<open>
  C8. A header extension of each of the six types, written with a valid value where it is registered and
  fits, is read back from the packet: absolute send time in units of 1/2^18 s modulo 64 s, audio level,
  transmission offset modulo 2^24, transport sequence number, rotation and playout delay in steps of
  10 ms. All other header fields, extensions and the payload are unchanged.
\<close>

theorem Packet_extension_roundtrip:
  "(can_set kRtpExtensionAbsoluteSendTime 3 p \<and> 0 \<le> time_ms \<and> time_ms < 2 ^ 44 \<longrightarrow>
      stores fresh kRtpExtensionAbsoluteSendTime 3 (AbsoluteSendTime_Write time_ms) AbsoluteSendTime_Parse
        (word_of_int ((time_ms * 262144 + 500) div 1000) AND 0x00FFFFFF) p) \<and>
   (can_set kRtpExtensionAudioLevel 1 p \<and> level \<le> 0x7f \<longrightarrow>
      stores fresh kRtpExtensionAudioLevel 1 (AudioLevel_Write (voice, level)) AudioLevel_Parse (voice, level) p) \<and>
   (can_set kRtpExtensionTransmissionTimeOffset 3 p \<and> offset \<le> 0xffffff \<longrightarrow>
      stores fresh kRtpExtensionTransmissionTimeOffset 3 (TransmissionOffset_Write offset) TransmissionOffset_Parse
        (signed_take_bit 23 offset) p) \<and>
   (can_set kRtpExtensionTransportSequenceNumber 2 p \<longrightarrow>
      stores fresh kRtpExtensionTransportSequenceNumber 2 (TransportSequenceNumber_Write seq) TransportSequenceNumber_Parse seq p) \<and>
   (can_set kRtpExtensionVideoRotation 1 p \<longrightarrow>
      stores fresh kRtpExtensionVideoRotation 1 (VideoOrientation_Write rotation) VideoOrientation_Parse rotation p) \<and>
   (can_set kRtpExtensionPlayoutDelay 3 p \<and> 0 \<le> min_ms d \<and> min_ms d \<le> max_ms d \<and> max_ms d \<le> 40950 \<longrightarrow>
      stores fresh kRtpExtensionPlayoutDelay 3 (PlayoutDelayLimits_Write d) PlayoutDelayLimits_Parse
        (Some \<lparr>min_ms = min_ms d - min_ms d mod 10, max_ms = max_ms d - max_ms d mod 10\<rparr>) p)"
proof (intro conjI impI; (elim conjE)?)
  assume "can_set kRtpExtensionAbsoluteSendTime 3 p" "0 \<le> time_ms" "time_ms < 2 ^ 44"
  then show "stores fresh kRtpExtensionAbsoluteSendTime 3 (AbsoluteSendTime_Write time_ms) AbsoluteSendTime_Parse
        (word_of_int ((time_ms * 262144 + 500) div 1000) AND 0x00FFFFFF) p"
    using val_absolute_send_time.Set_Get by (intro storesI) (simp add: ms_valid_def)
next
  assume "can_set kRtpExtensionAudioLevel 1 p" "level \<le> 0x7f"
  then show "stores fresh kRtpExtensionAudioLevel 1 (AudioLevel_Write (voice, level)) AudioLevel_Parse (voice, level) p"
    using val_audio_level.Set_Get [of _ p "(voice, level)"] by (intro storesI) simp
next
  assume "can_set kRtpExtensionTransmissionTimeOffset 3 p" "offset \<le> 0xffffff"
  then show "stores fresh kRtpExtensionTransmissionTimeOffset 3 (TransmissionOffset_Write offset) TransmissionOffset_Parse
        (signed_take_bit 23 offset) p"
    using val_transmission_offset.Set_Get by (intro storesI) simp
next
  assume "can_set kRtpExtensionTransportSequenceNumber 2 p"
  then show "stores fresh kRtpExtensionTransportSequenceNumber 2 (TransportSequenceNumber_Write seq) TransportSequenceNumber_Parse seq p"
    using val_transport_sequence_number.Set_Get by (intro storesI) simp
next
  assume "can_set kRtpExtensionVideoRotation 1 p"
  then show "stores fresh kRtpExtensionVideoRotation 1 (VideoOrientation_Write rotation) VideoOrientation_Parse rotation p"
    using val_video_orientation.Set_Get by (intro storesI) simp
next
  assume "can_set kRtpExtensionPlayoutDelay 3 p" "0 \<le> min_ms d" "min_ms d \<le> max_ms d" "max_ms d \<le> 40950"
  then show "stores fresh kRtpExtensionPlayoutDelay 3 (PlayoutDelayLimits_Write d) PlayoutDelayLimits_Parse
        (Some \<lparr>min_ms = min_ms d - min_ms d mod 10, max_ms = max_ms d - max_ms d mod 10\<rparr>) p"
    using val_playout_delay.Set_Get by (intro storesI) (simp add: playout_valid_def)
qed

theorem Packet_extension_roundtrip_witness:
  "\<exists>p. example_start 32 = Some p \<and> stores zeros kRtpExtensionTransportSequenceNumber 2 (TransportSequenceNumber_Write 0x1234)
     TransportSequenceNumber_Parse 0x1234 p"
  using example_start_empty Packet_extension_roundtrip by blast

lemma value_size_range:
  assumes inv: "packet_inv p" and v: "ext_value p t = Some bs"
  shows "length bs \<in> {1..16}"
proof -
  let ?D = "contents (rp_buffer p)"
  obtain i where i: "index_of (\<lambda>x. xe_type x = t) (rp_extension_entries p) = Some i"
    using v by (cases "index_of (\<lambda>x. xe_type x = t) (rp_extension_entries p)") (simp_all add: ext_value_def find_index_of)
  let ?x = "rp_extension_entries p ! i"
  have i14: "i < 14" using index_of_Some [OF i] packet_inv_facts(2) [OF inv] by simp
  have x: "xe_length ?x \<noteq> 0" "bs = take (unat (xe_length ?x)) (drop (unat (xe_offset ?x)) ?D)"
    using v by (auto simp: ext_value_set [OF i] Let_def split: if_splits)
  obtain xs where xs: "path (ext_block ?D) 0 (unat (rp_extensions_size p)) = Some xs"
    using packet_inv_facts(6) [OF inv] by (auto simp: layout_agrees_def ext_agrees_def)
  then obtain pos where "(i + 1, pos, unat (xe_length ?x)) \<in> set xs" using entry_element(1) [OF inv refl i14 refl x(1)] by blast
  then have "1 \<le> unat (xe_length ?x)" "unat (xe_length ?x) \<le> 16" using path_elements(5,6) [OF xs] by blast+
  then show ?thesis using value_bounds(3) [OF inv i14 refl x(1)] by (simp add: x(2))
qed



section \<open>Parsing received bytes\<close>

text \<open>
  C9. \<open>ParseBuffer\<close> returns on every buffer of less than 64 kB, without a read outside the buffer. It
  accepts exactly the buffers with version 2, room for sources, extension block and padding, and a
  padding length that is not zero, and then the packet has exactly the fields that the layout gives.
\<close>

theorem ParseBuffer_terminates:
  assumes "length buf < 2 ^ 16"
  shows "if rtp_valid buf then ParseBuffer buf p = Some (True, parsed buf p)
    else \<exists>q. ParseBuffer buf p = Some (False, q) \<and> rp_buffer q = rp_buffer p"
  using ParseBuffer_valid [OF _ assms] ParseBuffer_invalid [OF _ assms] by (auto simp: rejected_def)

theorem ParseBuffer_terminates_witness:
  "\<exists>p. example_packet = Some p \<and> ParseBuffer example_bytes p = Some (True, parsed example_bytes p)"
proof -
  have "rtp_valid example_bytes" by code_simp
  then show ?thesis using ParseBuffer_terminates [of example_bytes] example_packet_reachable by (auto simp: example_bytes_def)
qed

text \<open>
  C26. On a packet with a one byte extension block of more than 64 kB that starts with 64 kB of padding
  zeros \<open>ParseBuffer\<close> never returns, because \<open>extensions_size_\<close> has 16 bits and wraps around before it
  reaches the end of the block.
\<close>

theorem ParseBuffer_diverges:
  assumes "drop_bit 6 (buf ! 0) = 2" "has_ext buf" "\<not> has_pad buf" "ext_profile buf = kOneByteExtensionId"
    "2 ^ 16 < ext_bytes buf" "csrc_end buf + 4 + ext_bytes buf \<le> length buf" "\<forall>i < 2 ^ 16. buf ! (csrc_end buf + 4 + i) = 0"
  shows "ParseBuffer buf p = None"
proof -
  have c: "12 \<le> csrc_end buf" by (simp add: csrc_end_def)
  have bits: "(buf ! 0 AND 0x10 \<noteq> 0) = has_ext buf" "(buf ! 0 AND 0x20 \<noteq> 0) = has_pad buf"
    "12 + unat (buf ! 0 AND 0x0f) * 4 = csrc_end buf"
    by (simp_all add: has_ext_def has_pad_def csrc_end_def)
  have len: "12 \<le> length buf" "csrc_end buf \<le> length buf" "csrc_end buf + 4 \<le> length buf" using c assms(6) by linarith+
  have "ParseElements buf (csrc_end buf + 4) (ext_bytes buf) q = None" for q
    using assms(5-7) by (intro ParseElements_diverges) (simp_all add: byte_at_def)
  moreover have "byte_at buf 0 = Some (buf ! 0)" "byte_at buf 1 = Some (buf ! 1)"
    "ReadBigEndian 2 (drop 2 buf) = Some (be_word 2 (drop 2 buf) :: uint16)"
    "ReadBigEndian 4 (drop 4 buf) = Some (be_word 4 (drop 4 buf) :: uint32)"
    "ReadBigEndian 4 (drop 8 buf) = Some (be_word 4 (drop 8 buf) :: uint32)"
    "ReadBigEndian 2 (drop (csrc_end buf) buf) = Some (ext_profile buf)"
    "ReadBigEndian 2 (drop (csrc_end buf + 2) buf) = Some (be_word 2 (drop (csrc_end buf + 2) buf) :: uint16)"
    using len by (auto simp: byte_at_def ReadBigEndian_eq ext_profile_def)
  moreover have "unat (be_word 2 (drop (csrc_end buf + 2) buf) :: uint16) * 4 = ext_bytes buf" by (simp add: ext_bytes_def)
  ultimately show ?thesis using assms(1-4,6) len
    by (simp add: ParseBuffer_def bits Let_def del: One_nat_def add_2_eq_Suc add_2_eq_Suc')
qed

theorem ParseBuffer_diverges_witness:
  "\<forall>p. ParseBuffer ([0x90, 0, 0, 0, 0, 0, 0, 0, 0, 0, 0, 0, 0xBE, 0xDE, 0x40, 0x01] @ replicate 65540 0) p = None"
proof
  fix p
  define buf :: "byte list" where "buf = [0x90, 0, 0, 0, 0, 0, 0, 0, 0, 0, 0, 0, 0xBE, 0xDE, 0x40, 0x01] @ replicate 65540 0"
  have z: "buf ! (16 + i) = 0" if "i < 2 ^ 16" for i using that by (simp add: buf_def nth_append)
  have b0: "buf ! 0 = 0x90" and len: "length buf = 65556" by (simp_all add: buf_def)
  then have c: "csrc_end buf = 12" by (simp add: csrc_end_def)
  have "be_word 2 (drop 12 buf) = (be_word 2 [0xBE, 0xDE] :: uint16)" "be_word 2 (drop (12 + 2) buf) = (be_word 2 [0x40, 0x01] :: uint16)"
    by (rule be_word_cong, auto simp: less_2_cases_iff buf_def)+
  moreover have "be_word 2 [0xBE, 0xDE] = kOneByteExtensionId" "(be_word 2 [0x40, 0x01] :: uint16) = 16385" by code_simp+
  ultimately have "ext_profile buf = kOneByteExtensionId" "ext_bytes buf = 65540"
    by (simp_all add: ext_profile_def ext_bytes_def c)
  then have "ParseBuffer buf p = None"
    using b0 len z by (intro ParseBuffer_diverges) (simp_all add: c has_ext_def has_pad_def)
  then show "ParseBuffer ([0x90, 0, 0, 0, 0, 0, 0, 0, 0, 0, 0, 0, 0xBE, 0xDE, 0x40, 0x01] @ replicate 65540 0) p = None"
    by (simp only: buf_def)
qed

text \<open>
  C25. \<open>SetExtension\<close> writes behind the end of the buffer when the new element itself still fits but the
  zeros that fill up its last 32 bit word do not: the capacity check does not count them.
\<close>

theorem SetExtension_overrun:
  assumes "packet_inv p" "index_of (\<lambda>x. xe_type x = t) (rp_extension_entries p) = Some i" "xe_length (rp_extension_entries p ! i) = 0"
    "rp_payload_size p = 0" "rp_padding_size p = 0" "0 < len" "len \<le> 16" "Packet_capacity p < 2 ^ 16"
    "csrc_end (contents (rp_buffer p)) + 4 + unat (rp_extensions_size p) + 1 + unat len \<le> Packet_capacity p"
    "Packet_capacity p < csrc_end (contents (rp_buffer p)) + 4 + 4 * ((unat (rp_extensions_size p) + 1 + unat len + 3) div 4)"
  shows "SetExtension fresh t len written p = None"
proof -
  let ?D = "contents (rp_buffer p)"
  have b0: "data_at p 0 = Some (?D ! 0)" using data_at_inv [OF assms(1), of 0] packet_inv_facts(7) [OF assms(1)] by simp
  have "AllocateExtension fresh t len p \<noteq> Some (Some off, q)" for off q
    using append_needs [OF assms(1,8,2,3), of fresh len off q] assms(10) by (auto simp: can_append_def)
  moreover have "AllocateExtension fresh t len p \<noteq> Some (None, q)" for q
    using assms(2-9) by (auto simp: AllocateExtension_def b0 Let_def csrc_end_def Option.bind_eq_Some_conv split: if_splits)
  ultimately have "AllocateExtension fresh t len p = None" by (metis option.exhaust surj_pair)
  then show ?thesis by (simp add: SetExtension_def)
qed

theorem SetExtension_overrun_witness:
  "\<exists>p. example_start 19 = Some p \<and> SetExtension zeros kRtpExtensionTransportSequenceNumber 2 (Some [0x12, 0x34]) p = None"
proof -
  have "map_option fst (RegisterByType 3 kRtpExtensionTransportSequenceNumber ExtensionMap_new) = Some True" by code_simp
  then obtain m where m: "RegisterByType 3 kRtpExtensionTransportSequenceNumber ExtensionMap_new = Some (True, m)" by auto
  obtain p where p: "example_start 19 = Some p" "packet_inv p" "contents (rp_buffer p) = empty_packet" "Packet_capacity p = 19"
    using Packet_new_ok [OF allocates_zeros, of 19 "Some m"] by (auto simp: example_start_def m)
  have "map_option (\<lambda>p. (index_of (\<lambda>x. xe_type x = kRtpExtensionTransportSequenceNumber) (rp_extension_entries p),
      xe_length (rp_extension_entries p ! 2), rp_extensions_size p)) (example_start 19) = Some (Some 2, 0, 0)"
    by code_simp
  then have "SetExtension zeros kRtpExtensionTransportSequenceNumber 2 (Some [0x12, 0x34]) p = None"
    using p empty_packet_view [OF p(2,3)] empty_packet_layout by (intro SetExtension_overrun [where i = 2]) auto
  then show ?thesis using p(1) by blast
qed

section \<open>Where the class breaks its contract\<close>

text \<open>
  A header copied from a padded packet keeps the padding bit while the copy has no padding: the last byte
  of whatever follows is taken for a padding length.
\<close>

lemma CopyHeaderFrom_padding:
  assumes fresh: "allocates fresh" and inv: "packet_inv s" and pad: "rp_padding_size s \<noteq> 0" and cap: "headers_size s \<le> Packet_capacity p"
  shows "\<exists>q. CopyHeaderFrom fresh s p = Some q \<and> rp_padding_size q = 0 \<and> has_pad (contents (rp_buffer q)) \<and> \<not> packet_inv q"
proof -
  let ?D = "contents (rp_buffer s)" and ?b = "Buffer_SetData fresh (take (headers_size s) (data_from s 0)) (rp_buffer p)"
  have he: "headers_size s = hdr_end ?D" "hdr_end ?D \<le> length ?D" "12 \<le> hdr_end ?D"
    using packet_inv_facts(4,6) [OF inv] by (simp_all add: headers_size_def layout_agrees_def rtp_valid_def hdr_end_def csrc_end_def)
  have "take (headers_size s) (data_from s 0) = take (hdr_end ?D) ?D"
    using he(1,2) by (simp add: data_from_def contents_def)
  then have "contents ?b = take (hdr_end ?D) ?D" using Buffer_SetData_ok(2) [OF fresh] by simp
  then have "has_pad (contents ?b)" using pad pad_size_iff [OF inv] he(3) by (simp add: has_pad_def)
  moreover have "\<not> packet_inv q" if "rp_padding_size q = 0" "has_pad (contents (rp_buffer q))" for q
    using pad_size_iff [of q] that by auto
  ultimately show ?thesis using cap by (simp add: CopyHeaderFrom_def)
qed

text \<open>
  A received extension block without elements leaves \<open>extensions_size_\<close> at 0, and \<open>SetCsrcs\<close> then writes
  over it without clearing the extension bit: the packet no longer parses.
\<close>

lemma SetCsrcs_behind_extension:
  "do { p \<leftarrow> Packet_new zeros None 32;
        (ok, p) \<leftarrow> Packet_Parse zeros [0x90, 0, 0, 0, 0, 0, 0, 0, 0, 0, 0, 0, 0xBE, 0xDE, 0, 0] p;
        p \<leftarrow> SetCsrcs zeros [5] p;
        (ok', _) \<leftarrow> Packet_Parse zeros (contents (rp_buffer p)) p;
        Some (ok, ok') } = Some (True, False)"
  by code_simp

end
