(* ===== verification/Spec2Isabelle.thy ===== *)
theory Spec2Isabelle
  imports Prelude ByteIo RtcpBase RtcpReports RtcpByeAppSdes RtcpFeedback RtcpRate RtcpNack RtcpXr SeqNum
    TransportReach CowBuffer RtpHeaderParse RtpPacketReach
begin

text \<open>
  A verification of the RTP and RTCP packet layer of WebRTC,
  \<open>src/webrtc/modules/rtp_rtcp/source\<close>: the code that turns bytes from the network into packet
  objects and packet objects into bytes.

  \<^bold>\<open>Parts.\<close> RTCP packets arrive in one buffer that holds several packets. \<open>CommonHeader::Parse\<close>
  checks the four byte header of each and delimits its payload; a packet class
  (\<open>rtcp_packet/*.cc\<close>) parses the payload. On the way out a packet class knows its length
  (\<open>BlockLength\<close>) and writes itself at the current position of a caller's buffer (\<open>Create\<close>);
  when the packet does not fit, the filled part is handed to a callback (\<open>OnBufferFull\<close>) and the
  buffer is reused. A \<open>CompoundPacket\<close> writes a list of packets this way. An RTP packet is an
  \<open>rtp::Packet\<close> (\<open>rtp_packet.cc\<close>): a \<open>CopyOnWriteBuffer\<close> with the bytes and fields that repeat what
  the bytes say. It is filled from received bytes (\<open>Parse\<close>) or by setters; its header extensions are
  found through the ids of an \<open>RtpHeaderExtensionMap\<close>. \<open>RtpHeaderParser\<close> (\<open>rtp_utility.cc\<close>) is a second
  parser of the same format.

  \<^bold>\<open>Conventions.\<close> A value of type \<open>'a option\<close> as the result of a modelled function is \<open>None\<close>
  exactly when the code would read or write outside a buffer, fail a check or assertion that the
  model keeps, call a missing callback or run for ever. A rejected input is a value: \<open>Inl\<close> of an
  error reason, or a flag \<open>False\<close> together with the state the code leaves behind. Machine integers are words of
  their width; \<open>size_t\<close> is \<open>nat\<close> where the code only adds bounded values. Log output is left out.

  \<^bold>\<open>Theories.\<close>
  \<^item> \<open>Prelude\<close>: collections of rewrite rules, checked access to byte lists, loops over lists.
  \<^item> \<open>ByteIo\<close>: \<open>byte_io.h\<close>, readers and writers of integers in both byte orders. The generic loops
    equal the specialisations, and reading inverts writing.
  \<^item> \<open>RtcpBase\<close>: \<open>common_header.cc\<close>, \<open>rtcp_packet.cc\<close>, \<open>compound_packet.cc\<close>. The output buffer with
    its callback, the locales \<open>rtcp_wire\<close>, \<open>rtcp_packet\<close>, \<open>rtcp_format\<close> and \<open>rtcp_codec\<close> that state
    the contract of a packet class, and what follows from it: \<open>Create\<close> refines appending the wire
    format to a stream, \<open>Build\<close> followed by \<open>Parse\<close> returns the packet, parsers do not fault.
  \<^item> \<open>RtcpReports\<close>, \<open>RtcpByeAppSdes\<close>, \<open>RtcpFeedback\<close>, \<open>RtcpRate\<close>, \<open>RtcpNack\<close>, \<open>RtcpXr\<close>: one record
    and one group of operations per packet class, and an interpretation of the contract for each.
  \<^item> \<open>SeqNum\<close>: comparison and unwrapping of 16 and 32 bit sequence numbers, \<open>mod_ops.h\<close>.
  \<^item> \<open>TransportChunk\<close>, \<open>TransportFeedback\<close>: \<open>transport_feedback.cc\<close>, the chunk encoder and the
    builder, parser, consistency check and serialiser around it. \<open>TransportInvariant\<close>,
    \<open>TransportParse\<close> and \<open>TransportWire\<close> show that every operation keeps an invariant that implies
    \<open>IsConsistent\<close>, that parsing any payload is safe, and that what is built parses back;
    \<open>TransportReach\<close> states this for every sequence of calls.
  \<^item> \<open>RtcBuffer\<close>, \<open>CowBuffer\<close>: \<open>base/buffer.h\<close>, and \<open>base/copyonwritebuffer.cc\<close> on an explicit store of
    reference counted objects. Handles behave like separate byte strings, which is why a packet can
    hold its buffer by value.
  \<^item> \<open>RtcRandom\<close>: \<open>base/random.cc\<close>, the generator that fills the padding.
  \<^item> \<open>RtpExtension\<close>: \<open>rtp_header_extension.cc\<close>, the registry, shown to implement a partial map, and
    \<open>rtp_header_extensions.cc\<close>, the six value formats, each an interpretation of the locale
    \<open>rtp_extension\<close>.
  \<^item> \<open>RtpHeader\<close>: \<open>RTPHeader\<close> and \<open>RtpHeaderParser\<close>. \<open>RtpPacket\<close>: all operations of \<open>rtp_packet.cc\<close>.
  \<^item> \<open>RtpPacketScan\<close>: a reference reader of the extension block, equal to the loop of \<open>ParseBuffer\<close> for
    blocks below 64 kB. \<open>RtpPacketInv\<close>: the layout of a packet as functions of its bytes, the
    invariant that the fields agree with them, and parsing. \<open>RtpPacketOps\<close> and \<open>RtpPacketExt\<close>: the
    getters and setters under the invariant, and the locale \<open>rtp_value_reader\<close> for reading back an
    extension. \<open>RtpPacketView\<close>: every operation as a change of an abstract view, and the packets that
    sequences of calls can build. \<open>RtpPacketReach\<close>: the properties of these packets.
    \<open>RtpHeaderParse\<close>: the two parsers agree.

  \<^bold>\<open>Bounds.\<close> No fuel is used: every loop is a total function with a measure, except the loop over the
  extension elements in \<open>ParseBuffer\<close>, which need not end; it is a partial function, proved to return
  on buffers of less than 64 kB and not to return on a larger one. Time stamps are assumed to lie
  within \<open>2 ^ 62\<close> microseconds, which keeps their differences within 64 bits. Buffers and capacities of
  RTP packets are assumed to be less than 64 kB, as the offsets that the class stores have 16 bits.

  \<^bold>\<open>Parameters.\<close> The contents of freshly allocated memory are a function \<open>fresh\<close> of which only the
  number of bytes is assumed (\<open>allocates\<close>).

  \<^bold>\<open>Not modelled.\<close> The RTCP sender and receiver (clocks, locks and observers around the packet
  classes), forward error correction, codecs, the floating point draws of \<open>Random\<close>, and everything
  that is input, output or threads.
\<close>

section \<open>Every parser is memory safe\<close>



section \<open>Compound packets\<close>

text \<open>
  C3. Compound packets with fragmentation: for any non-empty sequence of packets that each fit the
  limit, the callback receives, in order, the concatenations of consecutive groups of their wire
  formats, nothing lost, repeated or split, and none longer than the limit.
\<close>

theorem CompoundPacket_Build_correct:
  assumes "list_all2 writes objs wires" "objs \<noteq> []"
    and "\<forall>w \<in> set wires. w \<noteq> [] \<and> length w \<le> maxlen" "maxlen \<le> length mem"
  shows "\<exists>s groups. BuildExternalBuffer (CompoundPacket_Create objs) mem maxlen True = Some (True, s) \<and>
     ready s = map concat groups \<and> concat groups = wires \<and> (\<forall>p \<in> set (ready s). length p \<le> maxlen)"
  using assms by (rule CompoundPacket_Build_groups)

definition example_sr :: rtcp_object where
  "example_sr = \<lparr>obj_BlockLength = SenderReport_BlockLength SenderReport_new,
     obj_Create = SenderReport_Create SenderReport_new\<rparr>"

definition example_pli :: rtcp_object where
  "example_pli = \<lparr>obj_BlockLength = Pli_BlockLength Pli_new, obj_Create = Pli_Create Pli_new\<rparr>"

lemma example_writes:
  "writes example_sr (SenderReport_wire SenderReport_new)" "writes example_pli (Pli_wire Pli_new)"
  "length (SenderReport_wire SenderReport_new) = 28" "length (Pli_wire Pli_new) = 12"
proof -
  note wf = SenderReport_built_wf [OF SenderReport_built.new]
  show "writes example_sr (SenderReport_wire SenderReport_new)" "writes example_pli (Pli_wire Pli_new)"
    unfolding example_sr_def example_pli_def
    by (rule sender_report.writes_wire [OF wf] pli.writes_wire [OF TrueI])+
  show "length (SenderReport_wire SenderReport_new) = 28" "length (Pli_wire Pli_new) = 12"
    using sender_report.length_wire [OF wf] pli.length_wire [OF TrueI, of Pli_new]
    by (simp_all add: SenderReport_BlockLength_def SenderReport_new_def Pli_BlockLength_def)
qed

theorem CompoundPacket_Build_correct_witness:
  "\<exists>s groups. BuildExternalBuffer (CompoundPacket_Create [example_sr, example_pli, example_pli])
       (replicate 40 0) 40 True = Some (True, s) \<and>
     ready s = map concat groups \<and>
     concat groups = [SenderReport_wire SenderReport_new, Pli_wire Pli_new, Pli_wire Pli_new] \<and>
     (\<forall>p \<in> set (ready s). length p \<le> 40)"
proof -
  have "Pli_wire Pli_new \<noteq> []" "SenderReport_wire SenderReport_new \<noteq> []"
    using example_writes(3,4) by force+
  then show ?thesis using example_writes by (intro CompoundPacket_Build_correct) auto
qed

text \<open>
  C11. Refinement: creating a compound packet into any output state does to the abstract stream of
  finished packets and bytes under construction what appending the wire formats one after the
  other specifies, failure and missing callback included.
\<close>

theorem CompoundPacket_Create_refines:
  assumes "list_all2 writes objs wires" "out_ok maxlen s"
  shows "map_option (map_prod id out_abs) (CompoundPacket_Create objs maxlen s) =
     spec_compound wires maxlen (callback s) (out_abs s)"
  using Compound_refines_keeps [OF assms] by simp

theorem CompoundPacket_Create_refines_witness:
  "map_option (map_prod id out_abs) (CompoundPacket_Create [example_sr, example_pli] 40
       \<lparr>buffer = replicate 48 0, index = 4, callback = True, ready = []\<rparr>) =
     Some (True, [replicate 4 0 @ SenderReport_wire SenderReport_new], Pli_wire Pli_new)"
proof -
  let ?s = "\<lparr>buffer = replicate 48 0, index = 4, callback = True, ready = []\<rparr> :: out"
  have "list_all2 writes [example_sr, example_pli] [SenderReport_wire SenderReport_new, Pli_wire Pli_new]"
    using example_writes by simp
  from CompoundPacket_Create_refines [OF this, of 40 ?s] show ?thesis
    by (simp add: out_ok_def out_abs_def example_writes)
qed

end
